(* ===== verification/Prelude.thy ===== *)
theory Prelude
  imports "HOL-Library.Word" "HOL-Library.State_Monad" "HOL-Library.Multiset"
begin

text \<open>
  Shared vocabulary of the development: the machine types, the few pieces of the Rust
  standard library the crate leans on (\<^verbatim>\<open>Option::ok_or\<close>, \<^verbatim>\<open>CString::new\<close>, UTF-8 validation,
  \<^verbatim>\<open>slice::chunks\<close>, \<^verbatim>\<open>Vec::truncate\<close>, integer casts, decimal formatting), and the
  \<^verbatim>\<open>?\<close> operator as a combinator on stateful computations that return a sum.

  A \<^verbatim>\<open>&str\<close> and a C string are both a \<open>string\<close>, that is a list of bytes; a byte
  buffer is a list of 8-bit words. A \<^verbatim>\<open>c_int\<close> or other signed integer that crosses the boundary
  is an \<open>int\<close>, and every narrowing cast of the source is written out.
\<close>

named_theorems keep_rules "a computation leaves the handles it is lent as they were"

section \<open>Machine types\<close>

type_synonym u8 = "8 word"
type_synonym u16 = "16 word"
type_synonym u32 = "32 word"
type_synonym u64 = "64 word"
type_synonym bytes = "u8 list"
type_synonym ptr = nat

abbreviation (input) null_ptr :: ptr where
  "null_ptr \<equiv> 0"

text \<open>\<^verbatim>\<open>x as c_int\<close>, \<^verbatim>\<open>x as u16\<close>, \<^verbatim>\<open>x as u32\<close> and \<^verbatim>\<open>x as u64\<close> keep the low bits.\<close>

definition as_c_int :: "int \<Rightarrow> int" where
  "as_c_int x = signed_take_bit 31 x"

definition as_u16 :: "int \<Rightarrow> u16" where
  "as_u16 x = word_of_int x"

definition as_u32 :: "int \<Rightarrow> u32" where
  "as_u32 x = word_of_int x"

definition as_u64 :: "int \<Rightarrow> u64" where
  "as_u64 x = word_of_int x"

lemma as_c_int_id: "- (2 ^ 31) \<le> x \<Longrightarrow> x < 2 ^ 31 \<Longrightarrow> as_c_int x = x"
  unfolding as_c_int_def by (rule signed_take_bit_int_eq_self) simp_all

lemma uint_as_u32: "0 \<le> x \<Longrightarrow> x < 2 ^ 32 \<Longrightarrow> uint (as_u32 x) = x"
  unfolding as_u32_def by (simp add: uint_word_of_int_eq take_bit_int_eq_self)

lemma uint_as_u16: "0 \<le> x \<Longrightarrow> x < 2 ^ 16 \<Longrightarrow> uint (as_u16 x) = x"
  unfolding as_u16_def by (simp add: uint_word_of_int_eq take_bit_int_eq_self)

section \<open>Results and the question mark operator\<close>

definition ok_or :: "'a option \<Rightarrow> 'e \<Rightarrow> 'e + 'a" where
  "ok_or x e = (case x of None \<Rightarrow> Inl e | Some y \<Rightarrow> Inr y)"

definition is_ok :: "'e + 'a \<Rightarrow> bool" where
  "is_ok r = (case r of Inl _ \<Rightarrow> False | Inr _ \<Rightarrow> True)"

definition map_ok :: "('a \<Rightarrow> 'b) \<Rightarrow> 'e + 'a \<Rightarrow> 'e + 'b" where
  "map_ok f r = (case r of Inl e \<Rightarrow> Inl e | Inr x \<Rightarrow> Inr (f x))"

definition and_then :: "'e + 'a \<Rightarrow> ('a \<Rightarrow> 'e + 'b) \<Rightarrow> 'e + 'b" where
  "and_then r f = (case r of Inl e \<Rightarrow> Inl e | Inr x \<Rightarrow> f x)"

lemma ok_or_simps [simp]:
  "ok_or None e = Inl e"
  "ok_or (Some x) e = Inr x"
  by (simp_all add: ok_or_def)

lemma is_ok_simps [simp]: "\<not> is_ok (Inl e)" "is_ok (Inr x)"
  by (simp_all add: is_ok_def)

lemma map_ok_simps [simp]: "map_ok f (Inl e) = Inl e" "map_ok f (Inr x) = Inr (f x)"
  by (simp_all add: map_ok_def)

lemma and_then_simps [simp]: "and_then (Inl e) f = Inl e" "and_then (Inr x) f = f x"
  by (simp_all add: and_then_def)

lemma is_ok_map_ok [simp]: "is_ok (map_ok f r) = is_ok r"
  by (cases r) simp_all

text \<open>\<open>try_ok m f\<close> is the Rust \<^verbatim>\<open>let x = m?; f(x)\<close>: an error of \<open>m\<close> returns at once.\<close>

definition try_ok ::
  "('s, 'e + 'a) state \<Rightarrow> ('a \<Rightarrow> ('s, 'e + 'b) state) \<Rightarrow> ('s, 'e + 'b) state" where
  "try_ok m f = do {
     r \<leftarrow> m;
     (case r of Inl e \<Rightarrow> State_Monad.return (Inl e) | Inr x \<Rightarrow> f x)
   }"

definition lift_res :: "'e + 'a \<Rightarrow> ('s, 'e + 'a) state" where
  "lift_res r = State_Monad.return r"

definition ret_ok :: "'a \<Rightarrow> ('s, 'e + 'a) state" where
  "ret_ok x = State_Monad.return (Inr x)"

definition ret_err :: "'e \<Rightarrow> ('s, 'e + 'a) state" where
  "ret_err e = State_Monad.return (Inl e)"

lemma run_try_ok [simp]:
  "run_state (try_ok m f) s =
     (case run_state m s of (r, s') \<Rightarrow>
        (case r of Inl e \<Rightarrow> (Inl e, s') | Inr x \<Rightarrow> run_state (f x) s'))"
  by (simp add: try_ok_def split: prod.split sum.split)

lemma run_lift_res [simp]: "run_state (lift_res r) s = (r, s)"
  by (simp add: lift_res_def)

lemma run_ret [simp]:
  "run_state (ret_ok x) s = (Inr x, s)"
  "run_state (ret_err e) s = (Inl e, s)"
  by (simp_all add: ret_ok_def ret_err_def)

section \<open>Strings\<close>

text \<open>\<^verbatim>\<open>CString::new\<close> fails exactly on an interior nul byte.\<close>

definition cstring_new :: "string \<Rightarrow> string option" where
  "cstring_new s = (if CHR 0x00 \<in> set s then None else Some s)"

lemma cstring_new_Some_iff: "cstring_new s = Some t \<longleftrightarrow> CHR 0x00 \<notin> set s \<and> t = s"
  by (auto simp: cstring_new_def)

lemma cstring_new_None_iff: "cstring_new s = None \<longleftrightarrow> CHR 0x00 \<in> set s"
  by (simp add: cstring_new_def)

definition is_cont :: "nat \<Rightarrow> bool" where
  "is_cont b \<longleftrightarrow> 128 \<le> b \<and> b \<le> 191"

text \<open>
  One step of the UTF-8 decoder of \<^verbatim>\<open>core::str\<close>, after the well-formed sequences of the Unicode
  table 3-7: for a leading byte and the bytes behind it, whether a well-formed sequence stands here,
  and how many of the following bytes belong to it or to its longest well-formed prefix.
\<close>

definition utf8_step :: "nat \<Rightarrow> nat list \<Rightarrow> bool \<times> nat" where
  "utf8_step a bs =
     (let nth = (\<lambda>i. if i < length bs then bs ! i else 0);
          second = (if a = 224 then 160 \<le> nth 0 \<and> nth 0 \<le> 191
                    else if a = 237 then 128 \<le> nth 0 \<and> nth 0 \<le> 159
                    else if a = 240 then 144 \<le> nth 0 \<and> nth 0 \<le> 191
                    else if a = 244 then 128 \<le> nth 0 \<and> nth 0 \<le> 143
                    else is_cont (nth 0))
      in if a < 128 then (True, 0)
         else if 194 \<le> a \<and> a \<le> 223 then (if second then (True, 1) else (False, 0))
         else if 224 \<le> a \<and> a \<le> 239 then
           (if \<not> second then (False, 0) else if is_cont (nth 1) then (True, 2) else (False, 1))
         else if 240 \<le> a \<and> a \<le> 244 then
           (if \<not> second then (False, 0) else if \<not> is_cont (nth 1) then (False, 1)
            else if is_cont (nth 2) then (True, 3) else (False, 2))
         else (False, 0))"

function utf8_ok :: "nat list \<Rightarrow> bool" where
  "utf8_ok [] = True"
| "utf8_ok (a # bs) = (fst (utf8_step a bs) \<and> utf8_ok (drop (snd (utf8_step a bs)) bs))"
  by pat_completeness auto
termination
  by (relation "measure length") auto

text \<open>\<^verbatim>\<open>String::from_utf8_lossy\<close>: each ill-formed piece becomes the bytes of U+FFFD.\<close>

function utf8_lossy :: "nat list \<Rightarrow> nat list" where
  "utf8_lossy [] = []"
| "utf8_lossy (a # bs) =
     (let k = snd (utf8_step a bs)
      in (if fst (utf8_step a bs) then a # take k bs else [239, 191, 189]) @ utf8_lossy (drop k bs))"
  by pat_completeness auto
termination
  by (relation "measure length") auto

lemma utf8_lossy_id: "utf8_ok bs \<Longrightarrow> utf8_lossy bs = bs"
  by (induction bs rule: utf8_ok.induct) (simp_all add: Let_def)

lemma utf8_step_ascii [simp]: "a < 128 \<Longrightarrow> utf8_step a bs = (True, 0)"
  by (simp add: utf8_step_def)

definition utf8_str :: "string \<Rightarrow> bool" where
  "utf8_str s = utf8_ok (map of_char s)"

text \<open>\<^verbatim>\<open>CStr::to_str\<close> and \<^verbatim>\<open>core::str::from_utf8\<close>.\<close>

definition to_str :: "string \<Rightarrow> string option" where
  "to_str s = (if utf8_str s then Some s else None)"

definition bytes_to_string :: "bytes \<Rightarrow> string" where
  "bytes_to_string bs = map (\<lambda>b. char_of (unat b)) bs"

definition from_utf8_lossy :: "bytes \<Rightarrow> string" where
  "from_utf8_lossy bs = map char_of (utf8_lossy (map unat bs))"

definition from_utf8 :: "bytes \<Rightarrow> string option" where
  "from_utf8 bs = to_str (bytes_to_string bs)"

lemma utf8_ok_ascii: "\<forall>b \<in> set bs. b < 128 \<Longrightarrow> utf8_ok bs"
  by (induction bs) simp_all

definition opt_unwrap_or :: "'a option \<Rightarrow> 'a \<Rightarrow> 'a" where
  "opt_unwrap_or x d = (case x of None \<Rightarrow> d | Some y \<Rightarrow> y)"

lemma opt_unwrap_or_simps [simp]: "opt_unwrap_or None d = d" "opt_unwrap_or (Some x) d = x"
  by (simp_all add: opt_unwrap_or_def)

section \<open>Decimal formatting\<close>

definition digit_char :: "nat \<Rightarrow> char" where
  "digit_char d = char_of (48 + d)"

fun show_nat :: "nat \<Rightarrow> string" where
  "show_nat n = (if n < 10 then [digit_char n] else show_nat (n div 10) @ [digit_char (n mod 10)])"

declare show_nat.simps [simp del]

definition show_int :: "int \<Rightarrow> string" where
  "show_int i = (if i < 0 then CHR ''-'' # show_nat (nat (- i)) else show_nat (nat i))"

definition digit_val :: "char \<Rightarrow> nat" where
  "digit_val c = of_char c - 48"

fun read_nat :: "nat \<Rightarrow> string \<Rightarrow> nat" where
  "read_nat acc [] = acc"
| "read_nat acc (c # cs) = read_nat (10 * acc + digit_val c) cs"

lemma of_char_digit: "d < 10 \<Longrightarrow> of_char (digit_char d) = (48 + d :: nat)"
  by (simp add: digit_char_def)

lemma digit_val_char [simp]: "d < 10 \<Longrightarrow> digit_val (digit_char d) = d"
  by (simp add: digit_val_def of_char_digit)

lemma read_nat_append: "read_nat acc (xs @ ys) = read_nat (read_nat acc xs) ys"
  by (induction xs arbitrary: acc) simp_all

lemma read_show_nat: "read_nat 0 (show_nat n) = n"
proof (induction n rule: show_nat.induct)
  case (1 n)
  then show ?case
    by (subst show_nat.simps) (simp add: read_nat_append)
qed

lemma show_nat_inject: "show_nat m = show_nat n \<Longrightarrow> m = n"
  by (metis read_show_nat)

lemma show_nat_chars: "c \<in> set (show_nat n) \<Longrightarrow> 48 \<le> (of_char c :: nat) \<and> (of_char c :: nat) \<le> 57"
proof (induction n rule: show_nat.induct)
  case (1 n)
  then show ?case
    by (subst (asm) show_nat.simps) (auto simp: of_char_digit split: if_splits)
qed

lemma show_nat_no_minus: "CHR ''-'' \<notin> set (show_nat n)"
  using show_nat_chars [of "CHR ''-''" n] by auto

lemma show_nat_nonempty: "show_nat n \<noteq> []"
  by (subst show_nat.simps) simp

lemma show_int_inject:
  assumes "show_int i = show_int j"
  shows "i = j"
proof -
  have "hd (show_nat m) \<noteq> CHR ''-''" for m
    using show_nat_no_minus [of m] show_nat_nonempty [of m] by (metis list.set_sel(1))
  then show ?thesis
    using assms unfolding show_int_def
    by (auto split: if_splits dest!: show_nat_inject) (metis list.sel(1))+
qed

lemma show_int_no_paren: "CHR ''('' \<notin> set (show_int i)"
  using show_nat_chars [of "CHR ''(''"] by (auto simp: show_int_def)

section \<open>Vectors\<close>

text \<open>\<^verbatim>\<open>slice::chunks(n)\<close> for a positive \<open>n\<close>: the last chunk may be shorter.\<close>

function chunks :: "nat \<Rightarrow> 'a list \<Rightarrow> 'a list list" where
  "chunks n xs = (if n = 0 \<or> xs = [] then [] else take n xs # chunks n (drop n xs))"
  by pat_completeness auto
termination
  by (relation "measure (\<lambda>(n, xs). length xs)") auto

declare chunks.simps [simp del]

lemma chunks_Nil [simp]: "chunks n [] = []"
  by (subst chunks.simps) simp

lemma chunks_append:
  assumes "0 < n" and "length xs = n"
  shows "chunks n (xs @ ys) = xs # chunks n ys"
  using assms by (subst chunks.simps) auto

lemma chunks_concat:
  assumes "0 < n" and "\<forall>xs \<in> set xss. length xs = n"
  shows "chunks n (concat xss) = xss"
  using assms(2) by (induction xss) (simp_all add: chunks_append [OF assms(1)])

lemma concat_chunks: "0 < n \<Longrightarrow> concat (chunks n xs) = xs"
proof (induction n xs rule: chunks.induct)
  case (1 n xs)
  then show ?case by (subst chunks.simps) auto
qed

lemma chunks_lengths:
  assumes "0 < n" and "length xs = k * n"
  shows "length (chunks n xs) = k \<and> (\<forall>c \<in> set (chunks n xs). length c = n)"
  using assms(2)
proof (induction k arbitrary: xs)
  case 0
  then show ?case by simp
next
  case (Suc k)
  define a where "a = take n xs"
  define b where "b = drop n xs"
  have xs: "xs = a @ b" by (simp add: a_def b_def)
  have a: "length a = n" and b: "length b = k * n"
    using Suc.prems by (simp_all add: a_def b_def)
  show ?case
    unfolding xs chunks_append [OF assms(1) a] using Suc.IH [OF b] a by simp
qed

definition zeros :: "nat \<Rightarrow> bytes" where
  "zeros n = replicate n 0"

lemma length_zeros [simp]: "length (zeros n) = n"
  by (simp add: zeros_def)

lemma in_set_zeros [simp]: "b \<in> set (zeros n) \<longleftrightarrow> 0 < n \<and> b = 0"
  by (auto simp: zeros_def)

text \<open>
  \<open>overwrite out buf\<close>: a C function writes \<open>out\<close> at the start of the buffer \<open>buf\<close>. Writing
  past the end is a fault of the C side, so the model stops at the buffer's length.
\<close>

definition overwrite :: "'a list \<Rightarrow> 'a list \<Rightarrow> 'a list" where
  "overwrite out buf = take (length buf) out @ drop (length out) buf"

lemma length_overwrite [simp]: "length (overwrite out buf) = length buf"
  by (simp add: overwrite_def)

lemma overwrite_full: "length out = length buf \<Longrightarrow> overwrite out buf = out"
  by (simp add: overwrite_def)

lemma take_overwrite: "length out \<le> length buf \<Longrightarrow> take (length out) (overwrite out buf) = out"
  by (simp add: overwrite_def)

text \<open>\<^verbatim>\<open>Vec::swap_remove\<close>: the last element takes the place of the removed one.\<close>

definition swap_remove :: "nat \<Rightarrow> 'a list \<Rightarrow> 'a list" where
  "swap_remove i xs = butlast (xs[i := last xs])"

lemma length_swap_remove [simp]: "length (swap_remove i xs) = length xs - 1"
  by (simp add: swap_remove_def)

lemma mset_swap_remove:
  assumes "i < length xs"
  shows "add_mset (xs ! i) (mset (swap_remove i xs)) = mset xs"
proof -
  have ne: "xs \<noteq> []" using assms by auto
  let ?ys = "xs[i := last xs]"
  have "?ys \<noteq> []" using ne by simp
  then have "mset ?ys = add_mset (last ?ys) (mset (butlast ?ys))"
    by (metis append_butlast_last_id mset.simps(2) mset_append add_mset_add_single mset.simps(1))
  moreover have "last ?ys = last xs"
    using ne assms by (simp add: last_conv_nth nth_list_update)
  moreover have "mset ?ys = add_mset (last xs) (mset xs - {#xs ! i#})"
    using assms by (simp add: mset_update)
  ultimately have "mset (butlast ?ys) = mset xs - {#xs ! i#}" by simp
  then show ?thesis
    using assms by (simp add: swap_remove_def)
qed

lemma take_swap_remove: "i < length xs \<Longrightarrow> take i (swap_remove i xs) = take i xs"
  by (simp add: swap_remove_def take_butlast)

lemma mset_drop_swap_remove:
  assumes "i < length xs"
  shows "mset (drop i xs) = add_mset (xs ! i) (mset (drop i (swap_remove i xs)))"
proof -
  have "mset (take i xs) + mset (drop i xs) = mset xs"
    by (metis append_take_drop_id mset_append)
  also have "\<dots> = add_mset (xs ! i) (mset (take i (swap_remove i xs)) + mset (drop i (swap_remove i xs)))"
    by (metis append_take_drop_id mset_append mset_swap_remove [OF assms])
  also have "\<dots> = mset (take i xs) + add_mset (xs ! i) (mset (drop i (swap_remove i xs)))"
    by (simp add: take_swap_remove [OF assms])
  finally show ?thesis by simp
qed

section \<open>Transition systems\<close>

text \<open>An invariant of a step relation, and a simulation of one step relation by another.\<close>

locale step_invariant =
  fixes step :: "'s \<Rightarrow> 's \<Rightarrow> bool"
    and inv :: "'s \<Rightarrow> bool"
  assumes step_keeps: "step s t \<Longrightarrow> inv s \<Longrightarrow> inv t"
begin

lemma reach_keeps: "step\<^sup>*\<^sup>* s t \<Longrightarrow> inv s \<Longrightarrow> inv t"
  by (induction rule: rtranclp_induct) (auto intro: step_keeps)

end

locale simulation = step_invariant step inv
  for step :: "'s \<Rightarrow> 's \<Rightarrow> bool" and inv :: "'s \<Rightarrow> bool" +
  fixes spec :: "'a \<Rightarrow> 'a \<Rightarrow> bool"
    and absf :: "'s \<Rightarrow> 'a"
  assumes step_simulated: "step s t \<Longrightarrow> inv s \<Longrightarrow> spec\<^sup>*\<^sup>* (absf s) (absf t)"
begin

lemma reach_simulated: "step\<^sup>*\<^sup>* s t \<Longrightarrow> inv s \<Longrightarrow> spec\<^sup>*\<^sup>* (absf s) (absf t)"
proof (induction rule: rtranclp_induct)
  case base
  then show ?case by simp
next
  case (step t u)
  then have "spec\<^sup>*\<^sup>* (absf t) (absf u)"
    using step_simulated reach_keeps by blast
  with step show ?case by auto
qed

end

end
