(* ===== verification/Errors.thy ===== *)
theory Errors
  imports Prelude
begin

text \<open>
  The error taxonomy of \<^verbatim>\<open>nwep/src/error.rs\<close>: the enum \<^verbatim>\<open>Error\<close>, its numeric code and the
  inverse table \<^verbatim>\<open>from_code\<close>, \<^verbatim>\<open>check\<close> (which turns a C return code into a result),
  \<^verbatim>\<open>is_fatal\<close>, and the \<^verbatim>\<open>Display\<close> form. The locale \<open>code_table\<close> is the contract of an
  encoding with a partial decoder; it is interpreted here on \<open>error_code\<close> and
  \<open>error_from_code\<close>, and in the trust log on the revocation reasons.
\<close>

section \<open>Code tables\<close>

text \<open>
  An encoding \<open>enc\<close> of values into wire codes with a decoder \<open>dec\<close>. The values in normal form,
  \<open>canon\<close>, are the ones the decoder can return.
\<close>

locale code_table =
  fixes enc :: "'a \<Rightarrow> 'c"
    and dec :: "'c \<Rightarrow> 'a option"
    and canon :: "'a \<Rightarrow> bool"
  assumes dec_enc: "canon x \<Longrightarrow> dec (enc x) = Some x"
    and dec_sound: "dec c = Some x \<Longrightarrow> canon x \<and> enc x = c"
begin

lemma dec_Some_iff: "dec c = Some x \<longleftrightarrow> canon x \<and> enc x = c"
  using dec_enc dec_sound by blast

lemma enc_inj_on: "inj_on enc {x. canon x}"
  by (rule inj_onI) (metis dec_enc mem_Collect_eq option.inject)

lemma dec_inj: "dec c = Some x \<Longrightarrow> dec d = Some x \<Longrightarrow> c = d"
  by (auto dest: dec_sound)

lemma enc_image: "enc ` {x. canon x} = {c. dec c \<noteq> None}"
  by (auto simp: image_iff dec_enc) (metis dec_sound)

lemma table_bij: "bij_betw enc {x. canon x} {c. dec c \<noteq> None}"
  unfolding bij_betw_def using enc_inj_on enc_image by blast

end

section \<open>The error enum\<close>

datatype error =
    ConfigInvalid
  | ConfigMissing | NetworkConnect | NetworkTimeout | NetworkClosed | NetworkQuic | NetworkTls
  | CryptoKeygen | CryptoRand | CryptoSign | CryptoVerify | CryptoFatalCert
  | CryptoFatalNodeIdMismatch | CryptoFatalChallenge | CryptoFatalServerSig
  | CryptoFatalClientSig | ProtoInvalidMessage | ProtoInvalidMethod | ProtoInvalidHeader
  | ProtoConnectRequired | ProtoStreamReuse | ProtoMaxStreams | ProtoFlowControl
  | ProtoMessageTooLarge | ProtoFatalVersion | IdentityGenerate | IdentityMismatch
  | IdentityNotFound | IdentityRevoked | AppNotFound | AppConflict | AppRateLimited
  | AppForbidden | TrustInvalidEntry | TrustInvalidAnchor | TrustStaleCheckpoint
  | TrustThreshold | TrustRevoked | TrustNoCheckpoint | TrustFatalEquivocation
  | TrustFatalLogCorrupt | Internal | InternalAlloc | WouldBlock
  | Other int

text \<open>\<^verbatim>\<open>Error::code\<close>.\<close>

fun error_code :: "error \<Rightarrow> int" where
  "error_code ConfigInvalid = -101"
| "error_code ConfigMissing = -102"
| "error_code NetworkConnect = -201"
| "error_code NetworkTimeout = -202"
| "error_code NetworkClosed = -203"
| "error_code NetworkQuic = -204"
| "error_code NetworkTls = -205"
| "error_code CryptoKeygen = -301"
| "error_code CryptoRand = -302"
| "error_code CryptoSign = -303"
| "error_code CryptoVerify = -304"
| "error_code CryptoFatalCert = -381"
| "error_code CryptoFatalNodeIdMismatch = -382"
| "error_code CryptoFatalChallenge = -383"
| "error_code CryptoFatalServerSig = -384"
| "error_code CryptoFatalClientSig = -385"
| "error_code ProtoInvalidMessage = -401"
| "error_code ProtoInvalidMethod = -402"
| "error_code ProtoInvalidHeader = -403"
| "error_code ProtoConnectRequired = -404"
| "error_code ProtoStreamReuse = -405"
| "error_code ProtoMaxStreams = -406"
| "error_code ProtoFlowControl = -407"
| "error_code ProtoMessageTooLarge = -408"
| "error_code ProtoFatalVersion = -481"
| "error_code IdentityGenerate = -501"
| "error_code IdentityMismatch = -502"
| "error_code IdentityNotFound = -503"
| "error_code IdentityRevoked = -504"
| "error_code AppNotFound = -601"
| "error_code AppConflict = -602"
| "error_code AppRateLimited = -603"
| "error_code AppForbidden = -604"
| "error_code TrustInvalidEntry = -701"
| "error_code TrustInvalidAnchor = -702"
| "error_code TrustStaleCheckpoint = -703"
| "error_code TrustThreshold = -704"
| "error_code TrustRevoked = -705"
| "error_code TrustNoCheckpoint = -706"
| "error_code TrustFatalEquivocation = -781"
| "error_code TrustFatalLogCorrupt = -782"
| "error_code Internal = -801"
| "error_code InternalAlloc = -802"
| "error_code WouldBlock = -803"
| "error_code (Other c) = c"

text \<open>\<^verbatim>\<open>Error::from_code\<close>: the last arm keeps the code it does not know.\<close>

definition error_from_code :: "int \<Rightarrow> error" where
  "error_from_code c =
     (if c = -101 then ConfigInvalid
      else if c = -102 then ConfigMissing
      else if c = -201 then NetworkConnect
      else if c = -202 then NetworkTimeout
      else if c = -203 then NetworkClosed
      else if c = -204 then NetworkQuic
      else if c = -205 then NetworkTls
      else if c = -301 then CryptoKeygen
      else if c = -302 then CryptoRand
      else if c = -303 then CryptoSign
      else if c = -304 then CryptoVerify
      else if c = -381 then CryptoFatalCert
      else if c = -382 then CryptoFatalNodeIdMismatch
      else if c = -383 then CryptoFatalChallenge
      else if c = -384 then CryptoFatalServerSig
      else if c = -385 then CryptoFatalClientSig
      else if c = -401 then ProtoInvalidMessage
      else if c = -402 then ProtoInvalidMethod
      else if c = -403 then ProtoInvalidHeader
      else if c = -404 then ProtoConnectRequired
      else if c = -405 then ProtoStreamReuse
      else if c = -406 then ProtoMaxStreams
      else if c = -407 then ProtoFlowControl
      else if c = -408 then ProtoMessageTooLarge
      else if c = -481 then ProtoFatalVersion
      else if c = -501 then IdentityGenerate
      else if c = -502 then IdentityMismatch
      else if c = -503 then IdentityNotFound
      else if c = -504 then IdentityRevoked
      else if c = -601 then AppNotFound
      else if c = -602 then AppConflict
      else if c = -603 then AppRateLimited
      else if c = -604 then AppForbidden
      else if c = -701 then TrustInvalidEntry
      else if c = -702 then TrustInvalidAnchor
      else if c = -703 then TrustStaleCheckpoint
      else if c = -704 then TrustThreshold
      else if c = -705 then TrustRevoked
      else if c = -706 then TrustNoCheckpoint
      else if c = -781 then TrustFatalEquivocation
      else if c = -782 then TrustFatalLogCorrupt
      else if c = -801 then Internal
      else if c = -802 then InternalAlloc
      else if c = -803 then WouldBlock
      else Other c)"

text \<open>\<^verbatim>\<open>Error::is_fatal\<close>.\<close>

definition is_fatal :: "error \<Rightarrow> bool" where
  "is_fatal e \<longleftrightarrow> e \<in>
     {CryptoFatalCert, CryptoFatalNodeIdMismatch, CryptoFatalChallenge,
      CryptoFatalServerSig, CryptoFatalClientSig, ProtoFatalVersion,
      TrustFatalEquivocation, TrustFatalLogCorrupt}"

text \<open>\<^verbatim>\<open>Error::check\<close>: any non-negative code is success.\<close>

definition error_check :: "int \<Rightarrow> error + unit" where
  "error_check c = (if c \<ge> 0 then Inr () else Inl (error_from_code c))"

text \<open>
  \<^verbatim>\<open>Display\<close>: the library's message and the code. \<open>strerror\<close> is \<^verbatim>\<open>nwep_strerror\<close>; \<open>None\<close> is its
  null pointer.
\<close>

definition error_display :: "(int \<Rightarrow> string option) \<Rightarrow> error \<Rightarrow> string" where
  "error_display strerror e =
     (let name = (case strerror (error_code e) of
                    None \<Rightarrow> ''unknown''
                  | Some s \<Rightarrow> opt_unwrap_or (to_str s) ''unknown'')
      in name @ '' ('' @ show_int (error_code e) @ '')'')"

text \<open>\<^verbatim>\<open>Debug\<close>.\<close>

definition error_debug :: "(int \<Rightarrow> string option) \<Rightarrow> error \<Rightarrow> string" where
  "error_debug strerror e = ''Error('' @ error_display strerror e @ '')''"

section \<open>The code table\<close>

text \<open>An error in normal form: \<^verbatim>\<open>Other\<close> never carries a code that has a name.\<close>

definition error_canon :: "error \<Rightarrow> bool" where
  "error_canon e \<longleftrightarrow> (case e of Other c \<Rightarrow> error_from_code c = Other c | _ \<Rightarrow> True)"

lemma code_from_code: "error_code (error_from_code c) = c"
  by (simp add: error_from_code_def)

lemma from_code_code: "error_canon e \<Longrightarrow> error_from_code (error_code e) = e"
  by (cases e) (simp_all add: error_canon_def error_from_code_def)

lemma from_code_canon: "error_canon (error_from_code c)"
proof (cases "error_from_code c")
  case (Other d)
  with code_from_code [of c] show ?thesis by (simp add: error_canon_def)
qed (simp_all add: error_canon_def)

interpretation error_table: code_table error_code "\<lambda>c. Some (error_from_code c)" error_canon
  by unfold_locales (auto simp: from_code_code from_code_canon code_from_code)

lemma error_from_code_inject: "error_from_code c = error_from_code d \<Longrightarrow> c = d"
  by (metis code_from_code)

lemma error_check_simps [simp]:
  "0 \<le> c \<Longrightarrow> error_check c = Inr ()"
  "c < 0 \<Longrightarrow> error_check c = Inl (error_from_code c)"
  by (simp_all add: error_check_def)

lemma error_check_cases:
  obtains "0 \<le> c" "error_check c = Inr ()"
        | "c < 0" "error_check c = Inl (error_from_code c)"
  by (cases "0 \<le> c") auto

lemma error_check_Inr [simp]: "error_check c = Inr u \<longleftrightarrow> 0 \<le> c"
  by (simp add: error_check_def)

lemma error_check_Inl: "error_check c = Inl e \<longleftrightarrow> c < 0 \<and> e = error_from_code c"
  by (auto simp: error_check_def)

section \<open>Properties\<close>


text \<open>
  \<^verbatim>\<open>is_fatal\<close> holds exactly for the named codes of the form \<open>-x8y\<close>, the
  \<^verbatim>\<open>*-fatal-*\<close> block of each family; a code this build does not name is never fatal, whatever
  its digits.
\<close>

lemma fatal_iff_fatal_block:
  "is_fatal (error_from_code c) \<longleftrightarrow>
     (\<forall>d. error_from_code c \<noteq> Other d) \<and> 81 \<le> (- c) mod 100 \<and> (- c) mod 100 \<le> 89"
  by (simp add: is_fatal_def error_from_code_def)

lemma takeWhile_stop:
  "\<forall>x \<in> set xs. P x \<Longrightarrow> \<not> P y \<Longrightarrow> takeWhile P (xs @ y # ys) = xs"
  by (induction xs) simp_all

lemma takeWhile_rev_paren:
  assumes "CHR ''('' \<notin> set d"
  shows "takeWhile (\<lambda>c. c \<noteq> CHR ''('') (rev (n @ '' ('' @ d @ '')'')) = CHR '')'' # rev d"
proof -
  have split: "rev (n @ '' ('' @ d @ '')'') = (CHR '')'' # rev d) @ CHR ''('' # (CHR '' '' # rev n)"
    by simp
  show ?thesis
    unfolding split by (rule takeWhile_stop) (use assms in auto)
qed

text \<open>
  \<^verbatim>\<open>Display\<close> identifies the error: whatever texts the library returns for the codes, two
  errors that print alike have the same code.
\<close>

lemma error_display_injective:
  assumes "error_display strerror e = error_display strerror f"
  shows "error_code e = error_code f"
proof -
  obtain n m where eq: "n @ '' ('' @ show_int (error_code e) @ '')'' =
      m @ '' ('' @ show_int (error_code f) @ '')''"
    using assms unfolding error_display_def Let_def by blast
  have "CHR '')'' # rev (show_int (error_code e)) = CHR '')'' # rev (show_int (error_code f))"
    using takeWhile_rev_paren [OF show_int_no_paren] eq by metis
  then show ?thesis
    using show_int_inject by simp
qed

text \<open>
  \<^verbatim>\<open>check\<close> never loses a code: it succeeds exactly on the non-negative codes, and an error it
  returns carries the C code it was made from.
\<close>

lemma check_preserves_code:
  "error_check c = (if c < 0 then Inl (error_from_code c) else Inr ()) \<and>
   (\<forall>e. error_check c = Inl e \<longleftrightarrow> c < 0 \<and> error_code e = c \<and> error_canon e)"
  by (auto simp: error_check_def code_from_code from_code_canon from_code_code)

end
