(* ===== verification/Wire.thy ===== *)
theory Wire
  imports Errors
begin

text \<open>
  The wire tokens of \<^verbatim>\<open>nwep/src/wire.rs\<close>: the request verbs \<^verbatim>\<open>Method\<close>, the response tokens
  \<^verbatim>\<open>Status\<close> with their indices, and the decoder \<^verbatim>\<open>Status::from_token\<close>. The strings themselves
  come from the C library (\<^verbatim>\<open>nwep_method_str\<close>, \<^verbatim>\<open>nwep_status_str\<close>), so they are parameters;
  \<open>status_doc_token\<close> is the token the source documents at each variant, and the hypothesis that
  the library returns it is always named.
\<close>

section \<open>Methods\<close>

datatype request_method = Read | Write | Update | Delete | Heartbeat | Head

text \<open>\<^verbatim>\<open>Method::code\<close>: the discriminants of the enum.\<close>

fun method_code :: "request_method \<Rightarrow> int" where
  "method_code Read = 0"
| "method_code Write = 1"
| "method_code Update = 2"
| "method_code Delete = 3"
| "method_code Heartbeat = 6"
| "method_code Head = 7"

section \<open>Statuses\<close>

datatype status =
    StOk | StCreated | StAccepted | StNoContent | StPartialContent | StMoved 
  | StNotModified | StBadRequest | StUnauthorized | StForbidden | StNotFound 
  | StNotAllowed | StConflict | StGone | StTooLarge | StPreconditionFailed 
  | StRangeNotSatisfiable | StRateLimited | StError | StUnavailable | StTimeout 
  | StNotImplemented

text \<open>\<^verbatim>\<open>Status::code\<close>.\<close>

fun status_code :: "status \<Rightarrow> int" where
  "status_code StOk = 0"
| "status_code StCreated = 1"
| "status_code StAccepted = 2"
| "status_code StNoContent = 3"
| "status_code StPartialContent = 4"
| "status_code StMoved = 5"
| "status_code StNotModified = 6"
| "status_code StBadRequest = 7"
| "status_code StUnauthorized = 8"
| "status_code StForbidden = 9"
| "status_code StNotFound = 10"
| "status_code StNotAllowed = 11"
| "status_code StConflict = 12"
| "status_code StGone = 13"
| "status_code StTooLarge = 14"
| "status_code StPreconditionFailed = 15"
| "status_code StRangeNotSatisfiable = 16"
| "status_code StRateLimited = 17"
| "status_code StError = 18"
| "status_code StUnavailable = 19"
| "status_code StTimeout = 20"
| "status_code StNotImplemented = 21"

text \<open>The token documented at each variant of the enum.\<close>

fun status_doc_token :: "status \<Rightarrow> string" where
  "status_doc_token StOk = ''ok''"
| "status_doc_token StCreated = ''created''"
| "status_doc_token StAccepted = ''accepted''"
| "status_doc_token StNoContent = ''no-content''"
| "status_doc_token StPartialContent = ''partial-content''"
| "status_doc_token StMoved = ''moved''"
| "status_doc_token StNotModified = ''not-modified''"
| "status_doc_token StBadRequest = ''bad-request''"
| "status_doc_token StUnauthorized = ''unauthorized''"
| "status_doc_token StForbidden = ''forbidden''"
| "status_doc_token StNotFound = ''not-found''"
| "status_doc_token StNotAllowed = ''not-allowed''"
| "status_doc_token StConflict = ''conflict''"
| "status_doc_token StGone = ''gone''"
| "status_doc_token StTooLarge = ''too-large''"
| "status_doc_token StPreconditionFailed = ''precondition-failed''"
| "status_doc_token StRangeNotSatisfiable = ''range-not-satisfiable''"
| "status_doc_token StRateLimited = ''rate-limited''"
| "status_doc_token StError = ''error''"
| "status_doc_token StUnavailable = ''unavailable''"
| "status_doc_token StTimeout = ''timeout''"
| "status_doc_token StNotImplemented = ''not-implemented''"

text \<open>\<^verbatim>\<open>Status::from_token\<close>: an unknown token degrades to \<^verbatim>\<open>Status::Error\<close>.\<close>

definition status_from_token :: "string \<Rightarrow> status" where
  "status_from_token token =
     (if token = ''ok'' then StOk
      else if token = ''created'' then StCreated
      else if token = ''accepted'' then StAccepted
      else if token = ''no-content'' then StNoContent
      else if token = ''partial-content'' then StPartialContent
      else if token = ''moved'' then StMoved
      else if token = ''not-modified'' then StNotModified
      else if token = ''bad-request'' then StBadRequest
      else if token = ''unauthorized'' then StUnauthorized
      else if token = ''forbidden'' then StForbidden
      else if token = ''not-found'' then StNotFound
      else if token = ''not-allowed'' then StNotAllowed
      else if token = ''conflict'' then StConflict
      else if token = ''gone'' then StGone
      else if token = ''too-large'' then StTooLarge
      else if token = ''precondition-failed'' then StPreconditionFailed
      else if token = ''range-not-satisfiable'' then StRangeNotSatisfiable
      else if token = ''rate-limited'' then StRateLimited
      else if token = ''unavailable'' then StUnavailable
      else if token = ''timeout'' then StTimeout
      else if token = ''not-implemented'' then StNotImplemented
      else StError)"

section \<open>Tokens of the library\<close>

text \<open>
  \<^verbatim>\<open>static_token\<close>: the pointer must not be null (the code asserts it); \<open>None\<close> is the violated
  assertion. A token that is not UTF-8 reads as \<open>''error''\<close>.
\<close>

definition static_token :: "string option \<Rightarrow> string option" where
  "static_token p = (case p of None \<Rightarrow> None | Some t \<Rightarrow> Some (opt_unwrap_or (to_str t) ''error''))"

text \<open>\<^verbatim>\<open>version\<close> of \<^verbatim>\<open>lib.rs\<close>: the library's static string.\<close>

definition crate_version :: "string \<Rightarrow> string" where
  "crate_version s = opt_unwrap_or (to_str s) ''unknown''"

definition method_as_str :: "(int \<Rightarrow> string option) \<Rightarrow> request_method \<Rightarrow> string option" where
  "method_as_str method_str m = static_token (method_str (method_code m))"

definition method_display :: "(int \<Rightarrow> string option) \<Rightarrow> request_method \<Rightarrow> string option" where
  "method_display method_str m = method_as_str method_str m"

definition status_as_str :: "(int \<Rightarrow> string option) \<Rightarrow> status \<Rightarrow> string option" where
  "status_as_str status_str s = static_token (status_str (status_code s))"

definition status_display :: "(int \<Rightarrow> string option) \<Rightarrow> status \<Rightarrow> string option" where
  "status_display status_str s = status_as_str status_str s"

section \<open>Lemmas\<close>

lemma method_code_inject: "method_code m = method_code n \<Longrightarrow> m = n"
  by (cases m; cases n) simp_all

lemma status_code_inject: "status_code s = status_code t \<Longrightarrow> s = t"
proof -
  have "s = t" if "status_code s = status_code t"
    using that by (cases s) (cases t; simp)+
  then show "status_code s = status_code t \<Longrightarrow> s = t" .
qed

lemma status_code_range: "0 \<le> status_code s \<and> status_code s \<le> 21"
  by (cases s) simp_all

lemma from_doc_token: "status_from_token (status_doc_token s) = s"
  by (cases s) (simp_all add: status_from_token_def)

lemma doc_token_inject: "status_doc_token s = status_doc_token t \<Longrightarrow> s = t"
  by (metis from_doc_token)

lemma from_token_cases:
  "status_from_token token = StError \<or> token = status_doc_token (status_from_token token)"
  by (simp add: status_from_token_def)

lemma doc_token_utf8: "to_str (status_doc_token s) = Some (status_doc_token s)"
  by (cases s) (simp_all add: to_str_def utf8_str_def)

interpretation status_tokens: code_table status_doc_token
  "\<lambda>t. let s = status_from_token t in if s = StError \<and> t \<noteq> ''error'' then None else Some s"
  "\<lambda>_. True"
proof unfold_locales
  fix x :: status
  show "(let s = status_from_token (status_doc_token x) in
      if s = StError \<and> status_doc_token x \<noteq> ''error'' then None else Some s) = Some x"
    by (simp add: from_doc_token)
next
  fix c and x :: status
  assume "(let s = status_from_token c in
      if s = StError \<and> c \<noteq> ''error'' then None else Some s) = Some x"
  then have "x = status_from_token c" and "x = StError \<longrightarrow> c = ''error''"
    by (auto simp: Let_def split: if_splits)
  then show "True \<and> status_doc_token x = c"
    using from_token_cases [of c] by auto
qed

section \<open>Properties\<close>

text \<open>
  When the library's table holds the documented tokens, every status survives the wire: reading
  the token it prints gives the status back. Together with the catch-all this makes the decoder
  exact: a token reads as a status other than \<^verbatim>\<open>Error\<close> only if it is that status's own token.
\<close>

lemma status_token_roundtrip:
  assumes "\<And>s. status_str (status_code s) = Some (status_doc_token s)"
  shows "map_option status_from_token (status_as_str status_str s) = Some s \<and>
    (s \<noteq> StError \<longrightarrow>
       (\<forall>token. status_from_token token = s \<longleftrightarrow> status_as_str status_str s = Some token))"
proof -
  have str: "status_as_str status_str s = Some (status_doc_token s)"
    by (simp add: status_as_str_def static_token_def assms doc_token_utf8)
  have "status_from_token token = s \<longleftrightarrow> status_as_str status_str s = Some token"
    if "s \<noteq> StError" for token
    using from_token_cases [of token] that from_doc_token str by auto
  with str show ?thesis by (simp add: from_doc_token)
qed

definition sample_status_str :: "int \<Rightarrow> string option" where
  "sample_status_str c =
     (if 0 \<le> c \<and> c \<le> 21 then Some (status_doc_token (case filter (\<lambda>s. status_code s = c)
        [StOk, StCreated, StAccepted, StNoContent, StPartialContent, StMoved,
         StNotModified, StBadRequest, StUnauthorized, StForbidden, StNotFound,
         StNotAllowed, StConflict, StGone, StTooLarge, StPreconditionFailed,
         StRangeNotSatisfiable, StRateLimited, StError, StUnavailable, StTimeout,
         StNotImplemented] of s # _ \<Rightarrow> s | [] \<Rightarrow> StError))
      else None)"

end
