(* ===== verification/Boundary.thy ===== *)
theory Boundary
  imports Errors
begin

text \<open>
  The boundary between the crate and libnwep. The C library is not part of the repository, so its
  state is the type parameter \<open>'c\<close> and each C function is a parameter of the model, a
  function from its arguments and the library's state to its results and the next state. A
  computation of the crate is a state transformer on a \<open>world\<close>: the library's state, the
  private-key bytes the crate has in memory (\<open>cells\<close>), the status words of handler frames
  (\<open>slots\<close>), the reference counts of shared caches (\<open>strong\<close>), and a ghost history of what the
  crate does with handles and boxed closures.

  The history is judged by a monitor. It stops (\<open>None\<close>) at a use of a handle that is not live, a
  second release, a release of a box that is gone, a registration of a dead box, an entry into a
  freed closure, the release of a closure that is running, or a call that may run a registered
  closure which has been freed.

  The locale \<open>owned_handle\<close> states what each wrapper type of the crate promises of the C handle it
  owns; the components interpret it on their constructors, operations and \<^verbatim>\<open>Drop\<close>.
\<close>

section \<open>Handles and boxes\<close>

datatype kind =
    KServer | KClient | KMessage | KDht | KCache | KLog | KLogServer | KTrustStore
  | KCheckpoint | KAnchor | KFrame

datatype event =
    Acquire kind ptr
  | Use kind ptr
  | Drive kind ptr
  | Release kind ptr
  | Register kind ptr nat
  | Unregister kind ptr
  | Borrow kind ptr "(kind \<times> ptr) option"
  | BoxNew nat
  | BoxDrop nat
  | Enter nat
  | Leave nat

record 'c world =
  lib :: 'c
  history :: "event list"
  cells :: "bytes list"
  slots :: "int list"
  next_box :: nat
  strong :: "ptr \<Rightarrow> nat"

type_synonym ('c, 'a) io = "('c world, 'a) state"
type_synonym ('c, 'a) io_result = "('c world, error + 'a) state"

section \<open>Primitives\<close>

definition emit :: "event \<Rightarrow> ('c, unit) io" where
  "emit e = State (\<lambda>w. ((), w\<lparr>history := history w @ [e]\<rparr>))"

text \<open>A call into the library.\<close>

definition call :: "('c \<Rightarrow> 'a \<times> 'c) \<Rightarrow> ('c, 'a) io" where
  "call f = State (\<lambda>w. case f (lib w) of (r, c) \<Rightarrow> (r, w\<lparr>lib := c\<rparr>))"

text \<open>A call that reads or changes the handle \<open>p\<close>, and the call that frees it.\<close>

definition call_on :: "kind \<Rightarrow> ptr \<Rightarrow> ('c \<Rightarrow> 'a \<times> 'c) \<Rightarrow> ('c, 'a) io" where
  "call_on k p f = do { emit (Use k p); call f }"

definition release :: "kind \<Rightarrow> ptr \<Rightarrow> ('c \<Rightarrow> 'c) \<Rightarrow> ('c, unit) io" where
  "release k p f = do { emit (Release k p); call (\<lambda>c. ((), f c)) }"

text \<open>
  A call during which the library may run the callbacks registered on the handle. What the library
  does is a finite conversation: it finishes with a result, or it asks for a callback with the
  arguments \<open>q\<close> and goes on with the callback's answer.
\<close>

datatype ('c, 'q, 'a, 'r) session =
    Finish 'r 'c
  | Callback 'q 'c "'a \<Rightarrow> 'c \<Rightarrow> ('c, 'q, 'a, 'r) session"

definition get_lib :: "('c, 'c) io" where
  "get_lib = State (\<lambda>w. (lib w, w))"

definition put_lib :: "'c \<Rightarrow> ('c, unit) io" where
  "put_lib c = State (\<lambda>w. ((), w\<lparr>lib := c\<rparr>))"

primrec run_session :: "('q \<Rightarrow> ('c, 'a) io) \<Rightarrow> ('c, 'q, 'a, 'r) session \<Rightarrow> ('c, 'r) io" where
  "run_session cb (Finish r c) = do { put_lib c; State_Monad.return r }"
| "run_session cb (Callback q c k) = do {
     put_lib c;
     a \<leftarrow> cb q;
     c' \<leftarrow> get_lib;
     run_session cb (k a c')
   }"

definition drive ::
  "kind \<Rightarrow> ptr \<Rightarrow> ('q \<Rightarrow> ('c, 'a) io) \<Rightarrow> ('c \<Rightarrow> ('c, 'q, 'a, 'r) session) \<Rightarrow> ('c, 'r) io" where
  "drive k p cb f = do { emit (Drive k p); c \<leftarrow> get_lib; run_session cb (f c) }"

text \<open>A call through a const pointer: it reads the library's state and leaves it.\<close>

definition peek :: "('c \<Rightarrow> 'a) \<Rightarrow> ('c, 'a) io" where
  "peek f = call (\<lambda>c. (f c, c))"

definition peek_on :: "kind \<Rightarrow> ptr \<Rightarrow> ('c \<Rightarrow> 'a) \<Rightarrow> ('c, 'a) io" where
  "peek_on k p f = call_on k p (\<lambda>c. (f c, c))"

text \<open>
  A constructor of the library: it returns a status and an out pointer, which is an owned handle
  when the status is a success.
\<close>

definition acquire :: "kind \<Rightarrow> ('c \<Rightarrow> (int \<times> ptr) \<times> 'c) \<Rightarrow> ('c, int \<times> ptr) io" where
  "acquire k f = do {
     r \<leftarrow> call f;
     (if 0 \<le> fst r then do { emit (Acquire k (snd r)); State_Monad.return r }
      else State_Monad.return r)
   }"

text \<open>
  \<^verbatim>\<open>Error::check(unsafe { ... })\<close>: the status of a call as a result, and the same with what the
  call wrote to its out parameters.
\<close>

definition checked :: "('c, int) io \<Rightarrow> ('c, unit) io_result" where
  "checked act = do { rc \<leftarrow> act; lift_res (error_check rc) }"

definition checked_out :: "('c, int \<times> 'a) io \<Rightarrow> ('c, 'a) io_result" where
  "checked_out act = do { (rc, out) \<leftarrow> act; lift_res (map_ok (\<lambda>_. out) (error_check rc)) }"

text \<open>\<^verbatim>\<open>Box::into_raw(Box::new(f))\<close> and \<^verbatim>\<open>drop(Box::from_raw(p))\<close>.\<close>

definition box_new :: "('c, nat) io" where
  "box_new = State (\<lambda>w. (next_box w,
     w\<lparr>next_box := Suc (next_box w), history := history w @ [BoxNew (next_box w)]\<rparr>))"

definition box_drop :: "nat \<Rightarrow> ('c, unit) io" where
  "box_drop b = emit (BoxDrop b)"

text \<open>Buffers that hold secret bytes.\<close>

definition cell_new :: "bytes \<Rightarrow> ('c, nat) io" where
  "cell_new bs = State (\<lambda>w. (length (cells w), w\<lparr>cells := cells w @ [bs]\<rparr>))"

definition cell_at :: "'c world \<Rightarrow> nat \<Rightarrow> bytes" where
  "cell_at w i = (if i < length (cells w) then cells w ! i else [])"

definition cell_read :: "nat \<Rightarrow> ('c, bytes) io" where
  "cell_read i = State (\<lambda>w. (cell_at w i, w))"

definition cell_write :: "nat \<Rightarrow> bytes \<Rightarrow> ('c, unit) io" where
  "cell_write i bs = State (\<lambda>w. ((), w\<lparr>cells := (cells w)[i := bs]\<rparr>))"

text \<open>
  The status word of a handler frame. A responder holds a raw pointer to it, so each write goes
  through the frame, which is live between \<open>frame_open\<close> and \<open>frame_close\<close>.
\<close>

definition frame_open :: "int \<Rightarrow> ('c, nat) io" where
  "frame_open v = State (\<lambda>w. (length (slots w),
     w\<lparr>slots := slots w @ [v], history := history w @ [Acquire KFrame (length (slots w))]\<rparr>))"

definition frame_write :: "nat \<Rightarrow> int \<Rightarrow> ('c, unit) io" where
  "frame_write i v = State (\<lambda>w. ((),
     w\<lparr>slots := (slots w)[i := v], history := history w @ [Use KFrame i]\<rparr>))"

definition frame_read :: "nat \<Rightarrow> ('c, int) io" where
  "frame_read i = State (\<lambda>w. (if i < length (slots w) then slots w ! i else 0, w))"

definition frame_close :: "nat \<Rightarrow> ('c, unit) io" where
  "frame_close i = emit (Release KFrame i)"

lemma run_emit [simp]: "run_state (emit e) w = ((), w\<lparr>history := history w @ [e]\<rparr>)"
  by (simp add: emit_def)

lemma run_call [simp]:
  "run_state (call f) w = (fst (f (lib w)), w\<lparr>lib := snd (f (lib w))\<rparr>)"
  by (simp add: call_def split: prod.split)

lemma run_call_on [simp]:
  "run_state (call_on k p f) w =
     (fst (f (lib w)), w\<lparr>lib := snd (f (lib w)), history := history w @ [Use k p]\<rparr>)"
  by (simp add: call_on_def)

lemma run_peek [simp]: "run_state (peek f) w = (f (lib w), w)"
  by (simp add: peek_def)

lemma run_peek_on [simp]:
  "run_state (peek_on k p f) w = (f (lib w), w\<lparr>history := history w @ [Use k p]\<rparr>)"
  by (simp add: peek_on_def)

lemma run_checked [simp]:
  "run_state (checked act) w = (case run_state act w of (rc, w') \<Rightarrow> (error_check rc, w'))"
  by (simp add: checked_def)

lemma run_checked_out [simp]:
  "run_state (checked_out act) w =
     (case run_state act w of ((rc, out), w') \<Rightarrow> (map_ok (\<lambda>_. out) (error_check rc), w'))"
  by (simp add: checked_out_def split: prod.split)

lemma run_get_lib [simp]: "run_state get_lib w = (lib w, w)"
  by (simp add: get_lib_def)

lemma run_put_lib [simp]: "run_state (put_lib c) w = ((), w\<lparr>lib := c\<rparr>)"
  by (simp add: put_lib_def)

lemma run_drive [simp]:
  "run_state (drive k p cb f) w =
     run_state (run_session cb (f (lib w))) (w\<lparr>history := history w @ [Drive k p]\<rparr>)"
  by (simp add: drive_def)

text \<open>Every callback the library may ask for satisfies \<open>Q\<close>.\<close>

primrec session_all :: "('q \<Rightarrow> bool) \<Rightarrow> ('c, 'q, 'a, 'r) session \<Rightarrow> bool" where
  "session_all Q (Finish r c) = True"
| "session_all Q (Callback q c k) = (Q q \<and> (\<forall>a c'. session_all Q (k a c')))"

lemma session_all_True [simp]: "session_all (\<lambda>_. True) s"
  by (induction s) auto

lemma session_inv:
  assumes "\<And>q w. Q q \<Longrightarrow> P w \<Longrightarrow> P (snd (run_state (cb q) w))" and "\<And>w c. P w \<Longrightarrow> P (w\<lparr>lib := c\<rparr>)"
    and "P w" and "session_all Q s"
  shows "P (snd (run_state (run_session cb s) w))"
  using assms(3,4)
proof (induction s arbitrary: w)
  case (Finish r c)
  then show ?case using assms(2) by simp
next
  case (Callback q c k)
  define w1 where "w1 = snd (run_state (cb q) (w\<lparr>lib := c\<rparr>))"
  have "P w1" unfolding w1_def using Callback.prems assms(1,2) by simp
  moreover have "session_all Q (k a c')" for a c'
    using Callback.prems by simp
  ultimately have "P (snd (run_state (run_session cb (k a (lib w1))) w1))" for a
    using Callback.IH [OF rangeI rangeI] by blast
  then show ?case by (simp add: w1_def case_prod_beta)
qed

lemma run_release [simp]:
  "run_state (release k p f) w =
     ((), w\<lparr>lib := f (lib w), history := history w @ [Release k p]\<rparr>)"
  by (simp add: release_def)

lemma run_acquire [simp]:
  "run_state (acquire k f) w =
     (fst (f (lib w)), w\<lparr>lib := snd (f (lib w)), history := history w @
        (if 0 \<le> fst (fst (f (lib w))) then [Acquire k (snd (fst (f (lib w))))] else [])\<rparr>)"
  by (simp add: acquire_def)

lemma run_box_new [simp]:
  "run_state box_new w = (next_box w,
     w\<lparr>next_box := Suc (next_box w), history := history w @ [BoxNew (next_box w)]\<rparr>)"
  by (simp add: box_new_def)

lemma run_box_drop [simp]:
  "run_state (box_drop b) w = ((), w\<lparr>history := history w @ [BoxDrop b]\<rparr>)"
  by (simp add: box_drop_def)

lemma run_cell_new [simp]:
  "run_state (cell_new bs) w = (length (cells w), w\<lparr>cells := cells w @ [bs]\<rparr>)"
  by (simp add: cell_new_def)

lemma run_cell_read [simp]: "run_state (cell_read i) w = (cell_at w i, w)"
  by (simp add: cell_read_def)

lemma run_cell_write [simp]:
  "run_state (cell_write i bs) w = ((), w\<lparr>cells := (cells w)[i := bs]\<rparr>)"
  by (simp add: cell_write_def)

lemma run_frame_open [simp]:
  "run_state (frame_open v) w = (length (slots w),
     w\<lparr>slots := slots w @ [v], history := history w @ [Acquire KFrame (length (slots w))]\<rparr>)"
  by (simp add: frame_open_def)

lemma run_frame_write [simp]:
  "run_state (frame_write i v) w =
     ((), w\<lparr>slots := (slots w)[i := v], history := history w @ [Use KFrame i]\<rparr>)"
  by (simp add: frame_write_def)

lemma run_frame_read [simp]:
  "run_state (frame_read i) w = (if i < length (slots w) then slots w ! i else 0, w)"
  by (simp add: frame_read_def)

lemma run_frame_close [simp]:
  "run_state (frame_close i) w = ((), w\<lparr>history := history w @ [Release KFrame i]\<rparr>)"
  by (simp add: frame_close_def emit_def)

lemma cell_at_simps [simp]:
  "cell_at (w\<lparr>strong := rc\<rparr>) i = cell_at w i"
  "cell_at (w\<lparr>slots := sl\<rparr>) i = cell_at w i"
  "cell_at (w\<lparr>lib := c\<rparr>) i = cell_at w i"
  "cell_at (w\<lparr>history := h\<rparr>) i = cell_at w i"
  "cell_at (w\<lparr>next_box := n\<rparr>) i = cell_at w i"
  by (simp_all add: cell_at_def)

section \<open>Two-call sizing\<close>

text \<open>
  The library's variable-length outputs are read in two calls: the first with a null buffer and
  the length 0 learns the length, the second fills a zeroed buffer of that length and may shorten
  it. A producer takes the buffer (\<open>None\<close> for null) and returns the status, the bytes it wrote
  and the length it reports.
\<close>

type_synonym 'c producer = "bytes option \<Rightarrow> 'c \<Rightarrow> (int \<times> bytes \<times> nat) \<times> 'c"

definition two_call :: "'c producer \<Rightarrow> ('c, bytes) io_result" where
  "two_call f = do {
     (rc, _, len) \<leftarrow> call (f None);
     try_ok (lift_res (error_check rc)) (\<lambda>_. do {
       (rc', written, len') \<leftarrow> call (f (Some (zeros len)));
       try_ok (lift_res (error_check rc')) (\<lambda>_.
         ret_ok (take len' (overwrite written (zeros len))))
     })
   }"

text \<open>
  The documented sizing contract in a state \<open>c\<close>: the probe reports the length of the output
  and the second call writes exactly the output.
\<close>

definition sized :: "'c producer \<Rightarrow> 'c \<Rightarrow> bytes \<Rightarrow> bool" where
  "sized f c out \<longleftrightarrow>
     (case f None c of ((rc, _, n), c') \<Rightarrow> 0 \<le> rc \<and> n = length out \<and>
        (case f (Some (zeros n)) c' of ((rc', written, n'), _) \<Rightarrow>
           0 \<le> rc' \<and> written = out \<and> n' = length out))"

lemma two_call_sized:
  assumes "sized f (lib w) out"
  shows "fst (run_state (two_call f) w) = Inr out"
  using assms unfolding sized_def two_call_def
  by (auto simp: overwrite_full split: prod.splits)

lemma two_call_probe_error:
  assumes "fst (fst (f None (lib w))) < 0"
  shows "fst (run_state (two_call f) w) = Inl (error_from_code (fst (fst (f None (lib w)))))"
  using assms unfolding two_call_def by (auto split: prod.splits)

lemma two_call_frame [simp]:
  "history (snd (run_state (two_call f) w)) = history w"
  "cells (snd (run_state (two_call f) w)) = cells w"
  "slots (snd (run_state (two_call f) w)) = slots w"
  "next_box (snd (run_state (two_call f) w)) = next_box w"
  unfolding two_call_def by (auto split: prod.splits sum.splits)

lemma two_call_length:
  assumes "run_state (two_call f) w = (Inr out, w')"
  shows "length out \<le> snd (snd (fst (f None (lib w))))"
  using assms unfolding two_call_def
  by (auto split: prod.splits sum.splits)

section \<open>The monitor\<close>

record monitor =
  live :: "(kind \<times> ptr) set"
  boxes :: "nat set"
  regs :: "kind \<times> ptr \<Rightarrow> nat option"
  running :: "nat list"
  borrows :: "kind \<times> ptr \<Rightarrow> (kind \<times> ptr) option"

text \<open>The closure registered on a handle, if any, is still there.\<close>

definition reg_alive :: "monitor \<Rightarrow> kind \<times> ptr \<Rightarrow> bool" where
  "reg_alive m h = (case regs m h of None \<Rightarrow> True | Some b \<Rightarrow> b \<in> boxes m)"

text \<open>
  A handle can be used when it is live and so is the handle the library borrows through it, if any
  (a client's cache, a dht's server).
\<close>

definition usable :: "monitor \<Rightarrow> kind \<times> ptr \<Rightarrow> bool" where
  "usable m h \<longleftrightarrow> h \<in> live m \<and> (case borrows m h of None \<Rightarrow> True | Some g \<Rightarrow> g \<in> live m)"

fun mon_step :: "event \<Rightarrow> monitor \<Rightarrow> monitor option" where
  "mon_step (Acquire k p) m = Some (m\<lparr>live := insert (k, p) (live m)\<rparr>)"
| "mon_step (Use k p) m = (if usable m (k, p) then Some m else None)"
| "mon_step (Drive k p) m = (if usable m (k, p) \<and> reg_alive m (k, p) then Some m else None)"
| "mon_step (Release k p) m =
     (if usable m (k, p) \<and> reg_alive m (k, p)
      then Some (m\<lparr>live := live m - {(k, p)}, regs := (regs m)((k, p) := None),
                   borrows := (borrows m)((k, p) := None)\<rparr>) else None)"
| "mon_step (Register k p b) m =
     (if (k, p) \<in> live m \<and> b \<in> boxes m then Some (m\<lparr>regs := (regs m)((k, p) := Some b)\<rparr>) else None)"
| "mon_step (Unregister k p) m =
     (if (k, p) \<in> live m then Some (m\<lparr>regs := (regs m)((k, p) := None)\<rparr>) else None)"
| "mon_step (Borrow k p g) m =
     (if (k, p) \<in> live m \<and> (case g of None \<Rightarrow> True | Some h \<Rightarrow> h \<in> live m)
      then Some (m\<lparr>borrows := (borrows m)((k, p) := g)\<rparr>) else None)"
| "mon_step (BoxNew b) m = Some (m\<lparr>boxes := insert b (boxes m)\<rparr>)"
| "mon_step (BoxDrop b) m =
     (if b \<in> boxes m \<and> b \<notin> set (running m) then Some (m\<lparr>boxes := boxes m - {b}\<rparr>) else None)"
| "mon_step (Enter b) m = (if b \<in> boxes m then Some (m\<lparr>running := b # running m\<rparr>) else None)"
| "mon_step (Leave b) m =
     (case running m of
        [] \<Rightarrow> None
      | b' # bs \<Rightarrow> (if b' = b then Some (m\<lparr>running := bs\<rparr>) else None))"

fun mon_run :: "event list \<Rightarrow> monitor \<Rightarrow> monitor option" where
  "mon_run [] m = Some m"
| "mon_run (e # es) m = (case mon_step e m of None \<Rightarrow> None | Some m' \<Rightarrow> mon_run es m')"

definition mon_init :: monitor where
  "mon_init = \<lparr>live = {}, boxes = {}, regs = (\<lambda>_. None), running = [], borrows = (\<lambda>_. None)\<rparr>"

definition world_init :: "'c \<Rightarrow> 'c world" where
  "world_init c = \<lparr>lib = c, history = [], cells = [], slots = [], next_box = 0,
     strong = (\<lambda>_. 0)\<rparr>"

lemma mon_run_append:
  "mon_run (xs @ ys) m = (case mon_run xs m of None \<Rightarrow> None | Some m' \<Rightarrow> mon_run ys m')"
  by (induction xs arbitrary: m) (simp_all split: option.splits)

lemma mon_run_append_Some [simp]:
  "mon_run xs m = Some m' \<Longrightarrow> mon_run (xs @ ys) m = mon_run ys m'"
  by (simp add: mon_run_append)

lemma reg_alive_None [simp]: "regs m h = None \<Longrightarrow> reg_alive m h"
  by (simp add: reg_alive_def)

lemma reg_alive_simps [simp]:
  "reg_alive (m\<lparr>running := rs\<rparr>) h = reg_alive m h"
  "reg_alive (m\<lparr>live := l\<rparr>) h = reg_alive m h"
  by (simp_all add: reg_alive_def split: option.split)

lemma usableI: "h \<in> live m \<Longrightarrow> borrows m h = None \<Longrightarrow> usable m h"
  by (simp add: usable_def)

lemma usable_simps [simp]:
  "usable (m\<lparr>running := rs\<rparr>) h = usable m h"
  "usable (m\<lparr>boxes := bs\<rparr>) h = usable m h"
  "usable (m\<lparr>regs := gs\<rparr>) h = usable m h"
  by (simp_all add: usable_def split: option.split)

lemma usable_insert: "usable m h \<Longrightarrow> usable (m\<lparr>live := insert g (live m)\<rparr>) h"
  by (auto simp: usable_def split: option.splits)

abbreviation judged :: "'c world \<Rightarrow> monitor option" where
  "judged w \<equiv> mon_run (history w) mon_init"

text \<open>
  The world \<open>w\<close> has a history the monitor accepts, ending in \<open>m\<close>; the frames and boxes it holds
  are ones the world has handed out; a frame carries no registration.
\<close>

definition coherent :: "'c world \<Rightarrow> monitor \<Rightarrow> bool" where
  "coherent w m \<longleftrightarrow> judged w = Some m \<and>
     (\<forall>i. (KFrame, i) \<in> live m \<longrightarrow> i < length (slots w)) \<and>
     (\<forall>b \<in> boxes m. b < next_box w) \<and> (\<forall>i. regs m (KFrame, i) = None) \<and>
     (\<forall>i. borrows m (KFrame, i) = None) \<and> set (running m) \<subseteq> boxes m"

text \<open>
  A computation that leaves the handles, boxes and registrations of \<open>m\<close> and the reference counts
  as it found them, and one that does so whatever they are.
\<close>

definition preserves :: "monitor \<Rightarrow> ('c, 'a) io \<Rightarrow> bool" where
  "preserves m act \<longleftrightarrow> (\<forall>w. coherent w m \<longrightarrow>
     coherent (snd (run_state act w)) m \<and> strong (snd (run_state act w)) = strong w)"

definition neutral :: "('c, 'a) io \<Rightarrow> bool" where
  "neutral act \<longleftrightarrow> (\<forall>m. preserves m act)"

lemma preservesD: "preserves m act \<Longrightarrow> coherent w m \<Longrightarrow> coherent (snd (run_state act w)) m"
  by (simp add: preserves_def)

lemma preserves_strong:
  "preserves m act \<Longrightarrow> coherent w m \<Longrightarrow> strong (snd (run_state act w)) = strong w"
  by (simp add: preserves_def)

lemma preservesI:
  "(\<And>w. coherent w m \<Longrightarrow> coherent (snd (run_state act w)) m \<and>
      strong (snd (run_state act w)) = strong w) \<Longrightarrow> preserves m act"
  by (simp add: preserves_def)

lemma neutralD: "neutral act \<Longrightarrow> preserves m act"
  by (simp add: neutral_def)

lemma coherent_lib [simp]: "coherent (w\<lparr>lib := c\<rparr>) m = coherent w m"
  by (simp add: coherent_def)

lemma coherent_strong [simp]: "coherent (w\<lparr>strong := rc\<rparr>) m = coherent w m"
  by (simp add: coherent_def)

lemma coherent_cells [simp]: "coherent (w\<lparr>cells := cs\<rparr>) m = coherent w m"
  by (simp add: coherent_def)

lemma coherent_same:
  assumes "coherent w m" and "history w' = history w" and "slots w' = slots w" and "next_box w' = next_box w"
  shows "coherent w' m"
  using assms by (simp add: coherent_def)

lemma coherent_steps:
  assumes "coherent w m" and "mon_run es m = Some m"
  shows "coherent (w\<lparr>history := history w @ es\<rparr>) m"
  using assms by (simp add: coherent_def)

lemma coherent_fresh:
  assumes "coherent w m"
  shows "(KFrame, length (slots w)) \<notin> live m" and "next_box w \<notin> boxes m"
    and "regs m (KFrame, i) = None" and "borrows m (KFrame, i) = None"
  using assms by (auto simp: coherent_def)

text \<open>What the library promises of a constructor: the handle it returns is not one in use.\<close>

definition fresh_ptr :: "kind \<Rightarrow> ('c \<Rightarrow> (int \<times> ptr) \<times> 'c) \<Rightarrow> 'c \<Rightarrow> monitor \<Rightarrow> bool" where
  "fresh_ptr k f c m \<longleftrightarrow> (case f c of ((rc, p), _) \<Rightarrow>
     rc < 0 \<or> (k, p) \<notin> live m \<and> regs m (k, p) = None \<and> borrows m (k, p) = None)"

subsection \<open>Rules for what a computation preserves\<close>

lemma preserves_return [keep_rules]: "preserves m (State_Monad.return x)"
  and preserves_lift_res [keep_rules]: "preserves m (lift_res r)"
  and preserves_ret_ok [keep_rules]: "preserves m (ret_ok x)"
  and preserves_ret_err [keep_rules]: "preserves m (ret_err e)"
  and preserves_call [keep_rules]: "preserves m (call f)"
  and preserves_peek [keep_rules]: "preserves m (peek g)"
  and preserves_cell_new [keep_rules]: "preserves m (cell_new bs)"
  and preserves_cell_read [keep_rules]: "preserves m (cell_read i)"
  and preserves_cell_write [keep_rules]: "preserves m (cell_write i bs)"
  and preserves_frame_read [keep_rules]: "preserves m (frame_read i)"
  by (simp_all add: preserves_def)

lemma preserves_use [keep_rules]: "usable m (k, p) \<Longrightarrow> preserves m (emit (Use k p))"
  and preserves_call_on [keep_rules]: "usable m (k, p) \<Longrightarrow> preserves m (call_on k p f)"
  and preserves_peek_on [keep_rules]: "usable m (k, p) \<Longrightarrow> preserves m (peek_on k p g)"
  by (simp_all add: preserves_def coherent_def)

lemma preserves_frame_write [keep_rules]: "(KFrame, i) \<in> live m \<Longrightarrow> preserves m (frame_write i v)"
  by (simp add: preserves_def coherent_def usable_def)

lemma preserves_bind [keep_rules]:
  assumes "preserves m act" and "\<And>x. preserves m (f x)"
  shows "preserves m (act \<bind> f)"
  using assms by (auto simp: preserves_def split: prod.split)

lemma preserves_try_ok [keep_rules]:
  assumes "preserves m act" and "\<And>x. preserves m (f x)"
  shows "preserves m (try_ok act f)"
  using assms by (auto simp: preserves_def split: prod.split sum.split)

lemma preserves_checked [keep_rules]: "preserves m act \<Longrightarrow> preserves m (checked act)"
  by (simp add: preserves_def case_prod_beta)

lemma preserves_checked_out [keep_rules]: "preserves m act \<Longrightarrow> preserves m (checked_out act)"
  by (simp add: preserves_def case_prod_beta)

lemma preserves_if [keep_rules]:
  "(b \<Longrightarrow> preserves m x) \<Longrightarrow> (\<not> b \<Longrightarrow> preserves m y) \<Longrightarrow> preserves m (if b then x else y)"
  by simp

lemma preserves_option [keep_rules]:
  "preserves m x \<Longrightarrow> (\<And>v. preserves m (f v)) \<Longrightarrow> preserves m (case v of None \<Rightarrow> x | Some y \<Rightarrow> f y)"
  by (cases v) simp_all

lemma preserves_sum [keep_rules]:
  "(\<And>v. preserves m (f v)) \<Longrightarrow> (\<And>v. preserves m (g v)) \<Longrightarrow>
   preserves m (case v of Inl x \<Rightarrow> f x | Inr y \<Rightarrow> g y)"
  by (cases v) simp_all

lemma preserves_prod [keep_rules]:
  "(\<And>x y. preserves m (f x y)) \<Longrightarrow> preserves m (case v of (x, y) \<Rightarrow> f x y)"
  by (cases v) simp

lemma preserves_let [keep_rules]: "preserves m (f x) \<Longrightarrow> preserves m (let y = x in f y)"
  by simp

lemma preserves_two_call [keep_rules]: "preserves m (two_call f)"
  unfolding two_call_def by (intro keep_rules)

lemma drive_preserves:
  fixes cb :: "'q \<Rightarrow> ('c, 'a) io"
  assumes "usable m (k, p)" and "reg_alive m (k, p)" and "\<And>q. Q q \<Longrightarrow> preserves m (cb q)"
    and "coherent w m" and "session_all Q (f (lib w))"
  shows "coherent (snd (run_state (drive k p cb f) w)) m \<and>
    strong (snd (run_state (drive k p cb f) w)) = strong w"
proof -
  have step: "coherent (snd (run_state (cb q) v)) m \<and> strong (snd (run_state (cb q) v)) = strong w"
    if "Q q" and "coherent v m \<and> strong v = strong w" for q v
    using preservesD [OF assms(3)] preserves_strong [OF assms(3)] that by metis
  show ?thesis
    unfolding run_drive
    by (rule session_inv [where P = "\<lambda>v. coherent v m \<and> strong v = strong w" and Q = Q])
      (use step assms(1,2,4,5) coherent_steps [OF assms(4), of "[Drive k p]"] in auto)
qed

lemma preserves_drive [keep_rules]:
  assumes "usable m (k, p)" and "reg_alive m (k, p)" and "\<And>q. preserves m (cb q)"
  shows "preserves m (drive k p cb f)"
  by (rule preservesI, rule drive_preserves [where Q = "\<lambda>_. True"]) (use assms in simp_all)

text \<open>A computation inside a handler frame of its own, as a callback runs it.\<close>

definition in_frame :: "(nat \<Rightarrow> ('c, 'a) io) \<Rightarrow> ('c, 'a) io" where
  "in_frame f = do {
     slot \<leftarrow> frame_open 0;
     out \<leftarrow> f slot;
     frame_close slot;
     State_Monad.return out
   }"

lemma preserves_in_frame:
  fixes f :: "nat \<Rightarrow> ('c, 'a) io"
  assumes "\<And>i. preserves (m\<lparr>live := insert (KFrame, i) (live m)\<rparr>) (f i)"
  shows "preserves m (in_frame f)"
proof (rule preservesI)
  fix w :: "'c world"
  assume coh: "coherent w m"
  let ?i = "length (slots w)"
  let ?v = "w\<lparr>slots := slots w @ [0], history := history w @ [Acquire KFrame ?i]\<rparr>"
  let ?m1 = "m\<lparr>live := insert (KFrame, ?i) (live m)\<rparr>"
  have v: "coherent ?v ?m1" using coh by (auto simp: coherent_def less_Suc_eq)
  have k: "coherent (snd (run_state (f ?i) ?v)) ?m1" and s: "strong (snd (run_state (f ?i) ?v)) = strong w"
    using preservesD [OF assms v] preserves_strong [OF assms v] by simp_all
  from k have "coherent ((snd (run_state (f ?i) ?v))
      \<lparr>history := history (snd (run_state (f ?i) ?v)) @ [Release KFrame ?i]\<rparr>) m"
    using coherent_fresh [OF coh] by (auto simp: coherent_def usable_def fun_upd_idem)
  with s show "coherent (snd (run_state (in_frame f) w)) m \<and> strong (snd (run_state (in_frame f) w)) = strong w"
    by (simp add: in_frame_def case_prod_beta)
qed

section \<open>Owned handles\<close>

text \<open>
  What a wrapper type promises of the handle it owns: an operation through a borrow preserves what
  the value owns, the constructor adds exactly that, and its \<^verbatim>\<open>Drop\<close> takes exactly that away.
\<close>

fun run_all :: "('c, unit) io list \<Rightarrow> ('c, unit) io" where
  "run_all [] = State_Monad.return ()"
| "run_all (u # us) = do { u; run_all us }"

definition discard :: "('c, 'a) io \<Rightarrow> ('c, unit) io" where
  "discard act = do { _ \<leftarrow> act; State_Monad.return () }"

lemma preserves_discard [keep_rules]: "preserves m act \<Longrightarrow> preserves m (discard act)"
  unfolding discard_def by (intro keep_rules)

lemma run_discard [simp]: "run_state (discard act) w = ((), snd (run_state act w))"
  by (simp add: discard_def split: prod.split)

text \<open>The life of a value that owns a handle: opened, used through borrows, dropped.\<close>

definition lifecycle ::
  "('c, error + 'h) io \<Rightarrow> ('h \<Rightarrow> ('c, unit) io) \<Rightarrow> ('h \<Rightarrow> ('c, unit) io list) \<Rightarrow> ('c, error + unit) io" where
  "lifecycle open_h dispose us = try_ok open_h (\<lambda>h. do { run_all (us h); dispose h; ret_ok () })"

locale owned_handle =
  fixes open_h :: "('c, error + 'h) io"
    and dispose :: "'h \<Rightarrow> ('c, unit) io"
    and uses :: "'h \<Rightarrow> ('c, unit) io set"
    and owns :: "'h \<Rightarrow> monitor \<Rightarrow> monitor \<Rightarrow> bool"
    and pre :: "'c \<Rightarrow> monitor \<Rightarrow> bool"
  assumes make_err: "coherent w m \<Longrightarrow> pre (lib w) m \<Longrightarrow> run_state open_h w = (Inl e, w') \<Longrightarrow> coherent w' m"
    and make_ok: "coherent w m \<Longrightarrow> pre (lib w) m \<Longrightarrow> run_state open_h w = (Inr h, w') \<Longrightarrow>
      \<exists>m'. owns h m m' \<and> coherent w' m'"
    and use_keeps: "owns h m m' \<Longrightarrow> u \<in> uses h \<Longrightarrow> preserves m' u"
    and dispose_ok: "owns h m m' \<Longrightarrow> coherent w m' \<Longrightarrow> coherent (snd (run_state (dispose h) w)) m"
begin

lemma uses_keep:
  assumes "owns h m m'" and "set us \<subseteq> uses h"
  shows "preserves m' (run_all us)"
  using assms(2)
proof (induction us)
  case Nil
  then show ?case by (simp add: preserves_return)
next
  case (Cons u us)
  then show ?case
    using use_keeps [OF assms(1)] by (auto intro!: preserves_bind)
qed

lemma lifecycle_clean:
  assumes "coherent w m" and "pre (lib w) m" and "\<And>h. set (us h) \<subseteq> uses h"
  shows "coherent (snd (run_state (lifecycle open_h dispose us) w)) m"
proof (cases "run_state open_h w")
  case (Pair r w1)
  show ?thesis
  proof (cases r)
    case (Inl e)
    with Pair show ?thesis using make_err [OF assms(1,2)] by (simp add: lifecycle_def)
  next
    case (Inr h)
    with Pair obtain m' where m': "owns h m m'" "coherent w1 m'"
      using make_ok [OF assms(1,2)] by auto
    have "coherent (snd (run_state (run_all (us h)) w1)) m'"
      using preservesD [OF uses_keep [OF m'(1) assms(3)] m'(2)] .
    from dispose_ok [OF m'(1) this] Pair Inr show ?thesis
      by (simp add: lifecycle_def case_prod_beta)
  qed
qed

end

section \<open>Wrappers of one handle\<close>

text \<open>The plain ownership of one handle, without callback or borrow, which most wrappers have.\<close>

definition owns_handle :: "kind \<Rightarrow> ptr \<Rightarrow> monitor \<Rightarrow> monitor \<Rightarrow> bool" where
  "owns_handle k p m m' \<longleftrightarrow> (k, p) \<notin> live m \<and> regs m (k, p) = None \<and> borrows m (k, p) = None \<and>
     k \<noteq> KFrame \<and> m' = m\<lparr>live := insert (k, p) (live m)\<rparr>"

lemma owns_usable: "owns_handle k p m m' \<Longrightarrow> usable m' (k, p)"
  by (simp add: owns_handle_def usable_def)

lemma owns_reg_alive: "owns_handle k p m m' \<Longrightarrow> reg_alive m' (k, p)"
  by (simp add: owns_handle_def)

lemma owns_release:
  assumes "owns_handle k p m m'" and "coherent w m'"
  shows "coherent (snd (run_state (release k p f) w)) m"
  using assms owns_usable [OF assms(1)]
  by (auto simp: owns_handle_def coherent_def fun_upd_idem)

lemma owns_acquire:
  assumes "coherent w m" and "fresh_ptr k f (lib w) m" and "k \<noteq> KFrame"
    and "run_state (acquire k f) w = ((rc, p), w')"
  shows "if rc < 0 then coherent w' m
    else \<exists>m'. owns_handle k p m m' \<and> coherent w' m'"
proof (cases "rc < 0")
  case True
  then show ?thesis
    using assms(1,4) by (auto simp: coherent_def)
next
  case False
  let ?m' = "m\<lparr>live := insert (k, p) (live m)\<rparr>"
  have "owns_handle k p m ?m'"
    using assms(2,3,4) False by (auto simp: owns_handle_def fresh_ptr_def split: prod.splits)
  moreover have "coherent w' ?m'"
    using assms(1,3,4) False by (auto simp: coherent_def)
  ultimately show ?thesis using False by auto
qed

definition opened :: "kind \<Rightarrow> ('c \<Rightarrow> (int \<times> ptr) \<times> 'c) \<Rightarrow> (ptr \<Rightarrow> 'h) \<Rightarrow> ('c, 'h) io_result" where
  "opened k f wrap = do {
     (rc, p) \<leftarrow> acquire k f;
     lift_res (map_ok (\<lambda>_. wrap p) (error_check rc))
   }"

text \<open>A type that wraps a single handle, frees it on \<^verbatim>\<open>Drop\<close> and only uses it otherwise.\<close>

locale plain_handle =
  fixes k :: kind
    and f :: "'c \<Rightarrow> (int \<times> ptr) \<times> 'c"
    and free_h :: "ptr \<Rightarrow> 'c \<Rightarrow> 'c"
    and wrap :: "ptr \<Rightarrow> 'h"
    and raw :: "'h \<Rightarrow> ptr"
    and uses :: "'h \<Rightarrow> ('c, unit) io set"
  assumes not_frame: "k \<noteq> KFrame"
    and raw_wrap: "raw (wrap p) = p"
    and uses_ok: "usable m (k, raw h) \<Longrightarrow> u \<in> uses h \<Longrightarrow> preserves m u"
begin

lemma opened_outcome:
  assumes "coherent w m" and "fresh_ptr k f (lib w) m" and "run_state (opened k f wrap) w = (r, w')"
  shows "case r of Inl e \<Rightarrow> coherent w' m | Inr h \<Rightarrow> \<exists>m'. owns_handle k (raw h) m m' \<and> coherent w' m'"
proof -
  obtain rc p w1 where run: "run_state (acquire k f) w = ((rc, p), w1)"
    by (metis prod.collapse)
  show ?thesis
    using owns_acquire [OF assms(1,2) not_frame run] run assms(3) raw_wrap
    by (auto simp: opened_def error_check_def simp del: run_acquire split: if_splits)
qed

end

sublocale plain_handle \<subseteq> owned: owned_handle "opened k f wrap" "\<lambda>h. release k (raw h) (free_h (raw h))"
  uses "\<lambda>h. owns_handle k (raw h)" "fresh_ptr k f"
proof (unfold_locales, goal_cases)
  case (1 w m e w')
  then show ?case using opened_outcome by fastforce
next
  case (2 w m h w')
  then show ?case using opened_outcome by fastforce
next
  case (3 h m m' u)
  then show ?case by (auto intro: uses_ok owns_usable)
next
  case (4 h m m' w)
  then show ?case by (rule owns_release)
qed

end
