(* ===== verification/Identity.thy ===== *)
theory Identity
  imports Boundary
begin

text \<open>
  \<^verbatim>\<open>nwep/src/identity.rs\<close>: the node id, the keypair that proves it, and the discipline on private
  key bytes. A private key lives in a cell of the world; a temporary copy is a new cell, and
  \<^verbatim>\<open>zeroize\<close> overwrites a cell through the library. \<open>residue\<close> collects the cells a computation
  added that still hold a nonzero byte, which is what the wiping theorems bound.
\<close>

section \<open>State and library\<close>

definition nodeid_size :: nat where
  "nodeid_size = 32"

definition privkey_size :: nat where
  "privkey_size = 32"

definition sig_size :: nat where
  "sig_size = 64"

datatype node_id = NodeId (node_bytes: bytes)

text \<open>An identity owns its private key: \<open>id_priv\<close> is the cell that holds it.\<close>

record identity =
  id_node :: node_id
  id_pub :: bytes
  id_priv :: nat

text \<open>
  The library's functions on keys and ids. A function that only reads its arguments is a pure
  function of them; each result lists the status and the contents of the out buffers.
\<close>

record 'c identity_api =
  c_identity_generate :: "'c \<Rightarrow> (int \<times> bytes \<times> bytes \<times> bytes) \<times> 'c"
  c_nodeid_verify :: "bytes \<Rightarrow> bytes \<Rightarrow> int"
  c_nodeid_to_base58 :: "bytes \<Rightarrow> int \<times> bytes \<times> nat"
  c_nodeid_from_base58 :: "string \<Rightarrow> int \<times> bytes"
  c_nodeid_from_pubkey :: "bytes \<Rightarrow> int \<times> bytes"
  c_ed25519_sign :: "bytes \<Rightarrow> bytes \<Rightarrow> int \<times> bytes"
  c_keypair_save_pem :: "bytes \<Rightarrow> bytes \<Rightarrow> int \<times> bytes \<times> nat"
  c_keypair_load_pem :: "string \<Rightarrow> int \<times> bytes \<times> bytes"
  c_zeroize :: "bytes \<Rightarrow> bytes"

section \<open>Node ids\<close>

definition node_id_from_pubkey :: "'c identity_api \<Rightarrow> bytes \<Rightarrow> error + node_id" where
  "node_id_from_pubkey A pubkey =
     (case c_nodeid_from_pubkey A pubkey of (rc, out) \<Rightarrow>
        and_then (error_check rc) (\<lambda>_. Inr (NodeId out)))"

definition node_id_from_base58 :: "'c identity_api \<Rightarrow> string \<Rightarrow> error + node_id" where
  "node_id_from_base58 A s =
     (case c_nodeid_from_base58 A s of (rc, out) \<Rightarrow>
        and_then (error_check rc) (\<lambda>_. Inr (NodeId out)))"

text \<open>
  \<^verbatim>\<open>to_base58\<close> encodes into 64 bytes. \<open>None\<close> is a panic: the debug assertion on the status, or a
  reported length beyond the buffer.
\<close>

definition node_id_to_base58 :: "'c identity_api \<Rightarrow> node_id \<Rightarrow> string option" where
  "node_id_to_base58 A n =
     (case c_nodeid_to_base58 A (node_bytes n) of (rc, out, len) \<Rightarrow>
        let buf = overwrite out (zeros 64) in
        if rc \<noteq> 0 \<or> length buf < len then None else Some (from_utf8_lossy (take len buf)))"

definition node_id_verify :: "'c identity_api \<Rightarrow> node_id \<Rightarrow> bytes \<Rightarrow> bool" where
  "node_id_verify A n pubkey \<longleftrightarrow> c_nodeid_verify A (node_bytes n) pubkey = 0"

definition node_id_as_bytes :: "node_id \<Rightarrow> bytes" where
  "node_id_as_bytes n = node_bytes n"

definition node_id_from_bytes :: "bytes \<Rightarrow> node_id" where
  "node_id_from_bytes bs = NodeId bs"

definition node_id_raw :: "node_id \<Rightarrow> bytes" where
  "node_id_raw n = node_bytes n"

definition node_id_display :: "'c identity_api \<Rightarrow> node_id \<Rightarrow> string option" where
  "node_id_display A n = node_id_to_base58 A n"

definition node_id_debug :: "'c identity_api \<Rightarrow> node_id \<Rightarrow> string option" where
  "node_id_debug A n = map_option (\<lambda>s. ''NodeId('' @ s @ '')'') (node_id_to_base58 A n)"

definition node_id_from_str :: "'c identity_api \<Rightarrow> string \<Rightarrow> error + node_id" where
  "node_id_from_str A s = node_id_from_base58 A s"

section \<open>Identities\<close>

definition zeroize :: "'c identity_api \<Rightarrow> nat \<Rightarrow> ('c, unit) io" where
  "zeroize A i = do { bs \<leftarrow> cell_read i; cell_write i (c_zeroize A bs) }"

definition identity_generate :: "'c identity_api \<Rightarrow> ('c, identity) io_result" where
  "identity_generate A = do {
     kp \<leftarrow> cell_new (zeros privkey_size);
     (rc, nid, pub, priv) \<leftarrow> call (c_identity_generate A);
     cell_write kp priv;
     try_ok (lift_res (error_check rc)) (\<lambda>_. do {
       secret \<leftarrow> cell_read kp;
       own \<leftarrow> cell_new secret;
       zeroize A kp;
       ret_ok \<lparr>id_node = NodeId nid, id_pub = pub, id_priv = own\<rparr>
     })
   }"

definition identity_from_pem :: "'c identity_api \<Rightarrow> string \<Rightarrow> ('c, identity) io_result" where
  "identity_from_pem A pem = do {
     kp \<leftarrow> cell_new (zeros privkey_size);
     let (rc, pub, priv) = c_keypair_load_pem A pem;
     cell_write kp priv;
     try_ok (lift_res (error_check rc)) (\<lambda>_. do {
       let (derived, nid) = c_nodeid_from_pubkey A pub;
       case error_check derived of
         Inl e \<Rightarrow> do { zeroize A kp; ret_err e }
       | Inr _ \<Rightarrow> do {
           secret \<leftarrow> cell_read kp;
           own \<leftarrow> cell_new secret;
           zeroize A kp;
           ret_ok \<lparr>id_node = NodeId nid, id_pub = pub, id_priv = own\<rparr>
         }
     })
   }"

definition identity_to_pem :: "'c identity_api \<Rightarrow> identity \<Rightarrow> ('c, string) io_result" where
  "identity_to_pem A ident = do {
     secret \<leftarrow> cell_read (id_priv ident);
     kp \<leftarrow> cell_new secret;
     priv \<leftarrow> cell_read kp;
     let (rc, out, len) = c_keypair_save_pem A (id_pub ident) priv;
     zeroize A kp;
     try_ok (lift_res (error_check rc)) (\<lambda>_.
       lift_res (ok_or (from_utf8 (take len (overwrite out (zeros 4096)))) Internal))
   }"

definition identity_sign :: "'c identity_api \<Rightarrow> identity \<Rightarrow> bytes \<Rightarrow> ('c, bytes) io_result" where
  "identity_sign A ident msg = do {
     priv \<leftarrow> cell_read (id_priv ident);
     let (rc, sig) = c_ed25519_sign A msg priv;
     try_ok (lift_res (error_check rc)) (\<lambda>_. ret_ok (overwrite sig (zeros sig_size)))
   }"

definition identity_node_id :: "identity \<Rightarrow> node_id" where
  "identity_node_id ident = id_node ident"

definition identity_public_key :: "identity \<Rightarrow> bytes" where
  "identity_public_key ident = id_pub ident"

text \<open>\<^verbatim>\<open>Debug\<close> prints the node id only; the private cell is not read.\<close>

definition identity_debug :: "'c identity_api \<Rightarrow> identity \<Rightarrow> string option" where
  "identity_debug A ident =
     map_option (\<lambda>n. ''Identity { node_id: '' @ n @ '', .. }'') (node_id_debug A (id_node ident))"

text \<open>
  \<^verbatim>\<open>with_keypair\<close> lends a temporary keypair to \<open>f\<close>; \<^verbatim>\<open>with_raw_keys\<close> lends the two keys. The
  private copy is wiped after \<open>f\<close>.
\<close>

definition with_keypair ::
  "'c identity_api \<Rightarrow> identity \<Rightarrow> (bytes \<times> bytes \<Rightarrow> ('c, 'r) io) \<Rightarrow> ('c, 'r) io" where
  "with_keypair A ident f = do {
     secret \<leftarrow> cell_read (id_priv ident);
     kp \<leftarrow> cell_new secret;
     priv \<leftarrow> cell_read kp;
     out \<leftarrow> f (id_pub ident, priv);
     zeroize A kp;
     State_Monad.return out
   }"

definition with_raw_keys ::
  "'c identity_api \<Rightarrow> identity \<Rightarrow> (bytes \<Rightarrow> bytes \<Rightarrow> ('c, 'r) io) \<Rightarrow> ('c, 'r) io" where
  "with_raw_keys A ident f = do {
     priv \<leftarrow> cell_read (id_priv ident);
     secret \<leftarrow> cell_new priv;
     lent \<leftarrow> cell_read secret;
     out \<leftarrow> f (id_pub ident) lent;
     zeroize A secret;
     State_Monad.return out
   }"

text \<open>\<^verbatim>\<open>Drop for Identity\<close>.\<close>

definition identity_drop :: "'c identity_api \<Rightarrow> identity \<Rightarrow> ('c, unit) io" where
  "identity_drop A ident = zeroize A (id_priv ident)"

section \<open>Residue of secrets\<close>

text \<open>The contract of \<^verbatim>\<open>nwep_zeroize\<close>.\<close>

definition wipes :: "'c identity_api \<Rightarrow> bool" where
  "wipes A \<longleftrightarrow> (\<forall>bs. c_zeroize A bs = zeros (length bs))"

definition residue :: "'c world \<Rightarrow> 'c world \<Rightarrow> nat set" where
  "residue w w' = {i. length (cells w) \<le> i \<and> i < length (cells w') \<and> (\<exists>b \<in> set (cell_at w' i). b \<noteq> 0)}"

text \<open>A computation keeps the cells it did not create.\<close>

definition keeps :: "'c world \<Rightarrow> 'c world \<Rightarrow> bool" where
  "keeps w w' \<longleftrightarrow> length (cells w) \<le> length (cells w') \<and>
     (\<forall>i < length (cells w). cell_at w' i = cell_at w i)"

lemma wipesD [simp]: "wipes A \<Longrightarrow> c_zeroize A bs = zeros (length bs)"
  by (simp add: wipes_def)

lemma run_zeroize [simp]:
  "run_state (zeroize A i) w = ((), w\<lparr>cells := (cells w)[i := c_zeroize A (cell_at w i)]\<rparr>)"
  by (simp add: zeroize_def)

lemma cell_at_update [simp]:
  "cell_at (w\<lparr>cells := cs\<rparr>) i = (if i < length cs then cs ! i else [])"
  by (simp add: cell_at_def)

lemma keeps_refl [simp]: "keeps w w"
  by (simp add: keeps_def)

lemma keeps_trans: "keeps u v \<Longrightarrow> keeps v w \<Longrightarrow> keeps u w"
  by (auto simp: keeps_def)

text \<open>
  \<open>lends_safely f\<close>: the borrowing closure creates no residue of its own and touches no cell it
  did not create.
\<close>

definition lends_safely :: "('c, 'r) io \<Rightarrow> bool" where
  "lends_safely m \<longleftrightarrow> (\<forall>w. keeps w (snd (run_state m w)) \<and> residue w (snd (run_state m w)) = {})"

lemma lends_safely_cells:
  "(\<And>w. cells (snd (run_state m w)) = cells w) \<Longrightarrow> lends_safely m"
  by (simp add: lends_safely_def keeps_def residue_def cell_at_def)

lemma wiped_borrow:
  fixes w :: "'c world" and s :: bytes and m :: "('c, 'r) io"
  assumes "wipes A" and "lends_safely m"
  defines "w1 \<equiv> w\<lparr>cells := cells w @ [s]\<rparr>"
  defines "w2 \<equiv> snd (run_state m w1)"
  defines "w3 \<equiv> w2\<lparr>cells := (cells w2)[length (cells w) := c_zeroize A (cell_at w2 (length (cells w)))]\<rparr>"
  shows "keeps w w3 \<and> residue w w3 = {}"
proof -
  have k: "keeps w1 w2" and r: "residue w1 w2 = {}"
    using assms(2) by (simp_all add: lends_safely_def w2_def)
  have len: "Suc (length (cells w)) \<le> length (cells w2)"
    using k by (simp add: keeps_def w1_def)
  have old: "cell_at w2 i = cell_at w i" if "i < length (cells w)" for i
    using k that by (auto simp: keeps_def w1_def cell_at_def nth_append)
  have "keeps w w3"
    using len old by (auto simp: keeps_def w3_def cell_at_def)
  moreover have "b = 0" if "length (cells w) \<le> i" "i < length (cells w3)" "b \<in> set (cell_at w3 i)" for i b
  proof (cases "i = length (cells w)")
    case True
    with that assms(1) len show ?thesis
      by (auto simp: w3_def wipes_def)
  next
    case False
    with that have "cell_at w3 i = cell_at w2 i" and "length (cells w1) \<le> i" and "i < length (cells w2)"
      by (auto simp: w3_def w1_def cell_at_def)
    with r that show ?thesis by (auto simp: residue_def)
  qed
  ultimately show ?thesis by (auto simp: residue_def)
qed

lemma run_with_keypair:
  "run_state (with_keypair A ident f) w =
     (let secret = cell_at w (id_priv ident);
          w1 = w\<lparr>cells := cells w @ [secret]\<rparr>;
          w2 = snd (run_state (f (id_pub ident, secret)) w1)
      in (fst (run_state (f (id_pub ident, secret)) w1),
          w2\<lparr>cells := (cells w2)[length (cells w) := c_zeroize A (cell_at w2 (length (cells w)))]\<rparr>))"
  by (simp add: with_keypair_def Let_def split: prod.splits)

lemma run_with_raw_keys:
  "run_state (with_raw_keys A ident f) w =
     (let secret = cell_at w (id_priv ident);
          w1 = w\<lparr>cells := cells w @ [secret]\<rparr>;
          w2 = snd (run_state (f (id_pub ident) secret) w1)
      in (fst (run_state (f (id_pub ident) secret) w1),
          w2\<lparr>cells := (cells w2)[length (cells w) := c_zeroize A (cell_at w2 (length (cells w)))]\<rparr>))"
  by (simp add: with_raw_keys_def Let_def split: prod.splits)

lemma with_keypair_residue:
  assumes "wipes A" and "lends_safely (f (id_pub ident, cell_at w (id_priv ident)))"
  shows "keeps w (snd (run_state (with_keypair A ident f) w)) \<and>
    residue w (snd (run_state (with_keypair A ident f) w)) = {}"
  using wiped_borrow [OF assms, of w "cell_at w (id_priv ident)"]
  by (simp add: run_with_keypair Let_def)

lemma with_raw_keys_residue:
  assumes "wipes A" and "lends_safely (f (id_pub ident) (cell_at w (id_priv ident)))"
  shows "keeps w (snd (run_state (with_raw_keys A ident f) w)) \<and>
    residue w (snd (run_state (with_raw_keys A ident f) w)) = {}"
  using wiped_borrow [OF assms, of w "cell_at w (id_priv ident)"]
  by (simp add: run_with_raw_keys Let_def)

lemma with_keypair_result:
  "fst (run_state (with_keypair A ident f) w) =
     fst (run_state (f (id_pub ident, cell_at w (id_priv ident)))
       (w\<lparr>cells := cells w @ [cell_at w (id_priv ident)]\<rparr>))"
  by (simp add: run_with_keypair Let_def)

section \<open>Properties\<close>

text \<open>
  Lending a key leaves nothing behind: whatever a closure does that itself leaves no secret
  cell, after \<^verbatim>\<open>with_keypair\<close> and after \<^verbatim>\<open>with_raw_keys\<close> every cell they added is zero, the cells
  that were there (the identity's own key among them) are unchanged, and the closure was given
  exactly the identity's public key and private bytes.
\<close>

lemma lent_keys_are_wiped:
  assumes "wipes A" and "\<And>k. lends_safely (f k)"
  shows "residue w (snd (run_state (with_keypair A ident f) w)) = {} \<and>
    keeps w (snd (run_state (with_keypair A ident f) w)) \<and>
    residue w (snd (run_state (with_raw_keys A ident (\<lambda>p s. f (p, s))) w)) = {} \<and>
    keeps w (snd (run_state (with_raw_keys A ident (\<lambda>p s. f (p, s))) w)) \<and>
    fst (run_state (with_keypair A ident f) w) =
      fst (run_state (f (id_pub ident, cell_at w (id_priv ident)))
        (w\<lparr>cells := cells w @ [cell_at w (id_priv ident)]\<rparr>))"
  using with_keypair_residue [OF assms(1), of f ident w]
    with_raw_keys_residue [OF assms(1), of "\<lambda>p s. f (p, s)" ident w] assms(2)
  by (simp add: with_keypair_result)

definition sample_identity_api :: "'c identity_api" where
  "sample_identity_api = \<lparr>
     c_identity_generate = (\<lambda>c. ((0, [1], [2], [3]), c)),
     c_nodeid_verify = (\<lambda>n p. if n = map (\<lambda>b. b + 1) p then 0 else - 304),
     c_nodeid_to_base58 = (\<lambda>n. (0, n, length n)),
     c_nodeid_from_base58 = (\<lambda>s. (0, map (\<lambda>c. of_nat (of_char c)) s)),
     c_nodeid_from_pubkey = (\<lambda>p. (0, map (\<lambda>b. b + 1) p)),
     c_ed25519_sign = (\<lambda>msg sk. (0, sk @ msg)),
     c_keypair_save_pem = (\<lambda>p s. (0, p @ s, length (p @ s))),
     c_keypair_load_pem = (\<lambda>s. (0, map (\<lambda>c. of_nat (of_char c)) (take 1 s),
        map (\<lambda>c. of_nat (of_char c)) (drop 1 s))),
     c_zeroize = (\<lambda>bs. zeros (length bs))\<rparr>"

lemma sample_wipes: "wipes sample_identity_api"
  by (simp add: wipes_def sample_identity_api_def)

lemma run_identity_generate:
  "run_state (identity_generate A) w =
     (case c_identity_generate A (lib w) of ((rc, nid, pub, priv), c) \<Rightarrow>
        (case error_check rc of
           Inl e \<Rightarrow> (Inl e, w\<lparr>lib := c, cells := cells w @ [priv]\<rparr>)
         | Inr _ \<Rightarrow> (Inr \<lparr>id_node = NodeId nid, id_pub = pub, id_priv = Suc (length (cells w))\<rparr>,
             w\<lparr>lib := c, cells := cells w @ [c_zeroize A priv, priv]\<rparr>)))"
  by (auto simp: identity_generate_def list_update_append split: prod.splits sum.splits)

text \<open>
  A generated identity is the only place its private key remains: on success the temporary
  keypair is wiped and the one cell left with secret bytes is the identity's own, holding exactly
  what the library generated; dropping the identity wipes that one too. A failure returns the
  library's error.
\<close>

lemma generated_key_single_copy:
  assumes "wipes A" and "c_identity_generate A (lib w) = ((rc, nid, pub, priv), c)"
  shows "case run_state (identity_generate A) w of
      (Inl e, w') \<Rightarrow> rc < 0 \<and> error_code e = rc
    | (Inr ident, w') \<Rightarrow> 0 \<le> rc \<and> id_node ident = NodeId nid \<and> id_pub ident = pub \<and>
        cell_at w' (id_priv ident) = priv \<and> residue w w' \<subseteq> {id_priv ident} \<and>
        residue w (snd (run_state (identity_drop A ident) w')) = {}"
proof (cases "0 \<le> rc")
  case True
  let ?w = "w\<lparr>lib := c, cells := cells w @ [c_zeroize A priv, priv]\<rparr>"
  have "residue w ?w \<subseteq> {Suc (length (cells w))}"
    using assms(1) by (auto simp: residue_def nth_append less_Suc_eq)
  moreover have "residue w (?w\<lparr>cells := (cells ?w)[Suc (length (cells w)) := c_zeroize A priv]\<rparr>) = {}"
    using assms(1)
    by (auto simp: residue_def nth_append list_update_append less_Suc_eq)
  ultimately show ?thesis
    using True assms by (simp add: run_identity_generate identity_drop_def nth_append)
next
  case False
  then show ?thesis
    using assms by (simp add: run_identity_generate code_from_code)
qed

lemma run_identity_from_pem:
  "run_state (identity_from_pem A pem) w =
     (case c_keypair_load_pem A pem of (rc, pub, priv) \<Rightarrow>
        (case error_check rc of
           Inl e \<Rightarrow> (Inl e, w\<lparr>cells := cells w @ [priv]\<rparr>)
         | Inr _ \<Rightarrow>
             (case node_id_from_pubkey A pub of
                Inl e \<Rightarrow> (Inl e, w\<lparr>cells := cells w @ [c_zeroize A priv]\<rparr>)
              | Inr n \<Rightarrow> (Inr \<lparr>id_node = n, id_pub = pub, id_priv = Suc (length (cells w))\<rparr>,
                  w\<lparr>cells := cells w @ [c_zeroize A priv, priv]\<rparr>))))"
  by (auto simp: identity_from_pem_def node_id_from_pubkey_def list_update_append Let_def
      split: prod.splits sum.splits)

text \<open>
  C34. Loading a PEM key wipes its temporary copy on both paths the code handles, and does not when
  the library rejects the PEM: then what the library left in the buffer stays. An identity that is
  returned carries the node id derived from its own public key.
\<close>

theorem pem_key_copies:
  assumes "wipes A" and "c_keypair_load_pem A pem = (rc, pub, priv)"
    and "run_state (identity_from_pem A pem) w = (r, w')"
  shows "(rc < 0 \<longrightarrow> r = Inl (error_from_code rc) \<and> cells w' = cells w @ [priv]) \<and>
    (0 \<le> rc \<longrightarrow> (\<forall>e. r = Inl e \<longrightarrow> residue w w' = {} \<and> node_id_from_pubkey A pub = Inl e)) \<and>
    (\<forall>ident. r = Inr ident \<longrightarrow> residue w w' \<subseteq> {id_priv ident} \<and>
        cell_at w' (id_priv ident) = priv \<and> id_pub ident = pub \<and>
        node_id_from_pubkey A (id_pub ident) = Inr (id_node ident))"
proof (cases "error_check rc")
  case (Inl e)
  then have "rc < 0" and "e = error_from_code rc" by (simp_all add: error_check_Inl)
  with Inl assms(2,3) show ?thesis by (auto simp: run_identity_from_pem)
next
  case (Inr u)
  then have "0 \<le> rc" by simp
  with Inr assms show ?thesis
    by (cases "node_id_from_pubkey A pub")
      (auto simp: run_identity_from_pem residue_def nth_append less_Suc_eq)
qed

theorem pem_key_copies_witness:
  "residue (world_init ()) (snd (run_state (identity_from_pem sample_identity_api ''ab'') (world_init ()))) \<subseteq> {1}"
proof -
  let ?r = "run_state (identity_from_pem sample_identity_api ''ab'') (world_init ())"
  have l: "c_keypair_load_pem sample_identity_api ''ab'' = (0, [97], [98])"
    by (simp add: sample_identity_api_def)
  have n: "node_id_from_pubkey sample_identity_api [97] = Inr (NodeId [98])"
    by (simp add: node_id_from_pubkey_def sample_identity_api_def)
  have r: "?r = (Inr \<lparr>id_node = NodeId [98], id_pub = [97], id_priv = 1\<rparr>, snd ?r)"
    by (simp add: run_identity_from_pem l n world_init_def)
  show ?thesis
    using pem_key_copies [OF sample_wipes l r] by simp
qed

text \<open>
  C35. PEM is a faithful carrier: if the library's PEM encoder and decoder are inverse on this key
  (the text fits the 4096-byte buffer and is UTF-8), then saving an identity whose node id is the
  one its key derives to, and loading the text, gives an identity with the same node id, public key
  and private bytes.
\<close>

theorem pem_roundtrip:
  assumes "c_keypair_save_pem A (id_pub ident) (cell_at w (id_priv ident)) = (rc, out, length out)"
    and "0 \<le> rc" and "length out \<le> 4096" and "from_utf8 out = Some pem"
    and "c_keypair_load_pem A pem = (rc', id_pub ident, cell_at w (id_priv ident))" and "0 \<le> rc'"
    and "node_id_from_pubkey A (id_pub ident) = Inr (id_node ident)"
    and "id_priv ident < length (cells w)"
  shows "case run_state (try_ok (identity_to_pem A ident) (identity_from_pem A)) w of
      (Inl _, _) \<Rightarrow> False
    | (Inr loaded, w') \<Rightarrow> id_node loaded = id_node ident \<and> id_pub loaded = id_pub ident \<and>
        cell_at w' (id_priv loaded) = cell_at w (id_priv ident)"
proof -
  have t: "take (length out) (overwrite out (zeros 4096)) = out"
    using assms(3) by (simp add: take_overwrite)
  have "fst (run_state (identity_to_pem A ident) w) = Inr pem"
    using assms(1,2,4) t by (simp add: identity_to_pem_def)
  then obtain w1 where w1: "run_state (identity_to_pem A ident) w = (Inr pem, w1)"
    by (metis prod.collapse)
  have "error_check rc' = Inr ()" using assms(6) by simp
  with assms(5,7) w1 show ?thesis
    by (simp add: run_identity_from_pem nth_append)
qed

theorem pem_roundtrip_witness:
  "case run_state (try_ok (identity_to_pem sample_identity_api
        \<lparr>id_node = NodeId [98], id_pub = [97], id_priv = 0\<rparr>) (identity_from_pem sample_identity_api))
      ((world_init ())\<lparr>cells := [[99]]\<rparr>) of
      (Inl _, _) \<Rightarrow> False
    | (Inr loaded, w') \<Rightarrow> id_node loaded = NodeId [98] \<and> id_pub loaded = [97] \<and>
        cell_at w' (id_priv loaded) = [99]"
proof -
  let ?id = "\<lparr>id_node = NodeId [98], id_pub = [97], id_priv = 0\<rparr>"
  let ?w = "(world_init ())\<lparr>cells := [[99]]\<rparr>"
  have s: "c_keypair_save_pem sample_identity_api (id_pub ?id) (cell_at ?w (id_priv ?id)) =
      (0, [97, 99], length ([97, 99] :: bytes))"
    and l: "c_keypair_load_pem sample_identity_api ''ac'' = (0, id_pub ?id, cell_at ?w (id_priv ?id))"
    and n: "node_id_from_pubkey sample_identity_api (id_pub ?id) = Inr (id_node ?id)"
    by (simp_all add: sample_identity_api_def node_id_from_pubkey_def)
  have u: "from_utf8 [97, 99] = Some ''ac''"
    by code_simp
  show ?thesis
    using pem_roundtrip [OF s _ _ u l _ n] by (simp split: prod.splits sum.splits)
qed

end
