(* ===== verification/SocketText.thy ===== *)
theory SocketText
  imports Prelude
begin

text \<open>
  Socket addresses and their texts: \<^verbatim>\<open>SocketAddr\<close> of \<^verbatim>\<open>core::net\<close> and the parser behind its
  \<^verbatim>\<open>FromStr\<close>, which \<^verbatim>\<open>Address::from_str\<close> (\<^verbatim>\<open>nwep/src/address.rs\<close>) runs. The parser is the one of the
  standard library: a cursor over the bytes of the text, and readers that leave it alone when they fail,
  so a reader is a function from the text left to its value and the text after it.
\<close>

section \<open>Addresses\<close>

text \<open>
  An IPv4 socket address is four octets and a port; an IPv6 one is sixteen octets, a port, the flow
  information and the scope id.
\<close>

datatype socket_addr =
    SockV4 u8 u8 u8 u8 u16
  | SockV6 bytes u16 u32 u32

fun socket_port :: "socket_addr \<Rightarrow> u16" where
  "socket_port (SockV4 a b c d port) = port"
| "socket_port (SockV6 octets port flow scope) = port"

text \<open>The octets of a group and the group of two octets, in network order.\<close>

definition be_bytes :: "u16 \<Rightarrow> bytes" where
  "be_bytes g = [ucast (drop_bit 8 g), ucast g]"

definition from_be :: "u8 \<Rightarrow> u8 \<Rightarrow> u16" where
  "from_be a b = ucast a * 256 + ucast b"

section \<open>Readers\<close>

type_synonym 'a reader = "string \<Rightarrow> ('a \<times> string) option"

definition then_read :: "'a reader \<Rightarrow> ('a \<Rightarrow> 'b reader) \<Rightarrow> 'b reader" where
  "then_read p f = (\<lambda>s. case p s of None \<Rightarrow> None | Some (x, s') \<Rightarrow> f x s')"

definition reads :: "'a \<Rightarrow> 'a reader" where
  "reads x = (\<lambda>s. Some (x, s))"

definition read_given_char :: "char \<Rightarrow> unit reader" where
  "read_given_char c = (\<lambda>s. case s of [] \<Rightarrow> None | x # s' \<Rightarrow> if x = c then Some ((), s') else None)"

definition read_separator :: "char \<Rightarrow> nat \<Rightarrow> 'a reader \<Rightarrow> 'a reader" where
  "read_separator sep i p = (if i = 0 then p else then_read (read_given_char sep) (\<lambda>_. p))"

text \<open>\<^verbatim>\<open>char::to_digit\<close>, for the radixes 10 and 16.\<close>

definition to_digit :: "nat \<Rightarrow> char \<Rightarrow> nat option" where
  "to_digit radix c =
     (let k = of_char c :: nat;
          d = (if 48 \<le> k \<and> k \<le> 57 then Some (k - 48)
               else if 97 \<le> k \<and> k \<le> 102 then Some (k - 87)
               else if 65 \<le> k \<and> k \<le> 70 then Some (k - 55) else None)
      in case d of None \<Rightarrow> None | Some v \<Rightarrow> if v < radix then Some v else None)"

text \<open>
  The loop of \<^verbatim>\<open>read_number\<close>: with a maximum it counts digits, without one the arithmetic is checked
  against the type's range \<open>2 ^ w\<close>.
\<close>

fun read_digits :: "nat \<Rightarrow> nat option \<Rightarrow> nat \<Rightarrow> nat \<Rightarrow> nat \<Rightarrow> string \<Rightarrow> ((nat \<times> nat) \<times> string) option" where
  "read_digits radix max_digits w n cnt [] = Some ((n, cnt), [])"
| "read_digits radix max_digits w n cnt (c # s) =
     (case to_digit radix c of
        None \<Rightarrow> Some ((n, cnt), c # s)
      | Some d \<Rightarrow>
          if (case max_digits of None \<Rightarrow> 2 ^ w \<le> n * radix + d | Some k \<Rightarrow> k < Suc cnt) then None
          else read_digits radix max_digits w (n * radix + d) (Suc cnt) s)"

definition read_number :: "nat \<Rightarrow> nat option \<Rightarrow> bool \<Rightarrow> nat \<Rightarrow> nat reader" where
  "read_number radix max_digits zero_prefix w = (\<lambda>s.
     case read_digits radix max_digits w 0 0 s of
       None \<Rightarrow> None
     | Some ((n, cnt), s') \<Rightarrow>
         if cnt = 0 then None
         else if \<not> zero_prefix \<and> take 1 s = ''0'' \<and> 1 < cnt then None
         else if 2 ^ w \<le> n then None
         else Some (n, s'))"

fun read_octets :: "nat \<Rightarrow> nat \<Rightarrow> u8 list reader" where
  "read_octets i 0 = reads []"
| "read_octets i (Suc k) = then_read (read_separator (CHR ''.'') i (read_number 10 (Some 3) False 8)) (\<lambda>n.
     then_read (read_octets (Suc i) k) (\<lambda>os. reads (word_of_nat n # os)))"

definition read_ipv4 :: "u8 list reader" where
  "read_ipv4 = read_octets 0 4"

text \<open>
  Up to \<open>limit\<close> groups from index \<open>i\<close> on, of which \<open>k\<close> are left; an embedded IPv4 address ends them and takes
  two. The flag says whether there was one.
\<close>

fun read_groups :: "nat \<Rightarrow> nat \<Rightarrow> nat \<Rightarrow> string \<Rightarrow> (u16 list \<times> bool) \<times> string" where
  "read_groups limit i 0 s = (([], False), s)"
| "read_groups limit i (Suc k) s =
     (case (if Suc i < limit then read_separator (CHR '':'') i read_ipv4 s else None) of
        Some (os, s') \<Rightarrow> (([from_be (os ! 0) (os ! 1), from_be (os ! 2) (os ! 3)], True), s')
      | None \<Rightarrow>
          (case read_separator (CHR '':'') i (read_number 16 (Some 4) True 16) s of
             None \<Rightarrow> (([], False), s)
           | Some (g, s') \<Rightarrow>
               (case read_groups limit (Suc i) k s' of ((gs, v4), s'') \<Rightarrow> ((word_of_nat g # gs, v4), s''))))"

definition read_ipv6 :: "u16 list reader" where
  "read_ipv6 = (\<lambda>s. case read_groups 8 0 8 s of ((front, v4), s1) \<Rightarrow>
     if length front = 8 then Some (front, s1)
     else if v4 then None
     else then_read (read_given_char (CHR '':'')) (\<lambda>_. then_read (read_given_char (CHR '':'')) (\<lambda>_ s2.
       let limit = 8 - (length front + 1) in
       case read_groups limit 0 limit s2 of ((back, _), s3) \<Rightarrow>
         Some (front @ replicate (8 - length front - length back) 0 @ back, s3))) s1)"

definition read_port :: "u16 reader" where
  "read_port = then_read (read_given_char (CHR '':'')) (\<lambda>_.
     then_read (read_number 10 None True 16) (\<lambda>n. reads (word_of_nat n)))"

definition read_scope_id :: "u32 reader" where
  "read_scope_id = then_read (read_given_char (CHR ''%'')) (\<lambda>_.
     then_read (read_number 10 None True 32) (\<lambda>n. reads (word_of_nat n)))"

definition read_socket_v4 :: "socket_addr reader" where
  "read_socket_v4 = then_read read_ipv4 (\<lambda>os. then_read read_port (\<lambda>port.
     reads (SockV4 (os ! 0) (os ! 1) (os ! 2) (os ! 3) port)))"

definition read_socket_v6 :: "socket_addr reader" where
  "read_socket_v6 = then_read (read_given_char (CHR ''['')) (\<lambda>_. then_read read_ipv6 (\<lambda>gs s.
     case (case read_scope_id s of None \<Rightarrow> (0, s) | Some r \<Rightarrow> r) of (scope, s') \<Rightarrow>
       then_read (read_given_char (CHR '']'')) (\<lambda>_. then_read read_port (\<lambda>port.
         reads (SockV6 (concat (map be_bytes gs)) port 0 scope))) s'))"

text \<open>\<^verbatim>\<open>str::parse::<SocketAddr>\<close>: the whole text has to be read.\<close>

definition socket_addr_parse :: "string \<Rightarrow> socket_addr option" where
  "socket_addr_parse s =
     (case (case read_socket_v4 s of None \<Rightarrow> read_socket_v6 s | Some r \<Rightarrow> Some r) of
        Some (a, []) \<Rightarrow> Some a
      | _ \<Rightarrow> None)"

section \<open>Texts\<close>

text \<open>The texts of numbers and addresses that the readers are to undo.\<close>

definition digit_text :: "nat \<Rightarrow> char" where
  "digit_text d = char_of (if d < 10 then 48 + d else 87 + d)"

fun digits :: "nat \<Rightarrow> nat \<Rightarrow> nat list" where
  "digits radix n = (if n < radix \<or> radix < 2 then [n] else digits radix (n div radix) @ [n mod radix])"

declare digits.simps [simp del]

definition num_text :: "nat \<Rightarrow> nat \<Rightarrow> string" where
  "num_text radix n = map digit_text (digits radix n)"

definition v4_text :: "u8 \<Rightarrow> u8 \<Rightarrow> u8 \<Rightarrow> u8 \<Rightarrow> string" where
  "v4_text a b c d = num_text 10 (unat a) @ ''.'' @ num_text 10 (unat b) @ ''.'' @ num_text 10 (unat c) @ ''.'' @
     num_text 10 (unat d)"

fun groups_text :: "u16 list \<Rightarrow> string" where
  "groups_text [] = []"
| "groups_text (g # gs) = num_text 16 (unat g) @ (if gs = [] then [] else '':'' @ groups_text gs)"

definition port_text :: "u16 \<Rightarrow> string" where
  "port_text port = '':'' @ num_text 10 (unat port)"

lemma to_digit_text: "d < radix \<Longrightarrow> radix \<le> 16 \<Longrightarrow> to_digit radix (digit_text d) = Some d"
  by (auto simp: to_digit_def digit_text_def Let_def)

abbreviation value_of :: "nat \<Rightarrow> nat \<Rightarrow> nat list \<Rightarrow> nat" where
  "value_of radix n ds \<equiv> foldl (\<lambda>a d. a * radix + d) n ds"

lemma value_of_mono: "1 \<le> radix \<Longrightarrow> n \<le> value_of radix n ds"
proof (induction ds arbitrary: n)
  case Nil
  then show ?case by simp
next
  case (Cons d ds)
  have "n \<le> n * radix + d" using Cons.prems by (simp add: trans_le_add1)
  also have "\<dots> \<le> value_of radix (n * radix + d) ds" by (rule Cons.IH) (rule Cons.prems)
  finally show ?case by simp
qed

lemma value_of_digits: "value_of radix 0 (digits radix n) = n"
proof (induction radix n rule: digits.induct)
  case (1 radix n)
  then show ?case by (subst digits.simps) auto
qed

lemma digits_less: "2 \<le> radix \<Longrightarrow> d \<in> set (digits radix n) \<Longrightarrow> d < radix"
proof (induction radix n rule: digits.induct)
  case (1 radix n)
  then show ?case by (subst (asm) digits.simps) (auto split: if_splits)
qed

lemma digits_length: "2 \<le> radix \<Longrightarrow> n < radix ^ Suc k \<Longrightarrow> length (digits radix n) \<le> Suc k"
proof (induction k arbitrary: n)
  case 0
  then show ?case by (subst digits.simps) simp
next
  case (Suc k)
  then have "n div radix < radix ^ Suc k" by (simp add: less_mult_imp_div_less mult.commute)
  then show ?case using Suc by (subst digits.simps) auto
qed

lemma digits_nonempty: "digits radix n \<noteq> []"
  by (subst digits.simps) simp

lemma digits_leading: "2 \<le> radix \<Longrightarrow> 1 < length (digits radix n) \<Longrightarrow> hd (digits radix n) \<noteq> 0"
proof (induction radix n rule: digits.induct)
  case (1 radix n)
  then have big: "\<not> n < radix" by (auto simp: digits.simps [of radix n] split: if_splits)
  have "hd (digits radix (n div radix)) \<noteq> 0"
  proof (cases "n div radix < radix")
    case True
    then show ?thesis using big 1(2) by (simp add: digits.simps [of radix "n div radix"] div_eq_0_iff)
  next
    case False
    then have "1 < length (digits radix (n div radix))"
      using 1(2) digits_nonempty by (subst digits.simps) (simp add: Suc_le_eq)
    with 1 big show ?thesis by simp
  qed
  then show ?case using big 1(2) digits_nonempty by (subst digits.simps) simp
qed

text \<open>A number ends where no digit of its radix follows.\<close>

definition ends_number :: "nat \<Rightarrow> string \<Rightarrow> bool" where
  "ends_number radix rest \<longleftrightarrow> (case rest of [] \<Rightarrow> True | c # _ \<Rightarrow> to_digit radix c = None)"

lemma read_digits_text:
  assumes "\<forall>d \<in> set ds. d < radix" and "1 \<le> radix" and "radix \<le> 16" and "ends_number radix rest"
    and "case mx of Some k \<Rightarrow> cnt + length ds \<le> k | None \<Rightarrow> value_of radix n ds < 2 ^ w"
  shows "read_digits radix mx w n cnt (map digit_text ds @ rest) = Some ((value_of radix n ds, cnt + length ds), rest)"
  using assms(1,5)
proof (induction ds arbitrary: n cnt)
  case Nil
  then show ?case using assms(4) by (cases rest) (auto simp: ends_number_def)
next
  case (Cons d ds)
  have "n * radix + d \<le> value_of radix (n * radix + d) ds" by (rule value_of_mono [OF assms(2)])
  with Cons show ?case
    by (auto simp: to_digit_text assms(3) split: option.splits)
qed

lemma read_number_text:
  assumes "radix \<in> {10, 16}" and "n < 2 ^ w" and "ends_number radix rest"
    and "\<And>k. mx = Some k \<Longrightarrow> length (digits radix n) \<le> k"
  shows "read_number radix mx zp w (num_text radix n @ rest) = Some (n, rest)"
proof -
  have r: "2 \<le> radix" "radix \<le> 16" using assms(1) by auto
  have "read_digits radix mx w 0 0 (num_text radix n @ rest) =
      Some ((value_of radix 0 (digits radix n), 0 + length (digits radix n)), rest)"
    unfolding num_text_def
    by (rule read_digits_text) (use r assms digits_less [OF r(1)] value_of_digits in \<open>auto split: option.split\<close>)
  moreover have "take 1 (num_text radix n @ rest) \<noteq> ''0''" if "1 < length (digits radix n)"
  proof -
    have "hd (digits radix n) \<noteq> 0" "hd (digits radix n) < 16"
      using digits_leading [OF r(1) that] digits_less [OF r(1), of "hd (digits radix n)" n] digits_nonempty [of radix n] r(2)
      by auto
    then have "digit_text (hd (digits radix n)) \<noteq> CHR ''0''"
      by (auto simp: digit_text_def dest!: arg_cong [of _ _ "of_char :: char \<Rightarrow> nat"])
    then show ?thesis using digits_nonempty [of radix n] by (cases "digits radix n") (auto simp: num_text_def)
  qed
  ultimately show ?thesis
    using assms(2) digits_nonempty [of radix n] by (auto simp: read_number_def value_of_digits)
qed

lemma unat_bound: "unat (a :: 'a :: len word) < 2 ^ LENGTH('a)"
  by (rule unsigned_less)

lemma read_octet_text:
  assumes "ends_number 10 rest"
  shows "read_number 10 (Some 3) False 8 (num_text 10 (unat (a :: u8)) @ rest) = Some (unat a, rest)"
  using unat_bound [of a] assms digits_length [of 10 "unat a" 2] by (intro read_number_text) auto

lemma read_group_text:
  assumes "ends_number 16 rest"
  shows "read_number 16 (Some 4) True 16 (num_text 16 (unat (g :: u16)) @ rest) = Some (unat g, rest)"
  using unat_bound [of g] assms digits_length [of 16 "unat g" 3] by (intro read_number_text) auto

lemma read_port_text: "read_port (port_text port) = Some (port, [])"
  using read_number_text [of 10 "unat port" 16 "[]" None True] unat_bound [of port]
  by (simp add: read_port_def port_text_def then_read_def read_given_char_def reads_def ends_number_def)


lemma read_ipv4_octets: "read_ipv4 = read_octets 0 (Suc (Suc (Suc (Suc 0))))"
  by (simp add: read_ipv4_def numeral_eq_Suc)

lemma read_ipv4_text:
  assumes "ends_number 10 rest"
  shows "read_ipv4 (v4_text a b c d @ rest) = Some ([a, b, c, d], rest)"
proof -
  have dot: "ends_number 10 (CHR ''.'' # s)" for s by (simp add: ends_number_def to_digit_def)
  show ?thesis
    by (simp add: read_ipv4_octets v4_text_def read_separator_def then_read_def
        read_given_char_def reads_def read_octet_text [OF dot] read_octet_text [OF assms])
qed

text \<open>A group is not taken for an octet: no dot follows its leading decimal digits.\<close>

lemma read_digits_rest:
  "read_digits 10 mx w n cnt s = Some (r, s') \<Longrightarrow> s' = dropWhile (\<lambda>c. to_digit 10 c \<noteq> None) s"
  by (induction s arbitrary: n cnt) (auto split: option.splits if_splits)

lemma no_ipv4:
  assumes "take 1 (dropWhile (\<lambda>c. to_digit 10 c \<noteq> None) s) \<noteq> ''.''"
  shows "read_ipv4 s = None"
proof (cases "read_number 10 (Some 3) False 8 s")
  case None
  then show ?thesis by (simp add: read_ipv4_octets read_separator_def then_read_def)
next
  case (Some r)
  obtain n s' where r: "r = (n, s')" by (cases r)
  with Some have "s' = dropWhile (\<lambda>c. to_digit 10 c \<noteq> None) s"
    by (auto simp: read_number_def dest: read_digits_rest split: option.splits if_splits)
  with assms have "take 1 s' \<noteq> ''.''" by simp
  then have "read_given_char (CHR ''.'') s' = None"
    by (cases s') (auto simp: read_given_char_def)
  then show ?thesis
    using Some r by (simp add: read_ipv4_octets read_separator_def then_read_def)
qed

definition ends_group :: "string \<Rightarrow> bool" where
  "ends_group rest \<longleftrightarrow> rest = [] \<or> hd rest \<in> {CHR '':'', CHR '']'', CHR ''%''}"

lemma ends_group_number: "ends_group rest \<Longrightarrow> ends_number 16 rest"
  by (cases rest) (auto simp: ends_group_def ends_number_def to_digit_def)

lemma hex_no_dot: "CHR ''.'' \<notin> set (num_text 16 n)"
proof
  assume "CHR ''.'' \<in> set (num_text 16 n)"
  then obtain d where "d < 16" and "CHR ''.'' = digit_text d"
    using digits_less [of 16 _ n] by (auto simp: num_text_def)
  then show False by (auto simp: digit_text_def dest!: arg_cong [of _ _ "of_char :: char \<Rightarrow> nat"] split: if_splits)
qed

lemma group_no_ipv4:
  assumes "ends_group rest"
  shows "read_ipv4 (num_text 16 n @ rest) = None"
proof (rule no_ipv4)
  let ?P = "\<lambda>c. to_digit 10 c \<noteq> None"
  have rest: "dropWhile ?P rest = rest" "take 1 rest \<noteq> ''.''"
    using assms by (cases rest; auto simp: ends_group_def to_digit_def)+
  show "take 1 (dropWhile ?P (num_text 16 n @ rest)) \<noteq> ''.''"
  proof (cases "\<forall>c \<in> set (num_text 16 n). ?P c")
    case True
    then show ?thesis using rest by (simp add: dropWhile_append2)
  next
    case False
    then have ne: "dropWhile ?P (num_text 16 n) \<noteq> []" by (simp add: dropWhile_eq_Nil_conv)
    then have "hd (dropWhile ?P (num_text 16 n)) \<in> set (num_text 16 n)" by (metis hd_in_set set_dropWhileD)
    moreover have "dropWhile ?P (num_text 16 n @ rest) = dropWhile ?P (num_text 16 n) @ rest"
      using False by (auto intro: dropWhile_append1)
    ultimately show ?thesis using ne hex_no_dot [of n] by (cases "dropWhile ?P (num_text 16 n)") auto
  qed
qed

text \<open>Where a run of groups stops: at \<^verbatim>\<open>::\<close>, at a scope id or at the closing bracket.\<close>

definition stops :: "string \<Rightarrow> bool" where
  "stops rest \<longleftrightarrow> rest = [] \<or> hd rest \<in> {CHR '']'', CHR ''%''} \<or> take 2 rest = ''::''"

definition from_group :: "nat \<Rightarrow> u16 list \<Rightarrow> string" where
  "from_group i gs = (if i = 0 \<or> gs = [] then [] else '':'') @ groups_text gs"

lemma stops_ends: "stops rest \<Longrightarrow> ends_group (from_group (Suc i) gs @ rest)"
  by (cases rest; cases gs) (auto simp: stops_def ends_group_def from_group_def)

lemma stops_fails:
  assumes "stops rest"
  shows "read_separator (CHR '':'') i read_ipv4 rest = None"
    and "read_separator (CHR '':'') i (read_number 16 mx zp w) rest = None"
proof -
  have n: "read_number radix mx' zp' w' s = None" if "s = [] \<or> to_digit radix (hd s) = None" for radix mx' zp' w' s
    using that by (cases s) (auto simp: read_number_def)
  have v: "read_ipv4 s = None" if "s = [] \<or> to_digit 10 (hd s) = None" for s
    using n [OF that] by (simp add: read_ipv4_octets read_separator_def then_read_def)
  have d: "to_digit radix (CHR '':'') = None" "to_digit radix (CHR '']'') = None" "to_digit radix (CHR ''%'') = None" for radix
    by (simp_all add: to_digit_def)
  have "\<exists>s. rest = '':'' @ '':'' @ s" if "take 2 rest = ''::''"
    using that by (metis append_Cons append_Nil append_take_drop_id)
  then show "read_separator (CHR '':'') i read_ipv4 rest = None"
    and "read_separator (CHR '':'') i (read_number 16 mx zp w) rest = None"
    using assms d
    by (cases rest; force simp: stops_def read_separator_def then_read_def read_given_char_def intro!: n v)+
qed

lemma read_groups_text:
  assumes "stops rest"
  shows "length gs \<le> k \<Longrightarrow> read_groups limit i k (from_group i gs @ rest) = ((gs, False), rest)"
proof (induction k arbitrary: i gs)
  case 0
  then show ?case by (simp add: from_group_def)
next
  case (Suc k)
  show ?case
  proof (cases gs)
    case Nil
    then show ?thesis by (simp add: from_group_def stops_fails [OF assms])
  next
    case (Cons g gs')
    let ?s = "num_text 16 (unat g) @ from_group (Suc i) gs' @ rest"
    have body: "from_group i gs @ rest = (if i = 0 then [] else '':'') @ ?s"
      by (simp add: Cons from_group_def)
    note e = stops_ends [OF assms, of i gs']
    have "read_separator (CHR '':'') i read_ipv4 (from_group i gs @ rest) = read_ipv4 ?s"
      and "read_separator (CHR '':'') i (read_number 16 (Some 4) True 16) (from_group i gs @ rest) =
        read_number 16 (Some 4) True 16 ?s"
      unfolding body by (simp_all add: read_separator_def then_read_def read_given_char_def)
    moreover have "read_groups limit (Suc i) k (from_group (Suc i) gs' @ rest) = ((gs', False), rest)"
      using Suc Cons by simp
    ultimately show ?thesis
      using group_no_ipv4 [OF e] read_group_text [OF ends_group_number [OF e]] by (simp add: Cons)
  qed
qed


section \<open>What is parsed\<close>

lemma read_ipv6_full:
  assumes "length gs = 8" and "stops rest"
  shows "read_ipv6 (groups_text gs @ rest) = Some (gs, rest)"
  using read_groups_text [OF assms(2), of gs 8 8 0] assms(1) by (simp add: read_ipv6_def from_group_def)

lemma read_ipv6_compressed:
  assumes "length front + length rear \<le> 7" and "stops rest"
  shows "read_ipv6 (groups_text front @ ''::'' @ groups_text rear @ rest) =
    Some (front @ replicate (8 - length front - length rear) 0 @ rear, rest)"
proof -
  have "stops (''::'' @ groups_text rear @ rest)" by (simp add: stops_def)
  from read_groups_text [OF this, of front 8 8 0] assms(1)
  have front: "read_groups 8 0 8 (groups_text front @ ''::'' @ groups_text rear @ rest) =
      ((front, False), ''::'' @ groups_text rear @ rest)"
    by (simp add: from_group_def)
  have rear: "read_groups (8 - Suc (length front)) 0 (8 - Suc (length front)) (groups_text rear @ rest) = ((rear, False), rest)"
    using read_groups_text [OF assms(2), of rear "8 - Suc (length front)" "8 - Suc (length front)" 0] assms(1)
    by (simp add: from_group_def)
  show ?thesis
    using front rear assms(1) by (simp add: read_ipv6_def then_read_def read_given_char_def Let_def)
qed

lemma parse_v4_text: "socket_addr_parse (v4_text a b c d @ port_text port) = Some (SockV4 a b c d port)"
proof -
  have "ends_number 10 (port_text port)" by (simp add: port_text_def ends_number_def to_digit_def)
  from read_ipv4_text [OF this] show ?thesis
    by (simp add: socket_addr_parse_def read_socket_v4_def then_read_def reads_def read_port_text)
qed

text \<open>A bracketed text is no IPv4 one; a scope id is read when there is one.\<close>

definition scope_text :: "u32 \<Rightarrow> string" where
  "scope_text scope = (if scope = 0 then [] else ''%'' @ num_text 10 (unat scope))"

lemma parse_v6_text:
  assumes "\<And>rest. stops rest \<Longrightarrow> read_ipv6 (ip @ rest) = Some (gs, rest)"
  shows "socket_addr_parse (''['' @ ip @ scope_text scope @ '']'' @ port_text port) =
    Some (SockV6 (concat (map be_bytes gs)) port 0 scope)"
proof -
  let ?tail = "CHR '']'' # port_text port"
  have "ends_number 10 ?tail" by (simp add: ends_number_def to_digit_def)
  then have scope: "(case read_scope_id (scope_text scope @ ?tail) of None \<Rightarrow> (0, scope_text scope @ ?tail) | Some r \<Rightarrow> r) = (scope, ?tail)"
    using read_number_text [of 10 "unat scope" 32 ?tail None True] unat_bound [of scope]
    by (simp add: scope_text_def read_scope_id_def then_read_def read_given_char_def reads_def)
  have "stops (scope_text scope @ ?tail)" by (simp add: stops_def scope_text_def)
  from assms [OF this] scope
  have v6: "read_socket_v6 (''['' @ ip @ scope_text scope @ ?tail) =
      Some (SockV6 (concat (map be_bytes gs)) port 0 scope, [])"
    by (simp add: read_socket_v6_def then_read_def read_given_char_def reads_def read_port_text)
  have "read_socket_v4 (CHR ''['' # s) = None" for s
    using no_ipv4 [of "CHR ''['' # s"] by (simp add: read_socket_v4_def then_read_def to_digit_def)
  with v6 show ?thesis by (simp add: socket_addr_parse_def)
qed

text \<open>Every address that is parsed has its sixteen octets, and no flow information.\<close>

lemma read_groups_length: "read_groups limit i k s = ((gs, v4), s') \<Longrightarrow> i + k = limit \<Longrightarrow> length gs \<le> k"
proof (induction limit i k s arbitrary: gs v4 s' rule: read_groups.induct)
  case (1 limit i s)
  then show ?case by simp
next
  case (2 limit i k s)
  then show ?case by (auto split: option.splits prod.splits if_splits)
qed

lemma read_ipv6_length: "read_ipv6 s = Some (gs, s') \<Longrightarrow> length gs = 8"
  by (auto simp: read_ipv6_def then_read_def Let_def split: prod.splits option.splits if_splits
      dest!: read_groups_length)

lemma read_octets_length: "read_octets i k s = Some (os, s') \<Longrightarrow> length os = k"
  by (induction i k arbitrary: s os s' rule: read_octets.induct)
    (auto simp: then_read_def reads_def split: option.splits prod.splits)

lemma parsed_octets:
  assumes "socket_addr_parse s = Some (SockV6 octets port flow scope)"
  shows "length octets = 16 \<and> flow = 0"
proof -
  obtain gs u v where "read_ipv6 u = Some (gs, v)" and "octets = concat (map be_bytes gs)" and "flow = 0"
    using assms
    by (auto simp: socket_addr_parse_def read_socket_v4_def read_socket_v6_def then_read_def reads_def
        split: option.splits prod.splits list.splits)
  moreover have "length (concat (map be_bytes gs)) = 2 * length gs" for gs
    by (induction gs) (auto simp: be_bytes_def)
  ultimately show ?thesis using read_ipv6_length by fastforce
qed

end
