(* ===== verification/Address.thy ===== *)
theory Address
  imports Identity SocketText
begin

text \<open>
  \<^verbatim>\<open>nwep/src/address.rs\<close>, \<^verbatim>\<open>nwep/src/uri.rs\<close> and \<^verbatim>\<open>nwep/src/raw.rs\<close>: opaque IPv6 transport
  addresses, parsed \<^verbatim>\<open>web://\<close> addresses, and the casts of the socket handle. The address bytes are
  written and read only by the library.
\<close>

section \<open>Addresses\<close>

datatype address = Address (address_raw: bytes)

record address_api =
  c_address_loopback :: "u16 \<Rightarrow> bytes"
  c_address_wildcard :: "u16 \<Rightarrow> bytes"
  c_address_ipv4_mapped :: "u8 \<Rightarrow> u8 \<Rightarrow> u8 \<Rightarrow> u8 \<Rightarrow> u16 \<Rightarrow> bytes"
  c_address_from_bytes :: "bytes \<Rightarrow> u16 \<Rightarrow> bytes"
  c_address_get_port :: "bytes \<Rightarrow> u16"

definition address_loopback :: "address_api \<Rightarrow> u16 \<Rightarrow> address" where
  "address_loopback A port = Address (c_address_loopback A port)"

definition address_wildcard :: "address_api \<Rightarrow> u16 \<Rightarrow> address" where
  "address_wildcard A port = Address (c_address_wildcard A port)"

definition address_ipv4_mapped ::
  "address_api \<Rightarrow> u8 \<Rightarrow> u8 \<Rightarrow> u8 \<Rightarrow> u8 \<Rightarrow> u16 \<Rightarrow> address" where
  "address_ipv4_mapped A a b c d port = Address (c_address_ipv4_mapped A a b c d port)"

definition address_from_bytes :: "address_api \<Rightarrow> bytes \<Rightarrow> u16 \<Rightarrow> address" where
  "address_from_bytes A addr port = Address (c_address_from_bytes A addr port)"

definition address_port :: "address_api \<Rightarrow> address \<Rightarrow> u16" where
  "address_port A a = c_address_get_port A (address_raw a)"

definition address_as_raw :: "address \<Rightarrow> bytes" where
  "address_as_raw a = address_raw a"

definition address_from_raw :: "bytes \<Rightarrow> address" where
  "address_from_raw raw = Address raw"

definition address_from_v6 :: "address_api \<Rightarrow> bytes \<Rightarrow> u16 \<Rightarrow> u32 \<Rightarrow> u32 \<Rightarrow> address" where
  "address_from_v6 A octets port flowinfo scope = address_from_bytes A octets port"

fun address_from_socket :: "address_api \<Rightarrow> socket_addr \<Rightarrow> address" where
  "address_from_socket A (SockV6 octets port flow scope) = address_from_v6 A octets port flow scope"
| "address_from_socket A (SockV4 a b c d port) = address_ipv4_mapped A a b c d port"

definition address_from_str :: "address_api \<Rightarrow> string \<Rightarrow> error + address" where
  "address_from_str A s = map_ok (address_from_socket A) (ok_or (socket_addr_parse s) ConfigInvalid)"

text \<open>The \<^verbatim>\<open>Debug\<close> text of an address shows its port only.\<close>

definition address_debug :: "address_api \<Rightarrow> address \<Rightarrow> string" where
  "address_debug A a = ''Address { port: '' @ show_nat (unat (address_port A a)) @ '', .. }''"

definition address_from_ip_port :: "address_api \<Rightarrow> bytes \<times> u16 \<Rightarrow> address" where
  "address_from_ip_port A p = (case p of (octets, port) \<Rightarrow> address_from_bytes A octets port)"

text \<open>\<^verbatim>\<open>Bootstrap\<close> of \<^verbatim>\<open>nwep/src/dht.rs\<close>: a peer's node id at an address.\<close>

record bootstrap =
  bs_node :: bytes
  bs_addr :: bytes

section \<open>Socket handles\<close>

text \<open>
  On unix a \<^verbatim>\<open>RawSocket\<close> is a \<^verbatim>\<open>c_int\<close>: the getter's \<^verbatim>\<open>isize\<close> is cut to 32 bits, and the adopt
  builders take it widened with its sign to a 64-bit \<^verbatim>\<open>usize\<close>.
\<close>

definition socket_from_c :: "int \<Rightarrow> int" where
  "socket_from_c handle = as_c_int handle"

definition socket_to_c :: "int \<Rightarrow> u64" where
  "socket_to_c socket = as_u64 socket"

text \<open>On Windows it is a \<^verbatim>\<open>SOCKET\<close>, an unsigned 64-bit handle.\<close>

definition win_socket_from_c :: "int \<Rightarrow> u64" where
  "win_socket_from_c handle = as_u64 handle"

definition win_socket_to_c :: "u64 \<Rightarrow> u64" where
  "win_socket_to_c socket = socket"

section \<open>Uris\<close>

record uri =
  uri_node :: node_id
  uri_port :: u16
  uri_path :: string

text \<open>
  \<^verbatim>\<open>nwep_uri_parse\<close> fills a node id, a port and a path that borrows the input; \<open>None\<close> is the null
  path.
\<close>

type_synonym uri_parser = "string \<Rightarrow> int \<times> bytes \<times> u16 \<times> string option"

definition uri_parse :: "uri_parser \<Rightarrow> string \<Rightarrow> error + uri" where
  "uri_parse c_uri_parse input =
     (case c_uri_parse input of (rc, node, port, path) \<Rightarrow>
        and_then (error_check rc) (\<lambda>_.
        and_then
          (case path of
             None \<Rightarrow> Inr []
           | Some p \<Rightarrow> if p = [] then Inr [] else ok_or (to_str p) ProtoInvalidMessage)
          (\<lambda>owned. Inr \<lparr>uri_node = NodeId node, uri_port = port, uri_path = owned\<rparr>)))"

definition uri_node_id :: "uri \<Rightarrow> node_id" where
  "uri_node_id u = uri_node u"

definition uri_get_port :: "uri \<Rightarrow> u16" where
  "uri_get_port u = uri_port u"

definition uri_get_path :: "uri \<Rightarrow> string" where
  "uri_get_path u = uri_path u"

definition uri_from_str :: "uri_parser \<Rightarrow> string \<Rightarrow> error + uri" where
  "uri_from_str P s = uri_parse P s"

section \<open>Lemmas\<close>

lemma socket_from_c_id: "0 \<le> h \<Longrightarrow> h < 2 ^ 31 \<Longrightarrow> socket_from_c h = h"
  by (simp add: socket_from_c_def as_c_int_id)

lemma to_str_Some_iff: "to_str s = Some t \<longleftrightarrow> utf8_str s \<and> t = s"
  by (auto simp: to_str_def)

section \<open>Properties\<close>

text \<open>
  Parsing a uri copies what the library parsed and nothing else: it succeeds exactly when the
  library accepts the input and the borrowed path is UTF-8, the owned path is then the borrowed one
  (the empty string for a null path), and the error is the library's own, or
  \<^verbatim>\<open>ProtoInvalidMessage\<close> for a path that is not UTF-8.
\<close>

lemma uri_parse_copies:
  assumes "P input = (rc, node, port, path)"
  shows "uri_parse P input =
    (if rc < 0 then Inl (error_from_code rc)
     else if \<not> utf8_str (opt_unwrap_or path []) then Inl ProtoInvalidMessage
     else Inr \<lparr>uri_node = NodeId node, uri_port = port, uri_path = opt_unwrap_or path []\<rparr>)"
  using assms
  by (cases path) (auto simp: uri_parse_def utf8_str_def to_str_def)


definition plain_address_api :: address_api where
  "plain_address_api = \<lparr>c_address_loopback = (\<lambda>p. replicate 15 0 @ [1] @ be_bytes p),
     c_address_wildcard = (\<lambda>p. replicate 16 0 @ be_bytes p),
     c_address_ipv4_mapped = (\<lambda>a b c d p. replicate 10 0 @ [255, 255, a, b, c, d] @ be_bytes p),
     c_address_from_bytes = (\<lambda>bs p. bs @ be_bytes p),
     c_address_get_port = (\<lambda>bs. from_be (bs ! 16) (bs ! 17))\<rparr>"


end
