(* ===== verification/Message.thy ===== *)
theory Message
  imports Boundary
begin

text \<open>
  \<^verbatim>\<open>nwep/src/message.rs\<close> and the message accessors that requests and responses share: the header
  iterator \<^verbatim>\<open>Headers\<close>, a header by name, and the body. A message is read through a const pointer,
  so its accessors read the library's state and never change it.
\<close>

section \<open>The library's accessors\<close>

record 'c message_api =
  c_message_get_status :: "ptr \<Rightarrow> 'c \<Rightarrow> string option"
  c_message_get_header :: "ptr \<Rightarrow> string \<Rightarrow> 'c \<Rightarrow> string option"
  c_message_get_body :: "ptr \<Rightarrow> 'c \<Rightarrow> bytes option"
  c_message_header_count :: "ptr \<Rightarrow> 'c \<Rightarrow> nat"
  c_message_header_at :: "ptr \<Rightarrow> nat \<Rightarrow> 'c \<Rightarrow> int \<times> string option \<times> string option"
  c_message_free :: "ptr \<Rightarrow> 'c \<Rightarrow> 'c"

text \<open>The body shared by \<^verbatim>\<open>Request::header\<close> and \<^verbatim>\<open>Response::header\<close>.\<close>

definition message_header :: "('c, 'x) message_api_scheme \<Rightarrow> ptr \<Rightarrow> string \<Rightarrow> ('c, string option) io" where
  "message_header A msg name =
     (case cstring_new name of
        None \<Rightarrow> State_Monad.return None
      | Some cname \<Rightarrow> do {
          p \<leftarrow> peek (c_message_get_header A msg cname);
          State_Monad.return (case p of None \<Rightarrow> None | Some v \<Rightarrow> to_str v)
        })"

text \<open>The body shared by \<^verbatim>\<open>Request::body\<close> and \<^verbatim>\<open>Response::body\<close>; \<open>None\<close> is a null pointer.\<close>

definition message_body :: "('c, 'x) message_api_scheme \<Rightarrow> ptr \<Rightarrow> ('c, bytes) io" where
  "message_body A msg = do {
     p \<leftarrow> peek (c_message_get_body A msg);
     State_Monad.return (case p of None \<Rightarrow> [] | Some bs \<Rightarrow> if length bs = 0 then [] else bs)
   }"

section \<open>The header iterator\<close>

record headers =
  hs_msg :: ptr
  hs_next :: nat
  hs_count :: nat

definition headers_new :: "('c, 'x) message_api_scheme \<Rightarrow> ptr \<Rightarrow> ('c, headers) io" where
  "headers_new A msg = do {
     count \<leftarrow> peek (c_message_header_count A msg);
     State_Monad.return \<lparr>hs_msg = msg, hs_next = 0, hs_count = count\<rparr>
   }"

definition headers_next ::
  "('c, 'x) message_api_scheme \<Rightarrow> headers \<Rightarrow> ('c, (string \<times> string) option \<times> headers) io" where
  "headers_next A h =
     (if hs_count h \<le> hs_next h then State_Monad.return (None, h)
      else do {
        let i = hs_next h;
        let h' = h\<lparr>hs_next := hs_next h + 1\<rparr>;
        (rc, name, value) \<leftarrow> peek (c_message_header_at A (hs_msg h) i);
        State_Monad.return
          (if rc \<noteq> 0 then (Some ('''', ''''), h')
           else (case (name, value) of
                   (Some k, Some v) \<Rightarrow>
                     (Some (opt_unwrap_or (to_str k) '''', opt_unwrap_or (to_str v) ''''), h')
                 | _ \<Rightarrow> (Some ('''', ''''), h')))
      })"

text \<open>\<^verbatim>\<open>size_hint\<close>; \<open>None\<close> is an underflow of the subtraction.\<close>

definition headers_size_hint :: "headers \<Rightarrow> (nat \<times> nat option) option" where
  "headers_size_hint h =
     (if hs_count h < hs_next h then None
      else let remaining = hs_count h - hs_next h in Some (remaining, Some remaining))"

text \<open>A consumer that runs the iterator to its end, as \<^verbatim>\<open>collect\<close> does.\<close>

fun headers_drain :: "nat \<Rightarrow> ('c, 'x) message_api_scheme \<Rightarrow> headers \<Rightarrow> ('c, (string \<times> string) list option \<times> headers) io"
where
  "headers_drain 0 A h = State_Monad.return (None, h)"
| "headers_drain (Suc fuel) A h = do {
     (item, h') \<leftarrow> headers_next A h;
     (case item of
        None \<Rightarrow> State_Monad.return (Some [], h')
      | Some kv \<Rightarrow> do {
          (rest, h'') \<leftarrow> headers_drain fuel A h';
          State_Monad.return (map_option (Cons kv) rest, h'')
        })
   }"

definition headers_collect :: "('c, 'x) message_api_scheme \<Rightarrow> headers \<Rightarrow> ('c, (string \<times> string) list option) io" where
  "headers_collect A h = do {
     (items, _) \<leftarrow> headers_drain (Suc (hs_count h)) A h;
     State_Monad.return items
   }"

section \<open>Lemmas\<close>

definition headers_wf :: "headers \<Rightarrow> bool" where
  "headers_wf h \<longleftrightarrow> hs_next h \<le> hs_count h"

text \<open>What the iterator reports for the \<open>i\<close>-th header.\<close>

definition header_item :: "('c, 'x) message_api_scheme \<Rightarrow> ptr \<Rightarrow> 'c \<Rightarrow> nat \<Rightarrow> string \<times> string" where
  "header_item A msg c i =
     (case c_message_header_at A msg i c of
        (rc, Some k, Some v) \<Rightarrow>
          if rc = 0 then (opt_unwrap_or (to_str k) [], opt_unwrap_or (to_str v) []) else ([], [])
      | _ \<Rightarrow> ([], []))"

lemma run_headers_next:
  "run_state (headers_next A h) w =
     (if hs_count h \<le> hs_next h then (None, h)
      else (Some (header_item A (hs_msg h) (lib w) (hs_next h)), h\<lparr>hs_next := Suc (hs_next h)\<rparr>), w)"
  by (auto simp: headers_next_def header_item_def Let_def split: prod.splits option.splits)

lemma headers_next_wf: "headers_wf h \<Longrightarrow> headers_wf (snd (fst (run_state (headers_next A h) w)))"
  by (simp add: run_headers_next headers_wf_def)

lemma headers_drain_all:
  assumes "hs_count h - hs_next h < fuel" and "headers_wf h"
  shows "run_state (headers_drain fuel A h) w =
    ((Some (map (header_item A (hs_msg h) (lib w)) [hs_next h..<hs_count h]),
      h\<lparr>hs_next := hs_count h\<rparr>), w)"
  using assms
proof (induction fuel arbitrary: h)
  case 0
  then show ?case by simp
next
  case (Suc fuel)
  show ?case
  proof (cases "hs_count h \<le> hs_next h")
    case True
    with Suc.prems show ?thesis by (simp add: run_headers_next headers_wf_def)
  next
    case False
    then have "[hs_next h..<hs_count h] = hs_next h # [Suc (hs_next h)..<hs_count h]"
      by (simp add: upt_conv_Cons)
    moreover have "headers_wf (h\<lparr>hs_next := Suc (hs_next h)\<rparr>)"
      using False by (simp add: headers_wf_def)
    moreover have "hs_count h - Suc (hs_next h) < fuel"
      using Suc.prems False by simp
    ultimately show ?thesis
      using False Suc.IH [of "h\<lparr>hs_next := Suc (hs_next h)\<rparr>"] by (simp add: run_headers_next)
  qed
qed

section \<open>Properties\<close>

text \<open>
  The header iterator is exact: collecting a fresh iterator returns one pair per header the
  library counts, in wire order, an unreadable header as the empty pair instead of being dropped;
  the size hint is never wrong and never underflows along the way; reading leaves the world as it
  was.
\<close>

lemma headers_iterate_exactly:
  assumes "c_message_header_count A msg (lib w) = n"
  shows "run_state (headers_new A msg \<bind> headers_collect A) w =
      (Some (map (header_item A msg (lib w)) [0..<n]), w) \<and>
    (\<forall>i. headers_size_hint \<lparr>hs_msg = msg, hs_next = i, hs_count = n\<rparr> =
       (if i \<le> n then Some (length (map (header_item A msg (lib w)) [i..<n]), Some (n - i)) else None))"
  using assms
  by (simp add: headers_new_def headers_collect_def headers_drain_all headers_wf_def
      headers_size_hint_def Let_def del: headers_drain.simps)

definition sample_message_api :: "unit message_api" where
  "sample_message_api = \<lparr>
     c_message_get_status = (\<lambda>p c. Some ''ok''),
     c_message_get_header = (\<lambda>p name c. if name = ''k'' then Some ''v'' else None),
     c_message_get_body = (\<lambda>p c. None),
     c_message_header_count = (\<lambda>p c. 2),
     c_message_header_at = (\<lambda>p i c. if i = 0 then (0, Some ''k'', Some ''v'') else (- 1, None, None)),
     c_message_free = (\<lambda>p c. c)\<rparr>"

end
