(* ===== verification/Handler.thy ===== *)
theory Handler
  imports Message Wire Address
begin

text \<open>
  The request side of \<^verbatim>\<open>nwep/src/server.rs\<close>: the \<^verbatim>\<open>Request\<close> handed to a handler, the one-shot
  \<^verbatim>\<open>Responder\<close> with its terminals, the \<^verbatim>\<open>CapturingResponder\<close>, and the C callback
  \<^verbatim>\<open>trampoline\<close> that runs the user's closure. A user closure is a function of the request and the
  responder that runs in the world; its environment, like the library's memory, is part of the
  parameter \<open>'c\<close>. A panic of the closure is the result \<open>None\<close>.
\<close>

section \<open>State and library\<close>

record byte_range =
  br_start :: u64
  br_end :: u64

datatype range_outcome = RangeFull | RangeUnsatisfiable | Ranges "byte_range list"

datatype compression = CompNone | CompZstd | CompUnknown

record request =
  rq_msg :: ptr
  rq_server :: ptr
  rq_conn :: u64
  rq_stream :: u64

record responder =
  rs_buf :: ptr
  rs_rc :: nat
  rs_server :: ptr
  rs_conn :: u64
  rs_stream :: u64

datatype reply = Reply

datatype capturing_responder = CapturingResponder responder

definition max_ranges :: nat where
  "max_ranges = 16"

definition nwep_defer :: int where
  "nwep_defer = 1"

text \<open>A slice that crosses the boundary: its pointer (\<open>None\<close> for null) and its length.\<close>

type_synonym slice = "bytes option \<times> nat"

definition slice_parts :: "bytes \<Rightarrow> slice" where
  "slice_parts b = (if b = [] then (None, 0) else (Some b, length b))"

text \<open>A null-terminated header array: \<open>None\<close> is the entry whose name and value are null.\<close>

type_synonym header_array = "(string \<times> string) option list"

record 'c handler_api = "'c message_api" +
  c_server_get_peer_nodeid :: "ptr \<Rightarrow> u64 \<Rightarrow> 'c \<Rightarrow> (int \<times> bytes) \<times> 'c"
  c_server_conn_compression :: "ptr \<Rightarrow> u64 \<Rightarrow> 'c \<Rightarrow> int"
  c_request_is_fresh :: "ptr \<Rightarrow> string \<Rightarrow> 'c \<Rightarrow> int"
  c_request_range :: "ptr \<Rightarrow> u64 \<Rightarrow> string option \<Rightarrow> nat \<Rightarrow> 'c \<Rightarrow> int \<times> byte_range list \<times> nat"
  c_status_str :: "int \<Rightarrow> string option"
  c_response_ok :: "ptr \<Rightarrow> slice \<Rightarrow> 'c \<Rightarrow> int \<times> 'c"
  c_response_status :: "ptr \<Rightarrow> string option \<Rightarrow> slice \<Rightarrow> 'c \<Rightarrow> int \<times> 'c"
  c_response_not_modified :: "ptr \<Rightarrow> string \<Rightarrow> 'c \<Rightarrow> int \<times> 'c"
  c_response_partial :: "ptr \<Rightarrow> slice \<Rightarrow> byte_range list \<Rightarrow> string \<Rightarrow> 'c \<Rightarrow> int \<times> 'c"
  c_response_range_not_satisfiable :: "ptr \<Rightarrow> u64 \<Rightarrow> 'c \<Rightarrow> int \<times> 'c"
  c_response_header :: "ptr \<Rightarrow> string \<Rightarrow> string \<Rightarrow> 'c \<Rightarrow> int \<times> 'c"
  c_server_begin_stream ::
    "ptr \<Rightarrow> u64 \<Rightarrow> u64 \<Rightarrow> string \<Rightarrow> string option \<Rightarrow> header_array \<Rightarrow> 'c \<Rightarrow> int \<times> 'c"
  c_response_blit :: "ptr \<Rightarrow> slice \<Rightarrow> 'c \<Rightarrow> int \<times> 'c"
  c_response_relay :: "ptr \<Rightarrow> ptr \<Rightarrow> 'c \<Rightarrow> int \<times> 'c"
  c_response_capture :: "ptr \<Rightarrow> 'c producer"

section \<open>Request\<close>

definition request_conn_id :: "request \<Rightarrow> u64" where
  "request_conn_id q = rq_conn q"

definition request_stream_id :: "request \<Rightarrow> u64" where
  "request_stream_id q = rq_stream q"

definition request_peer_node_id :: "('c, 'x) handler_api_scheme \<Rightarrow> request \<Rightarrow> ('c, node_id) io_result" where
  "request_peer_node_id A q = do {
     (rc, out) \<leftarrow> call_on KServer (rq_server q) (c_server_get_peer_nodeid A (rq_server q) (rq_conn q));
     try_ok (lift_res (error_check rc)) (\<lambda>_. ret_ok (node_id_from_bytes out))
   }"

definition compression_of :: "int \<Rightarrow> compression" where
  "compression_of c = (if c = 0 then CompNone else if c = 1 then CompZstd else CompUnknown)"

definition request_compression :: "('c, 'x) handler_api_scheme \<Rightarrow> request \<Rightarrow> ('c, compression) io" where
  "request_compression A q = do {
     c \<leftarrow> peek_on KServer (rq_server q) (c_server_conn_compression A (rq_server q) (rq_conn q));
     State_Monad.return (compression_of c)
   }"

definition request_raw_msg :: "request \<Rightarrow> ptr" where
  "request_raw_msg q = rq_msg q"

definition request_header :: "('c, 'x) handler_api_scheme \<Rightarrow> request \<Rightarrow> string \<Rightarrow> ('c, string option) io" where
  "request_header A q name = message_header A (rq_msg q) name"

definition request_path :: "('c, 'x) handler_api_scheme \<Rightarrow> request \<Rightarrow> ('c, string option) io" where
  "request_path A q = request_header A q '':path''"

definition request_body :: "('c, 'x) handler_api_scheme \<Rightarrow> request \<Rightarrow> ('c, bytes) io" where
  "request_body A q = message_body A (rq_msg q)"

definition request_headers :: "('c, 'x) handler_api_scheme \<Rightarrow> request \<Rightarrow> ('c, headers) io" where
  "request_headers A q = headers_new A (rq_msg q)"

definition request_is_fresh :: "('c, 'x) handler_api_scheme \<Rightarrow> request \<Rightarrow> string \<Rightarrow> ('c, bool) io" where
  "request_is_fresh A q etag =
     (case cstring_new etag of
        None \<Rightarrow> State_Monad.return False
      | Some c \<Rightarrow> do {
          v \<leftarrow> peek (c_request_is_fresh A (rq_msg q) c);
          State_Monad.return (v \<noteq> 0)
        })"

text \<open>
  \<^verbatim>\<open>Request::range\<close>. The outer \<open>None\<close> is the panic of \<^verbatim>\<open>out[..count]\<close> on a count beyond the
  buffer of 16 entries, which starts zeroed.
\<close>

definition zero_range :: byte_range where
  "zero_range = \<lparr>br_start = 0, br_end = 0\<rparr>"

text \<open>The codes of \<^verbatim>\<open>nwep_request_range\<close>.\<close>

definition nwep_range_ok :: int where
  [simp]: "nwep_range_ok = 0"

definition nwep_range_none :: int where
  [simp]: "nwep_range_none = 1"

definition nwep_range_unsatisfiable :: int where
  [simp]: "nwep_range_unsatisfiable = 2"

definition range_result :: "int \<Rightarrow> byte_range list \<Rightarrow> nat \<Rightarrow> (error + range_outcome) option" where
  "range_result rc out cnt =
     (if rc = nwep_range_ok then (if length out < cnt then None else Some (Inr (Ranges (take cnt out))))
      else if rc = nwep_range_unsatisfiable then Some (Inr RangeUnsatisfiable)
      else if rc = nwep_range_none then Some (Inr RangeFull)
      else Some (Inl (error_from_code rc)))"

definition request_range ::
  "('c, 'x) handler_api_scheme \<Rightarrow> request \<Rightarrow> u64 \<Rightarrow> string option \<Rightarrow> ('c, (error + range_outcome) option) io"
where
  "request_range A q total_len etag =
     (case (case etag of
              None \<Rightarrow> Inr None
            | Some e \<Rightarrow> map_ok Some (ok_or (cstring_new e) ProtoInvalidHeader)) of
        Inl e \<Rightarrow> State_Monad.return (Some (Inl e))
      | Inr etag_c \<Rightarrow> do {
          (rc, written, cnt) \<leftarrow> peek (c_request_range A (rq_msg q) total_len etag_c max_ranges);
          let out = overwrite written (replicate max_ranges zero_range);
          State_Monad.return (range_result rc out cnt)
        })"

section \<open>Responder\<close>

definition responder_ok :: "('c, 'x) handler_api_scheme \<Rightarrow> responder \<Rightarrow> bytes \<Rightarrow> ('c, reply) io" where
  "responder_ok A r body = do {
     rc \<leftarrow> call (c_response_ok A (rs_buf r) (slice_parts body));
     frame_write (rs_rc r) rc;
     State_Monad.return Reply
   }"

definition responder_status ::
  "('c, 'x) handler_api_scheme \<Rightarrow> responder \<Rightarrow> status \<Rightarrow> bytes \<Rightarrow> ('c, reply) io" where
  "responder_status A r st body = do {
     let token = c_status_str A (status_code st);
     rc \<leftarrow> call (c_response_status A (rs_buf r) token (slice_parts body));
     frame_write (rs_rc r) rc;
     State_Monad.return Reply
   }"

definition responder_header ::
  "('c, 'x) handler_api_scheme \<Rightarrow> responder \<Rightarrow> string \<Rightarrow> string \<Rightarrow> ('c, responder) io" where
  "responder_header A r name val =
     (case (cstring_new name, cstring_new val) of
        (Some n, Some v) \<Rightarrow> do {
          rc \<leftarrow> call (c_response_header A (rs_buf r) n v);
          State_Monad.return r
        }
      | _ \<Rightarrow> State_Monad.return r)"

definition responder_not_found :: "('c, 'x) handler_api_scheme \<Rightarrow> responder \<Rightarrow> ('c, reply) io" where
  "responder_not_found A r = responder_status A r StNotFound []"

definition responder_created :: "('c, 'x) handler_api_scheme \<Rightarrow> responder \<Rightarrow> bytes \<Rightarrow> ('c, reply) io" where
  "responder_created A r body = responder_status A r StCreated body"

definition responder_accepted :: "('c, 'x) handler_api_scheme \<Rightarrow> responder \<Rightarrow> bytes \<Rightarrow> ('c, reply) io" where
  "responder_accepted A r body = responder_status A r StAccepted body"

definition responder_no_content :: "('c, 'x) handler_api_scheme \<Rightarrow> responder \<Rightarrow> ('c, reply) io" where
  "responder_no_content A r = responder_status A r StNoContent []"

definition responder_moved :: "('c, 'x) handler_api_scheme \<Rightarrow> responder \<Rightarrow> string \<Rightarrow> ('c, reply) io" where
  "responder_moved A r location = do {
     r' \<leftarrow> responder_header A r ''location'' location;
     responder_status A r' StMoved []
   }"

definition responder_bad_request :: "('c, 'x) handler_api_scheme \<Rightarrow> responder \<Rightarrow> bytes \<Rightarrow> ('c, reply) io" where
  "responder_bad_request A r body = responder_status A r StBadRequest body"

definition responder_unauthorized :: "('c, 'x) handler_api_scheme \<Rightarrow> responder \<Rightarrow> bytes \<Rightarrow> ('c, reply) io" where
  "responder_unauthorized A r body = responder_status A r StUnauthorized body"

definition responder_forbidden :: "('c, 'x) handler_api_scheme \<Rightarrow> responder \<Rightarrow> bytes \<Rightarrow> ('c, reply) io" where
  "responder_forbidden A r body = responder_status A r StForbidden body"

definition responder_not_allowed :: "('c, 'x) handler_api_scheme \<Rightarrow> responder \<Rightarrow> ('c, reply) io" where
  "responder_not_allowed A r = responder_status A r StNotAllowed []"

definition responder_conflict :: "('c, 'x) handler_api_scheme \<Rightarrow> responder \<Rightarrow> bytes \<Rightarrow> ('c, reply) io" where
  "responder_conflict A r body = responder_status A r StConflict body"

definition responder_gone :: "('c, 'x) handler_api_scheme \<Rightarrow> responder \<Rightarrow> ('c, reply) io" where
  "responder_gone A r = responder_status A r StGone []"

definition responder_too_large :: "('c, 'x) handler_api_scheme \<Rightarrow> responder \<Rightarrow> ('c, reply) io" where
  "responder_too_large A r = responder_status A r StTooLarge []"

definition responder_precondition_failed :: "('c, 'x) handler_api_scheme \<Rightarrow> responder \<Rightarrow> ('c, reply) io" where
  "responder_precondition_failed A r = responder_status A r StPreconditionFailed []"

definition responder_rate_limited :: "('c, 'x) handler_api_scheme \<Rightarrow> responder \<Rightarrow> string \<Rightarrow> ('c, reply) io" where
  "responder_rate_limited A r retry_after = do {
     r' \<leftarrow> responder_header A r ''retry-after'' retry_after;
     responder_status A r' StRateLimited []
   }"

definition responder_error :: "('c, 'x) handler_api_scheme \<Rightarrow> responder \<Rightarrow> bytes \<Rightarrow> ('c, reply) io" where
  "responder_error A r body = responder_status A r StError body"

definition responder_unavailable :: "('c, 'x) handler_api_scheme \<Rightarrow> responder \<Rightarrow> ('c, reply) io" where
  "responder_unavailable A r = responder_status A r StUnavailable []"

definition responder_timeout :: "('c, 'x) handler_api_scheme \<Rightarrow> responder \<Rightarrow> ('c, reply) io" where
  "responder_timeout A r = responder_status A r StTimeout []"

definition responder_not_implemented :: "('c, 'x) handler_api_scheme \<Rightarrow> responder \<Rightarrow> ('c, reply) io" where
  "responder_not_implemented A r = responder_status A r StNotImplemented []"

definition responder_not_modified :: "('c, 'x) handler_api_scheme \<Rightarrow> responder \<Rightarrow> string \<Rightarrow> ('c, reply) io" where
  "responder_not_modified A r etag = do {
     let token = opt_unwrap_or (cstring_new etag) [];
     rc \<leftarrow> call (c_response_not_modified A (rs_buf r) token);
     frame_write (rs_rc r) rc;
     State_Monad.return Reply
   }"

definition responder_partial ::
  "('c, 'x) handler_api_scheme \<Rightarrow> responder \<Rightarrow> bytes \<Rightarrow> byte_range list \<Rightarrow> string \<Rightarrow> ('c, reply) io" where
  "responder_partial A r body ranges content_type = do {
     let raw = map (\<lambda>g. \<lparr>br_start = br_start g, br_end = br_end g\<rparr>) ranges;
     let ctype = opt_unwrap_or (cstring_new content_type) [];
     rc \<leftarrow> call (c_response_partial A (rs_buf r) (slice_parts body) raw ctype);
     frame_write (rs_rc r) rc;
     State_Monad.return Reply
   }"

definition responder_range_not_satisfiable ::
  "('c, 'x) handler_api_scheme \<Rightarrow> responder \<Rightarrow> u64 \<Rightarrow> ('c, reply) io" where
  "responder_range_not_satisfiable A r total_len = do {
     rc \<leftarrow> call (c_response_range_not_satisfiable A (rs_buf r) total_len);
     frame_write (rs_rc r) rc;
     State_Monad.return Reply
   }"

text \<open>The header array of a streamed response: a header with an interior nul is left out.\<close>

definition header_cstrings :: "(string \<times> string) list \<Rightarrow> (string \<times> string) list" where
  "header_cstrings hs = List.map_filter (\<lambda>(n, v).
     case (cstring_new n, cstring_new v) of (Some n', Some v') \<Rightarrow> Some (n', v') | _ \<Rightarrow> None) hs"

definition stream_headers :: "(string \<times> string) list \<Rightarrow> header_array" where
  "stream_headers hs = map Some (header_cstrings hs) @ [None]"

definition responder_stream ::
  "('c, 'x) handler_api_scheme \<Rightarrow> responder \<Rightarrow> string \<Rightarrow> status \<Rightarrow> (string \<times> string) list \<Rightarrow> ('c, reply) io"
where
  "responder_stream A r path st hs = do {
     let cpath = opt_unwrap_or (cstring_new path) [];
     let token = c_status_str A (status_code st);
     rc \<leftarrow> call_on KServer (rs_server r)
       (c_server_begin_stream A (rs_server r) (rs_conn r) (rs_stream r) cpath token (stream_headers hs));
     frame_write (rs_rc r) rc;
     State_Monad.return Reply
   }"

definition responder_blit :: "('c, 'x) handler_api_scheme \<Rightarrow> responder \<Rightarrow> bytes \<Rightarrow> ('c, reply) io" where
  "responder_blit A r frame = do {
     rc \<leftarrow> call (c_response_blit A (rs_buf r) (slice_parts frame));
     frame_write (rs_rc r) rc;
     State_Monad.return Reply
   }"

definition responder_capturing :: "responder \<Rightarrow> capturing_responder" where
  "responder_capturing r = CapturingResponder r"

definition responder_relay :: "('c, 'x) handler_api_scheme \<Rightarrow> responder \<Rightarrow> ptr \<Rightarrow> ('c, reply) io" where
  "responder_relay A r origin = do {
     rc \<leftarrow> call_on KMessage origin (c_response_relay A (rs_buf r) origin);
     frame_write (rs_rc r) rc;
     State_Monad.return Reply
   }"

definition responder_defer :: "responder \<Rightarrow> ('c, reply) io" where
  "responder_defer r = do { frame_write (rs_rc r) nwep_defer; State_Monad.return Reply }"

definition responder_raw_buf :: "responder \<Rightarrow> ptr" where
  "responder_raw_buf r = rs_buf r"

definition responder_finish :: "responder \<Rightarrow> int \<Rightarrow> ('c, reply) io" where
  "responder_finish r code = do { frame_write (rs_rc r) code; State_Monad.return Reply }"

section \<open>Capturing responder\<close>

definition finish_capture ::
  "('c, 'x) handler_api_scheme \<Rightarrow> ptr \<Rightarrow> nat \<Rightarrow> int \<Rightarrow> ('c, reply \<times> bytes) io" where
  "finish_capture A buf rc_slot build_rc =
     (if build_rc \<noteq> 0 then do {
        frame_write rc_slot build_rc;
        State_Monad.return (Reply, [])
      } else do {
        (rc, _, len) \<leftarrow> call (c_response_capture A buf None);
        frame \<leftarrow>
          (if rc = 0 then do {
             (rc', written, len') \<leftarrow> call (c_response_capture A buf (Some (zeros len)));
             State_Monad.return
               (if rc' = 0 then take len' (overwrite written (zeros len)) else [])
           } else State_Monad.return []);
        frame_write rc_slot 0;
        State_Monad.return (Reply, frame)
      })"

fun capturing_ok :: "('c, 'x) handler_api_scheme \<Rightarrow> capturing_responder \<Rightarrow> bytes \<Rightarrow> ('c, reply \<times> bytes) io"
where
  "capturing_ok A (CapturingResponder r) body = do {
     build_rc \<leftarrow> call (c_response_ok A (rs_buf r) (slice_parts body));
     finish_capture A (rs_buf r) (rs_rc r) build_rc
   }"

fun capturing_status ::
  "('c, 'x) handler_api_scheme \<Rightarrow> capturing_responder \<Rightarrow> status \<Rightarrow> bytes \<Rightarrow> ('c, reply \<times> bytes) io"
where
  "capturing_status A (CapturingResponder r) st body = do {
     let token = c_status_str A (status_code st);
     build_rc \<leftarrow> call (c_response_status A (rs_buf r) token (slice_parts body));
     finish_capture A (rs_buf r) (rs_rc r) build_rc
   }"

section \<open>Trampoline\<close>

type_synonym 'c handler = "request \<Rightarrow> responder \<Rightarrow> ('c, reply option) io"

text \<open>The closure and the address of its box, which is the callback's user data.\<close>

record 'c handler_box =
  hb_id :: nat
  hb_f :: "'c handler"

definition trampoline ::
  "'c handler_box \<Rightarrow> ptr \<Rightarrow> u64 \<Rightarrow> u64 \<Rightarrow> ptr \<Rightarrow> ptr \<Rightarrow> ('c, int) io" where
  "trampoline b server conn stream req_msg resp_buf = do {
     rc \<leftarrow> frame_open 0;
     let req = \<lparr>rq_msg = req_msg, rq_server = server, rq_conn = conn, rq_stream = stream\<rparr>;
     let res = \<lparr>rs_buf = resp_buf, rs_rc = rc, rs_server = server, rs_conn = conn, rs_stream = stream\<rparr>;
     emit (Enter (hb_id b));
     outcome \<leftarrow> hb_f b req res;
     emit (Leave (hb_id b));
     v \<leftarrow> frame_read rc;
     frame_close rc;
     State_Monad.return (case outcome of Some _ \<Rightarrow> v | None \<Rightarrow> error_code Internal)
   }"

section \<open>The terminals as one type\<close>

text \<open>
  A terminal a handler can call, and what calling it does. \<open>terminal_form\<close> is the specification
  of the family that answers with a status: the status, the header set first, and the body.
\<close>

datatype terminal =
    TOk bytes
  | TStatus status bytes
  | TNotFound | TCreated bytes | TAccepted bytes | TNoContent | TMoved string
  | TBadRequest bytes | TUnauthorized bytes | TForbidden bytes | TNotAllowed | TConflict bytes
  | TGone | TTooLarge | TPreconditionFailed | TRateLimited string | TErrorReply bytes
  | TUnavailable | TTimeout | TNotImplemented
  | TNotModified string
  | TPartial bytes "byte_range list" string
  | TRangeNotSatisfiable u64
  | TStream string status "(string \<times> string) list"
  | TBlit bytes
  | TRelay ptr
  | TDefer
  | TFinish int

fun respond :: "('c, 'x) handler_api_scheme \<Rightarrow> responder \<Rightarrow> terminal \<Rightarrow> ('c, reply) io" where
  "respond A r (TOk b) = responder_ok A r b"
| "respond A r (TStatus s b) = responder_status A r s b"
| "respond A r TNotFound = responder_not_found A r"
| "respond A r (TCreated b) = responder_created A r b"
| "respond A r (TAccepted b) = responder_accepted A r b"
| "respond A r TNoContent = responder_no_content A r"
| "respond A r (TMoved l) = responder_moved A r l"
| "respond A r (TBadRequest b) = responder_bad_request A r b"
| "respond A r (TUnauthorized b) = responder_unauthorized A r b"
| "respond A r (TForbidden b) = responder_forbidden A r b"
| "respond A r TNotAllowed = responder_not_allowed A r"
| "respond A r (TConflict b) = responder_conflict A r b"
| "respond A r TGone = responder_gone A r"
| "respond A r TTooLarge = responder_too_large A r"
| "respond A r TPreconditionFailed = responder_precondition_failed A r"
| "respond A r (TRateLimited t) = responder_rate_limited A r t"
| "respond A r (TErrorReply b) = responder_error A r b"
| "respond A r TUnavailable = responder_unavailable A r"
| "respond A r TTimeout = responder_timeout A r"
| "respond A r TNotImplemented = responder_not_implemented A r"
| "respond A r (TNotModified e) = responder_not_modified A r e"
| "respond A r (TPartial b rs ct) = responder_partial A r b rs ct"
| "respond A r (TRangeNotSatisfiable n) = responder_range_not_satisfiable A r n"
| "respond A r (TStream p s hs) = responder_stream A r p s hs"
| "respond A r (TBlit f) = responder_blit A r f"
| "respond A r (TRelay m) = responder_relay A r m"
| "respond A r TDefer = responder_defer r"
| "respond A r (TFinish c) = responder_finish r c"

fun terminal_form :: "terminal \<Rightarrow> (status \<times> (string \<times> string) option \<times> bytes) option" where
  "terminal_form (TStatus s b) = Some (s, None, b)"
| "terminal_form TNotFound = Some (StNotFound, None, [])"
| "terminal_form (TCreated b) = Some (StCreated, None, b)"
| "terminal_form (TAccepted b) = Some (StAccepted, None, b)"
| "terminal_form TNoContent = Some (StNoContent, None, [])"
| "terminal_form (TMoved l) = Some (StMoved, Some (''location'', l), [])"
| "terminal_form (TBadRequest b) = Some (StBadRequest, None, b)"
| "terminal_form (TUnauthorized b) = Some (StUnauthorized, None, b)"
| "terminal_form (TForbidden b) = Some (StForbidden, None, b)"
| "terminal_form TNotAllowed = Some (StNotAllowed, None, [])"
| "terminal_form (TConflict b) = Some (StConflict, None, b)"
| "terminal_form TGone = Some (StGone, None, [])"
| "terminal_form TTooLarge = Some (StTooLarge, None, [])"
| "terminal_form TPreconditionFailed = Some (StPreconditionFailed, None, [])"
| "terminal_form (TRateLimited t) = Some (StRateLimited, Some (''retry-after'', t), [])"
| "terminal_form (TErrorReply b) = Some (StError, None, b)"
| "terminal_form TUnavailable = Some (StUnavailable, None, [])"
| "terminal_form TTimeout = Some (StTimeout, None, [])"
| "terminal_form TNotImplemented = Some (StNotImplemented, None, [])"
| "terminal_form _ = None"

text \<open>The one library call a terminal comes down to, and the handle it goes through.\<close>

definition add_header ::
  "('c, 'x) handler_api_scheme \<Rightarrow> ptr \<Rightarrow> string \<times> string \<Rightarrow> 'c \<Rightarrow> 'c" where
  "add_header A buf h c =
     (if CHR 0x00 \<in> set (fst h) \<or> CHR 0x00 \<in> set (snd h) then c
      else snd (c_response_header A buf (fst h) (snd h) c))"

definition terminal_call ::
  "('c, 'x) handler_api_scheme \<Rightarrow> responder \<Rightarrow> terminal \<Rightarrow> 'c \<Rightarrow> int \<times> 'c" where
  "terminal_call A r t c =
     (case terminal_form t of
        Some (s, h, b) \<Rightarrow>
          c_response_status A (rs_buf r) (c_status_str A (status_code s)) (slice_parts b)
            (case h of None \<Rightarrow> c | Some h' \<Rightarrow> add_header A (rs_buf r) h' c)
      | None \<Rightarrow>
          (case t of
             TOk b \<Rightarrow> c_response_ok A (rs_buf r) (slice_parts b) c
           | TNotModified e \<Rightarrow>
               c_response_not_modified A (rs_buf r) (opt_unwrap_or (cstring_new e) []) c
           | TPartial b gs ct \<Rightarrow>
               c_response_partial A (rs_buf r) (slice_parts b) gs (opt_unwrap_or (cstring_new ct) []) c
           | TRangeNotSatisfiable n \<Rightarrow> c_response_range_not_satisfiable A (rs_buf r) n c
           | TStream p s hs \<Rightarrow>
               c_server_begin_stream A (rs_server r) (rs_conn r) (rs_stream r)
                 (opt_unwrap_or (cstring_new p) []) (c_status_str A (status_code s)) (stream_headers hs) c
           | TBlit f \<Rightarrow> c_response_blit A (rs_buf r) (slice_parts f) c
           | TRelay m \<Rightarrow> c_response_relay A (rs_buf r) m c
           | TFinish v \<Rightarrow> (v, c)
           | _ \<Rightarrow> (nwep_defer, c)))"

fun terminal_uses :: "responder \<Rightarrow> terminal \<Rightarrow> event list" where
  "terminal_uses r (TStream p s hs) = [Use KServer (rs_server r)]"
| "terminal_uses r (TRelay m) = [Use KMessage m]"
| "terminal_uses r t = []"

text \<open>A handler that adds headers and then calls a terminal.\<close>

fun respond_with ::
  "('c, 'x) handler_api_scheme \<Rightarrow> responder \<Rightarrow> (string \<times> string) list \<Rightarrow> terminal \<Rightarrow> ('c, reply) io" where
  "respond_with A r [] t = respond A r t"
| "respond_with A r (h # hs) t = do {
     r' \<leftarrow> responder_header A r (fst h) (snd h);
     respond_with A r' hs t
   }"

section \<open>Lemmas\<close>

lemma run_responder_header [simp]:
  "run_state (responder_header A r n v) w = (r, w\<lparr>lib := add_header A (rs_buf r) (n, v) (lib w)\<rparr>)"
  by (auto simp: responder_header_def add_header_def cstring_new_def)

lemma copy_ranges: "map (\<lambda>g. \<lparr>br_start = br_start g, br_end = br_end g\<rparr>) gs = gs"
  by (induction gs) simp_all

lemmas responder_defs =
  responder_ok_def responder_status_def responder_not_found_def responder_created_def
  responder_accepted_def responder_no_content_def responder_moved_def responder_bad_request_def
  responder_unauthorized_def responder_forbidden_def responder_not_allowed_def
  responder_conflict_def responder_gone_def responder_too_large_def
  responder_precondition_failed_def responder_rate_limited_def responder_error_def
  responder_unavailable_def responder_timeout_def responder_not_implemented_def
  responder_not_modified_def responder_partial_def responder_range_not_satisfiable_def
  responder_stream_def responder_blit_def responder_relay_def responder_defer_def
  responder_finish_def

definition answered :: "nat \<Rightarrow> event list \<Rightarrow> int \<times> 'c \<Rightarrow> 'c world \<Rightarrow> 'c world" where
  "answered slot uses rc_lib w =
     w\<lparr>lib := snd rc_lib, slots := (slots w)[slot := fst rc_lib],
       history := history w @ uses @ [Use KFrame slot]\<rparr>"

lemma run_respond:
  "run_state (respond A r t) w =
     (Reply, answered (rs_rc r) (terminal_uses r t) (terminal_call A r t (lib w)) w)"
  by (cases t) (simp_all add: responder_defs terminal_call_def answered_def copy_ranges Let_def)

lemma run_respond_with:
  "run_state (respond_with A r hs t) w =
     (Reply, answered (rs_rc r) (terminal_uses r t)
        (terminal_call A r t (fold (add_header A (rs_buf r)) hs (lib w))) w)"
proof (induction hs arbitrary: w)
  case Nil
  then show ?case by (simp add: run_respond)
next
  case (Cons h hs)
  then show ?case by (simp add: answered_def)
qed

lemma header_cstrings_filter:
  "header_cstrings hs = filter (\<lambda>(n, v). CHR 0x00 \<notin> set n \<and> CHR 0x00 \<notin> set v) hs"
proof (induction hs)
  case Nil
  then show ?case by (simp add: header_cstrings_def List.map_filter_simps)
next
  case (Cons h hs)
  obtain n v where "h = (n, v)" by (cases h)
  with Cons show ?case
    by (cases "CHR 0x00 \<in> set n"; cases "CHR 0x00 \<in> set v")
      (simp_all add: header_cstrings_def cstring_new_def List.map_filter_simps)
qed

lemma run_trampoline:
  assumes "req = \<lparr>rq_msg = msg, rq_server = server, rq_conn = conn, rq_stream = stream\<rparr>"
    and "res = \<lparr>rs_buf = buf, rs_rc = length (slots w), rs_server = server, rs_conn = conn, rs_stream = stream\<rparr>"
    and "w1 = w\<lparr>slots := slots w @ [0],
      history := history w @ [Acquire KFrame (length (slots w)), Enter (hb_id b)]\<rparr>"
    and "run_state (hb_f b req res) w1 = (outcome, w2)"
  shows "run_state (trampoline b server conn stream msg buf) w =
    (case outcome of
       Some _ \<Rightarrow> if length (slots w) < length (slots w2) then slots w2 ! length (slots w) else 0
     | None \<Rightarrow> - 801,
     w2\<lparr>history := history w2 @ [Leave (hb_id b), Release KFrame (length (slots w))]\<rparr>)"
  using assms by (simp add: trampoline_def Let_def split: option.splits)

definition frame_responder :: "'c world \<Rightarrow> ptr \<Rightarrow> u64 \<Rightarrow> u64 \<Rightarrow> ptr \<Rightarrow> responder" where
  "frame_responder w server conn stream buf =
     \<lparr>rs_buf = buf, rs_rc = length (slots w), rs_server = server, rs_conn = conn, rs_stream = stream\<rparr>"

text \<open>The closure that adds the headers \<open>hs\<close> and answers with \<open>t\<close>, in the box \<open>i\<close>.\<close>

definition plain_handler ::
  "('c, 'x) handler_api_scheme \<Rightarrow> nat \<Rightarrow> (string \<times> string) list \<Rightarrow> terminal \<Rightarrow> 'c handler_box" where
  "plain_handler A i hs t =
     \<lparr>hb_id = i, hb_f = (\<lambda>req res. do { r \<leftarrow> respond_with A res hs t; State_Monad.return (Some r) })\<rparr>"

lemma run_plain_handler:
  "run_state (trampoline (plain_handler A i hs t) server conn stream msg buf) w =
     (let r = frame_responder w server conn stream buf;
          res = terminal_call A r t (fold (add_header A buf) hs (lib w))
      in (fst res,
          w\<lparr>lib := snd res, slots := slots w @ [fst res],
            history := history w @ [Acquire KFrame (length (slots w)), Enter i] @
              terminal_uses r t @ [Use KFrame (length (slots w)), Leave i,
              Release KFrame (length (slots w))]\<rparr>))"
  by (simp add: run_trampoline [OF refl refl refl] plain_handler_def run_respond_with answered_def
      frame_responder_def Let_def del: respond_with.simps)

lemma uses_accepted:
  assumes "\<And>e. e \<in> set es \<Longrightarrow> \<exists>k p. e = Use k p \<and> usable m (k, p)"
  shows "mon_run es m = Some m"
  using assms
proof (induction es)
  case Nil
  then show ?case by simp
next
  case (Cons e es)
  then obtain k p where "e = Use k p" and "usable m (k, p)" by (metis list.set_intros(1))
  with Cons show ?case by simp
qed

text \<open>The handles a terminal needs besides its own frame.\<close>

fun needs :: "ptr \<Rightarrow> terminal \<Rightarrow> (kind \<times> ptr) set" where
  "needs server (TStream p s hs) = {(KServer, server)}"
| "needs server (TRelay m) = {(KMessage, m)}"
| "needs server t = {}"

lemma terminal_uses_accepted:
  "\<forall>h \<in> needs (rs_server r) t. usable m h \<Longrightarrow> mon_run (terminal_uses r t) m = Some m"
  by (cases t) simp_all

lemma terminated_array:
  "takeWhile (\<lambda>h. h \<noteq> None) (map Some xs @ [None]) = map Some xs \<and>
   dropWhile (\<lambda>h. h \<noteq> None) (map Some xs @ [None]) = [None]"
  by (induction xs) auto

text \<open>
  A handler is polite when it only uses what it is lent: the frame of its responder and the server
  of its request. A panic counts as any other return.
\<close>

definition polite :: "'c handler \<Rightarrow> bool" where
  "polite f \<longleftrightarrow> (\<forall>req res m. (KFrame, rs_rc res) \<in> live m \<longrightarrow>
     usable m (KServer, rq_server req) \<longrightarrow> rs_server res = rq_server req \<longrightarrow> preserves m (f req res))"

lemma politeD:
  assumes "polite f" and "coherent w m" and "(KFrame, rs_rc res) \<in> live m"
    and "usable m (KServer, rq_server req)" and "rs_server res = rq_server req"
  shows "coherent (snd (run_state (f req res) w)) m \<and> strong (snd (run_state (f req res) w)) = strong w"
  using assms unfolding polite_def preserves_def by blast

lemma trampoline_preserves:
  fixes b :: "'c handler_box"
  assumes "polite (hb_f b)" and "hb_id b \<in> boxes m" and "usable m (KServer, server)"
  shows "preserves m (trampoline b server conn stream msg buf)"
proof (rule preservesI)
  fix w :: "'c world"
  assume coh: "coherent w m"
  let ?i = "length (slots w)"
  let ?res = "\<lparr>rs_buf = buf, rs_rc = ?i, rs_server = server, rs_conn = conn, rs_stream = stream\<rparr>"
  let ?req = "\<lparr>rq_msg = msg, rq_server = server, rq_conn = conn, rq_stream = stream\<rparr>"
  let ?m = "m\<lparr>live := insert (KFrame, ?i) (live m), running := hb_id b # running m\<rparr>"
  let ?w1 = "w\<lparr>slots := slots w @ [0],
      history := history w @ [Acquire KFrame ?i, Enter (hb_id b)]\<rparr>"
  obtain outcome w2 where run: "run_state (hb_f b ?req ?res) ?w1 = (outcome, w2)"
    by (metis prod.collapse)
  have "coherent ?w1 ?m"
    using coh assms(2) by (auto simp: coherent_def less_Suc_eq)
  then have "coherent (snd (run_state (hb_f b ?req ?res) ?w1)) ?m \<and>
      strong (snd (run_state (hb_f b ?req ?res) ?w1)) = strong ?w1"
    by (rule politeD [OF assms(1)]) (use usable_insert [OF assms(3), of "(KFrame, ?i)"] in simp_all)
  then have w2: "coherent w2 ?m" and st: "strong w2 = strong w" by (simp_all add: run)
  have "(KFrame, ?i) \<notin> live m" and "regs m (KFrame, ?i) = None" and "borrows m (KFrame, ?i) = None"
    using coh by (auto simp: coherent_def)
  then have "judged (w2\<lparr>history := history w2 @ [Leave (hb_id b), Release KFrame ?i]\<rparr>) = Some m"
    using w2 by (simp add: coherent_def fun_upd_idem usable_def)
  with w2 st coh show "coherent (snd (run_state (trampoline b server conn stream msg buf) w)) m \<and>
      strong (snd (run_state (trampoline b server conn stream msg buf) w)) = strong w"
    by (auto simp: coherent_def run_trampoline [OF refl refl refl run])
qed

definition sample_handler_api :: "bytes list handler_api" where
  "sample_handler_api = \<lparr>
     c_message_get_status = (\<lambda>p c. None), c_message_get_header = (\<lambda>p n c. None),
     c_message_get_body = (\<lambda>p c. None), c_message_header_count = (\<lambda>p c. 0),
     c_message_header_at = (\<lambda>p i c. (- 1, None, None)), c_message_free = (\<lambda>p c. c),
     c_server_get_peer_nodeid = (\<lambda>p conn c. ((0, [5]), c)),
     c_server_conn_compression = (\<lambda>p conn c. 1),
     c_request_is_fresh = (\<lambda>p e c. 0),
     c_request_range = (\<lambda>p n e k c. (0, [\<lparr>br_start = 1, br_end = 2\<rparr>], 1)),
     c_status_str = sample_status_str,
     c_response_ok = (\<lambda>p b c. (0, c @ [opt_unwrap_or (fst b) []])),
     c_response_status = (\<lambda>p t b c. (0, c @ [opt_unwrap_or (fst b) []])),
     c_response_not_modified = (\<lambda>p e c. (0, c)),
     c_response_partial = (\<lambda>p b g t c. (0, c)),
     c_response_range_not_satisfiable = (\<lambda>p n c. (0, c)),
     c_response_header = (\<lambda>p n v c. (0, c)),
     c_server_begin_stream = (\<lambda>p i j path t h c. (0, c)),
     c_response_blit = (\<lambda>p f c. (0, c @ [opt_unwrap_or (fst f) []])),
     c_response_relay = (\<lambda>p m c. (0, c)),
     c_response_capture = (\<lambda>p b c. ((0, if b = None then [] else last c, length (last c)), c))\<rparr>"

section \<open>Properties\<close>

text \<open>
  C2. A handler's answer reaches the library unchanged, once: when the closure adds headers and
  calls any of the terminals, the callback returns exactly the code that the terminal's single
  library call returned (the status the terminal names, its header and its body; the deferral
  sentinel for a deferral), the library ends in the state of that call after the headers, and the
  frame's status word was written exactly once. The monitor accepts the call and is back where it
  was, so no frame, box or handle outlives it.
\<close>

theorem handler_answers_once:
  assumes "mon_run (history w) mon_init = Some m" and "i \<in> boxes m" and "\<forall>h \<in> needs server t. usable m h"
    and "(KFrame, length (slots w)) \<notin> live m" and "regs m (KFrame, length (slots w)) = None"
    and "borrows m (KFrame, length (slots w)) = None"
    and "terminal_call A (frame_responder w server conn stream buf) t
      (fold (add_header A buf) hs (lib w)) = (code, c')"
    and "run_state (trampoline (plain_handler A i hs t) server conn stream msg buf) w = (rc, w')"
  shows "rc = code \<and> lib w' = c' \<and> cells w' = cells w \<and>
    mon_run (history w') mon_init = Some m \<and>
    length (filter (\<lambda>e. e = Use KFrame (length (slots w))) (drop (length (history w)) (history w'))) = 1"
proof -
  let ?f = "(KFrame, length (slots w))"
  let ?r = "frame_responder w server conn stream buf"
  let ?m = "m\<lparr>live := insert ?f (live m), running := i # running m\<rparr>"
  have srv: "rs_server ?r = server" by (simp add: frame_responder_def)
  have "mon_run (terminal_uses ?r t) ?m = Some ?m"
    by (rule terminal_uses_accepted) (use assms(3) srv usable_insert [of m _ ?f] in auto)
  then have "mon_run (history w') mon_init = Some m"
    using assms(1,2,4,6,8) by (auto simp: run_plain_handler Let_def fun_upd_idem assms(5) usable_def)
  moreover have "filter (\<lambda>e. e = Use KFrame (length (slots w))) (terminal_uses ?r t) = []"
    by (cases t) simp_all
  ultimately show ?thesis
    using assms(7,8) by (auto simp: run_plain_handler Let_def)
qed

theorem handler_answers_once_witness:
  "fst (run_state (trampoline (plain_handler sample_handler_api 0 [(''a'', ''b'')] TNotFound) 7 1 2 3 4)
     ((world_init [])\<lparr>history := [BoxNew 0, Acquire KServer 7]\<rparr>)) = 0"
proof -
  let ?w = "(world_init [])\<lparr>history := [BoxNew 0, Acquire KServer 7]\<rparr> :: bytes list world"
  let ?m = "\<lparr>live = {(KServer, 7)}, boxes = {0}, regs = (\<lambda>_. None), running = [], borrows = (\<lambda>_. None)\<rparr>"
  let ?run = "run_state (trampoline (plain_handler sample_handler_api 0 [(''a'', ''b'')] TNotFound) 7 1 2 3 4) ?w"
  have m: "mon_run (history ?w) mon_init = Some ?m"
    by (simp add: mon_init_def)
  have c: "terminal_call sample_handler_api (frame_responder ?w 7 1 2 4) TNotFound
      (fold (add_header sample_handler_api 4) [(''a'', ''b'')] (lib ?w)) = (0, [[]])"
    by (simp add: terminal_call_def add_header_def sample_handler_api_def world_init_def slice_parts_def)
  have r: "?run = (fst ?run, snd ?run)" by simp
  show ?thesis
    using handler_answers_once [OF m _ _ _ _ _ c r] by simp
qed

text \<open>
  C13. A panic never reaches C: whatever the closure did before it, the callback returns the code of
  \<^verbatim>\<open>Error::Internal\<close> when the closure panics, and otherwise the value the closure left in the frame's
  status word. In both cases it leaves the closure and closes its frame, so a closure that keeps
  the monitor content keeps the callback content.
\<close>

theorem panic_is_contained:
  fixes b :: "'c handler_box"
  defines "slot \<equiv> \<lambda>w. length (slots (w :: 'c world))"
  assumes "run_state (hb_f b
        \<lparr>rq_msg = msg, rq_server = server, rq_conn = conn, rq_stream = stream\<rparr>
        (frame_responder w server conn stream buf))
      (w\<lparr>slots := slots w @ [0], history := history w @ [Acquire KFrame (slot w), Enter (hb_id b)]\<rparr>)
      = (outcome, w2)"
    and "slot w < length (slots w2)"
    and "mon_run (history w2) mon_init = Some m2" and "running m2 = hb_id b # rest"
    and "usable m2 (KFrame, slot w)" and "reg_alive m2 (KFrame, slot w)"
    and "run_state (trampoline b server conn stream msg buf) w = (rc, w')"
  shows "rc = (case outcome of None \<Rightarrow> error_code Internal | Some _ \<Rightarrow> slots w2 ! slot w) \<and>
    error_code Internal < 0 \<and> lib w' = lib w2 \<and>
    (\<exists>m'. mon_run (history w') mon_init = Some m' \<and> running m' = rest \<and>
       live m' = live m2 - {(KFrame, slot w)} \<and> boxes m' = boxes m2)"
  using assms(8) run_trampoline [OF refl refl refl assms(2) [unfolded frame_responder_def slot_def]]
    assms(3-7)
  by (auto simp: slot_def split: option.splits)

theorem panic_is_contained_witness:
  "fst (run_state (trampoline \<lparr>hb_id = 0, hb_f = (\<lambda>q r. do { _ \<leftarrow> respond sample_handler_api r (TOk [1]);
       State_Monad.return None })\<rparr> 7 1 2 3 4) ((world_init [])\<lparr>history := [BoxNew 0]\<rparr>)) = - 801"
proof -
  let ?b = "\<lparr>hb_id = 0, hb_f = (\<lambda>q r. do { _ \<leftarrow> respond sample_handler_api r (TOk [1]);
       State_Monad.return None })\<rparr>"
  let ?w = "(world_init [])\<lparr>history := [BoxNew 0]\<rparr> :: bytes list world"
  let ?w2 = "?w\<lparr>lib := [[1]], slots := [0], history := [BoxNew 0, Acquire KFrame 0, Enter 0, Use KFrame 0]\<rparr>"
  let ?m2 = "\<lparr>live = {(KFrame, 0)}, boxes = {0}, regs = (\<lambda>_. None), running = [0], borrows = (\<lambda>_. None)\<rparr>"
  let ?run = "run_state (trampoline ?b 7 1 2 3 4) ?w"
  have h: "run_state (hb_f ?b \<lparr>rq_msg = 3, rq_server = 7, rq_conn = 1, rq_stream = 2\<rparr>
      (frame_responder ?w 7 1 2 4))
      (?w\<lparr>slots := slots ?w @ [0],
        history := history ?w @ [Acquire KFrame (length (slots ?w)), Enter (hb_id ?b)]\<rparr>) = (None, ?w2)"
    by (simp add: responder_ok_def frame_responder_def world_init_def sample_handler_api_def slice_parts_def)
  have m: "mon_run (history ?w2) mon_init = Some ?m2"
    by (simp add: mon_init_def usable_def)
  have r: "?run = (fst ?run, snd ?run)" by simp
  show ?thesis
    using panic_is_contained [OF h _ m _ _ _ r, of "[]"] by (simp add: world_init_def usable_def)
qed

text \<open>
  A responder does not outlive its frame safely: once the frame of its call is closed, every
  terminal on it writes through a dangling pointer, and the monitor stops. The type has no lifetime
  that would tie it to the call, so nothing in the crate rules this out.
\<close>

lemma stale_responder_dangles:
  assumes "mon_run (history w) mon_init = Some m" and "(KFrame, rs_rc r) \<notin> live m"
  shows "mon_run (history (snd (run_state (respond A r t) w))) mon_init = None"
proof (cases "mon_run (terminal_uses r t) m")
  case None
  with assms show ?thesis
    by (simp add: run_respond answered_def) (simp add: mon_run_append)
next
  case (Some m')
  then have "live m' = live m"
    by (cases t) (auto split: if_splits)
  with Some assms show ?thesis
    by (simp add: run_respond answered_def usable_def)
qed

text \<open>
  C37. A range request resolves as the library says, and stays inside the 16-entry buffer: an etag
  with an interior nul is refused before the call; a success returns the first \<open>cnt\<close> ranges the
  library wrote, at most 16 of them; the other two outcomes and every error code are kept apart.
  The slice panics only if the library claims more ranges than the buffer holds.
\<close>

theorem range_outcome_exact:
  assumes "\<And>e. etag = Some e \<Longrightarrow> CHR 0x00 \<notin> set e"
    and "c_request_range A (rq_msg q) n etag 16 (lib w) = (rc, written, cnt)"
    and "length written = min cnt 16"
  shows "run_state (request_range A q n etag) w =
    (if rc = 0 \<and> 16 < cnt then None
     else Some
       (if rc = 0 then Inr (Ranges written)
        else if rc = 1 then Inr RangeFull
        else if rc = 2 then Inr RangeUnsatisfiable
        else Inl (error_from_code rc)), w)"
proof -
  have "(case etag of None \<Rightarrow> Inr None
      | Some e \<Rightarrow> map_ok Some (ok_or (cstring_new e) ProtoInvalidHeader)) = Inr etag"
    using assms(1) by (cases etag) (simp_all add: cstring_new_def)
  moreover have "take cnt (overwrite written (replicate 16 zero_range)) = written" if "cnt \<le> 16"
    using that assms(3) take_overwrite [of written "replicate 16 zero_range"] by simp
  ultimately show ?thesis
    using assms(2) by (auto simp: request_range_def range_result_def max_ranges_def Let_def)
qed

theorem range_outcome_exact_witness:
  "run_state (request_range sample_handler_api \<lparr>rq_msg = 3, rq_server = 7, rq_conn = 1, rq_stream = 2\<rparr>
      100 (Some ''tag'')) (world_init []) =
     (Some (Inr (Ranges [\<lparr>br_start = 1, br_end = 2\<rparr>])), world_init [])"
proof -
  let ?q = "\<lparr>rq_msg = 3, rq_server = 7, rq_conn = 1, rq_stream = 2\<rparr>"
  have c: "c_request_range sample_handler_api (rq_msg ?q) 100 (Some ''tag'') 16 (lib (world_init [])) =
      (0, [\<lparr>br_start = 1, br_end = 2\<rparr>], 1)"
    by (simp add: sample_handler_api_def)
  show ?thesis using range_outcome_exact [OF _ c] by simp
qed

text \<open>
  A captured frame is the frame that was sent, and can be sent again: when the library builds
  the response and its capture follows the sizing contract, capturing answers the request with the
  code 0 and returns exactly the frame, and a later \<^verbatim>\<open>blit\<close> of it hands the library those bytes. When
  the build fails the code of the build is the answer and no frame is returned; when only the
  capture fails the request still succeeds, with an empty frame.
\<close>

lemma captured_frame_replays:
  assumes "c_response_ok A (rs_buf r) (slice_parts body) (lib w) = (build, c1)"
    and "c_response_capture A (rs_buf r) None c1 = ((probe, bs, len), c2)"
    and "c_response_capture A (rs_buf r) (Some (zeros len)) c2 = ((0, frame, length frame), c3)"
    and "len = length frame" and "rs_rc r < length (slots w)"
  shows "case run_state (capturing_ok A (responder_capturing r) body) w of ((ans, out), w') \<Rightarrow>
      (build \<noteq> 0 \<longrightarrow> slots w' ! rs_rc r = build \<and> out = [] \<and> lib w' = c1) \<and>
      (build = 0 \<and> probe \<noteq> 0 \<longrightarrow> slots w' ! rs_rc r = 0 \<and> out = []) \<and>
      (build = 0 \<and> probe = 0 \<longrightarrow> slots w' ! rs_rc r = 0 \<and> out = frame \<and> lib w' = c3 \<and>
         (\<forall>r' w''. frame \<noteq> [] \<longrightarrow> lib (snd (run_state (responder_blit A r' out) w'')) =
            snd (c_response_blit A (rs_buf r') (Some frame, length frame) (lib w''))))"
  using assms
  by (auto simp: responder_capturing_def finish_capture_def overwrite_full responder_blit_def
      slice_parts_def split: prod.splits)

text \<open>
  The header array of a streamed response is well formed: it is closed by exactly one null
  entry, at its end, and lists in order exactly the headers whose name and value hold no nul.
\<close>

lemma stream_headers_terminated:
  "takeWhile (\<lambda>h. h \<noteq> None) (stream_headers hs) =
     map Some (filter (\<lambda>(n, v). CHR 0x00 \<notin> set n \<and> CHR 0x00 \<notin> set v) hs) \<and>
   dropWhile (\<lambda>h. h \<noteq> None) (stream_headers hs) = [None]"
  by (simp only: stream_headers_def header_cstrings_filter terminated_array)

end
