(* ===== verification/Server.thy ===== *)
theory Server
  imports Handler
begin

text \<open>
  The owning side of \<^verbatim>\<open>nwep/src/server.rs\<close>: \<^verbatim>\<open>ServerBuilder\<close>, the driven \<^verbatim>\<open>Server\<close> with its
  operations and its \<^verbatim>\<open>Drop\<close>, the out-of-band \<^verbatim>\<open>DeferredResponder\<close> and the shard id of a
  connection id. A tick is a conversation with the library, which runs the handler through the
  trampoline for each request it decodes.
\<close>

section \<open>State and library\<close>

record 'c server_builder =
  sb_identity :: "identity option"
  sb_bind :: "address option"
  sb_handler :: "'c handler option"
  sb_reuse_port :: bool
  sb_max_parked :: "nat option"
  sb_dht_bootstraps :: "bootstrap list"
  sb_dht_announce :: "address option"
  sb_dht_initial_seq :: u64

record 'c server =
  sv_raw :: ptr
  sv_handler :: "'c handler_box option"

record metrics =
  mt_connections_active :: u64
  mt_connections_accepted :: u64
  mt_connections_refused :: u64
  mt_connections_closed :: u64
  mt_bytes_received :: u64
  mt_bytes_sent :: u64
  mt_datagrams_received :: u64
  mt_datagrams_sent :: u64
  mt_requests_dispatched :: u64
  mt_requests_shed :: u64
  mt_parked_active :: u64
  mt_load :: int

text \<open>The snapshot as the library lays it out (\<^verbatim>\<open>nwep-sys/src/lib.rs\<close>).\<close>

record nwep_server_metrics =
  nsm_connections_active :: u64
  nsm_connections_accepted :: u64
  nsm_connections_refused :: u64
  nsm_connections_closed :: u64
  nsm_bytes_received :: u64
  nsm_bytes_sent :: u64
  nsm_datagrams_received :: u64
  nsm_datagrams_sent :: u64
  nsm_requests_dispatched :: u64
  nsm_requests_shed :: u64
  nsm_parked_active :: u64
  nsm_load :: int

record deferred_responder =
  df_server :: ptr
  df_conn :: u64
  df_stream :: u64
  df_headers :: "(string \<times> string) list"

text \<open>The arguments of a request the library hands to the callback: connection, stream, message, buffer.\<close>

type_synonym dispatch = "u64 \<times> u64 \<times> ptr \<times> ptr"

record 'c server_api = "'c handler_api" +
  c_server_listen :: "bytes \<times> bytes \<Rightarrow> bytes \<Rightarrow> 'c \<Rightarrow> (int \<times> ptr) \<times> 'c"
  c_server_listen_reuseport :: "bytes \<times> bytes \<Rightarrow> bytes \<Rightarrow> 'c \<Rightarrow> (int \<times> ptr) \<times> 'c"
  c_server_listen_fd :: "bytes \<times> bytes \<Rightarrow> u64 \<Rightarrow> 'c \<Rightarrow> (int \<times> ptr) \<times> 'c"
  c_server_listen_fd_sharded :: "bytes \<times> bytes \<Rightarrow> u64 \<Rightarrow> u16 \<Rightarrow> 'c \<Rightarrow> (int \<times> ptr) \<times> 'c"
  c_server_set_max_parked :: "ptr \<Rightarrow> nat \<Rightarrow> 'c \<Rightarrow> unit \<times> 'c"
  c_server_set_handler :: "ptr \<Rightarrow> nat \<Rightarrow> 'c \<Rightarrow> int \<times> 'c"
  c_server_close :: "ptr \<Rightarrow> 'c \<Rightarrow> 'c"
  c_server_tick :: "ptr \<Rightarrow> int \<Rightarrow> 'c \<Rightarrow> ('c, dispatch, int, int) session"
  c_server_fd :: "ptr \<Rightarrow> 'c \<Rightarrow> int"
  c_server_next_timeout_ms :: "ptr \<Rightarrow> int \<Rightarrow> 'c \<Rightarrow> int \<times> 'c"
  c_server_local_port :: "ptr \<Rightarrow> 'c \<Rightarrow> u16"
  c_server_local_nodeid :: "ptr \<Rightarrow> 'c \<Rightarrow> int \<times> bytes"
  c_server_stream_send :: "ptr \<Rightarrow> u64 \<Rightarrow> u64 \<Rightarrow> slice \<Rightarrow> 'c \<Rightarrow> int \<times> 'c"
  c_server_stream_end :: "ptr \<Rightarrow> u64 \<Rightarrow> u64 \<Rightarrow> 'c \<Rightarrow> int \<times> 'c"
  c_server_metrics_get :: "ptr \<Rightarrow> nwep_server_metrics \<Rightarrow> 'c \<Rightarrow> int \<times> nwep_server_metrics"
  c_server_load :: "ptr \<Rightarrow> 'c \<Rightarrow> int"
  c_server_set_overloaded :: "ptr \<Rightarrow> int \<Rightarrow> 'c \<Rightarrow> unit \<times> 'c"
  c_server_last_handshake_error :: "ptr \<Rightarrow> 'c \<Rightarrow> int"
  c_server_drain :: "ptr \<Rightarrow> 'c \<Rightarrow> int \<times> 'c"
  c_server_is_drained :: "ptr \<Rightarrow> 'c \<Rightarrow> int"
  c_server_notify :: "ptr \<Rightarrow> u64 \<Rightarrow> string \<Rightarrow> header_array option \<Rightarrow> slice \<Rightarrow> 'c \<Rightarrow> int \<times> 'c"
  c_server_respond_header :: "ptr \<Rightarrow> u64 \<Rightarrow> u64 \<Rightarrow> string \<Rightarrow> string \<Rightarrow> 'c \<Rightarrow> int \<times> 'c"
  c_server_respond :: "ptr \<Rightarrow> u64 \<Rightarrow> u64 \<Rightarrow> string option \<Rightarrow> slice \<Rightarrow> 'c \<Rightarrow> int \<times> 'c"
  c_server_relay :: "ptr \<Rightarrow> u64 \<Rightarrow> u64 \<Rightarrow> ptr \<Rightarrow> 'c \<Rightarrow> int \<times> 'c"
  c_server_respond_blit :: "ptr \<Rightarrow> u64 \<Rightarrow> u64 \<Rightarrow> slice \<Rightarrow> 'c \<Rightarrow> int \<times> 'c"
  c_reuse_port_supported :: "int"
  c_cid_shard_id :: "bytes \<Rightarrow> int"

section \<open>Builder\<close>

definition server_builder :: "'c server_builder" where
  "server_builder = \<lparr>sb_identity = None, sb_bind = None, sb_handler = None, sb_reuse_port = False,
     sb_max_parked = None, sb_dht_bootstraps = [], sb_dht_announce = None, sb_dht_initial_seq = 0\<rparr>"

definition builder_identity :: "identity \<Rightarrow> 'c server_builder \<Rightarrow> 'c server_builder" where
  "builder_identity ident sb = sb\<lparr>sb_identity := Some ident\<rparr>"

definition builder_bind :: "address \<Rightarrow> 'c server_builder \<Rightarrow> 'c server_builder" where
  "builder_bind addr sb = sb\<lparr>sb_bind := Some addr\<rparr>"

definition builder_reuse_port :: "bool \<Rightarrow> 'c server_builder \<Rightarrow> 'c server_builder" where
  "builder_reuse_port on sb = sb\<lparr>sb_reuse_port := on\<rparr>"

definition builder_max_parked :: "nat \<Rightarrow> 'c server_builder \<Rightarrow> 'c server_builder" where
  "builder_max_parked mx sb = sb\<lparr>sb_max_parked := Some mx\<rparr>"

definition builder_dht :: "bootstrap list \<Rightarrow> 'c server_builder \<Rightarrow> 'c server_builder" where
  "builder_dht contacts sb = sb\<lparr>sb_dht_bootstraps := sb_dht_bootstraps sb @ contacts\<rparr>"

definition builder_announce_as :: "address \<Rightarrow> 'c server_builder \<Rightarrow> 'c server_builder" where
  "builder_announce_as addr sb = sb\<lparr>sb_dht_announce := Some addr\<rparr>"

definition builder_dht_initial_seq :: "u64 \<Rightarrow> 'c server_builder \<Rightarrow> 'c server_builder" where
  "builder_dht_initial_seq n sb = sb\<lparr>sb_dht_initial_seq := n\<rparr>"

definition builder_on_request :: "'c handler \<Rightarrow> 'c server_builder \<Rightarrow> 'c server_builder" where
  "builder_on_request f sb = sb\<lparr>sb_handler := Some f\<rparr>"

text \<open>The managed-dht options move out of the builder; the rest of it stays.\<close>

definition take_managed_dht ::
  "'c server_builder \<Rightarrow> (bootstrap list \<times> address option \<times> u64) option \<times> 'c server_builder" where
  "take_managed_dht sb =
     (if sb_dht_bootstraps sb = [] then (None, sb)
      else (Some (sb_dht_bootstraps sb, sb_dht_announce sb, sb_dht_initial_seq sb),
            sb\<lparr>sb_dht_bootstraps := [], sb_dht_announce := None\<rparr>))"

text \<open>An identity taken out of a builder is dropped, and so wiped, when the scope ends.\<close>

definition scoped_identity :: "'c identity_api \<Rightarrow> identity \<Rightarrow> ('c, 'a) io \<Rightarrow> ('c, 'a) io" where
  "scoped_identity I ident act = do { r \<leftarrow> act; identity_drop I ident; State_Monad.return r }"

definition finish_build ::
  "('c, 'x) server_api_scheme \<Rightarrow> 'c server_builder \<Rightarrow> ptr \<Rightarrow> ('c, 'c server) io_result" where
  "finish_build A sb raw = do {
     (case sb_max_parked sb of
        None \<Rightarrow> State_Monad.return ()
      | Some mx \<Rightarrow> call_on KServer raw (c_server_set_max_parked A raw mx));
     (case sb_handler sb of
        None \<Rightarrow> ret_ok \<lparr>sv_raw = raw, sv_handler = None\<rparr>
      | Some f \<Rightarrow> do {
          boxed \<leftarrow> box_new;
          rc \<leftarrow> call_on KServer raw (c_server_set_handler A raw boxed);
          (case error_check rc of
             Inl e \<Rightarrow> do {
               box_drop boxed;
               release KServer raw (c_server_close A raw);
               ret_err e
             }
           | Inr _ \<Rightarrow> do {
               emit (Register KServer raw boxed);
               ret_ok \<lparr>sv_raw = raw, sv_handler = Some \<lparr>hb_id = boxed, hb_f = f\<rparr>\<rparr>
             })
        })
   }"

definition server_build ::
  "'c identity_api \<Rightarrow> ('c, 'x) server_api_scheme \<Rightarrow> 'c server_builder \<Rightarrow> ('c, 'c server) io_result" where
  "server_build I A sb =
     (case sb_identity sb of
        None \<Rightarrow> ret_err ConfigMissing
      | Some ident \<Rightarrow> scoped_identity I ident
          (case sb_bind sb of
             None \<Rightarrow> ret_err ConfigMissing
           | Some addr \<Rightarrow>
               try_ok (with_keypair I ident (\<lambda>kp. checked_out (acquire KServer
                   (if sb_reuse_port sb then c_server_listen_reuseport A kp (address_as_raw addr)
                    else c_server_listen A kp (address_as_raw addr)))))
                 (\<lambda>raw. finish_build A sb raw)))"

definition server_build_from_fd ::
  "'c identity_api \<Rightarrow> ('c, 'x) server_api_scheme \<Rightarrow> 'c server_builder \<Rightarrow> int \<Rightarrow> u16 option \<Rightarrow>
   ('c, 'c server) io_result" where
  "server_build_from_fd I A sb fd shard =
     (case sb_identity sb of
        None \<Rightarrow> ret_err ConfigMissing
      | Some ident \<Rightarrow> scoped_identity I ident
          (try_ok (with_keypair I ident (\<lambda>kp. checked_out (acquire KServer
               (case shard of
                  Some s \<Rightarrow> c_server_listen_fd_sharded A kp (socket_to_c fd) s
                | None \<Rightarrow> c_server_listen_fd A kp (socket_to_c fd)))))
             (\<lambda>raw. finish_build A sb raw)))"

section \<open>Server\<close>

text \<open>
  The callback the library holds. Without a handler the library has no callback to run, so the
  answer of that branch is never asked for.
\<close>

definition server_callback :: "'c server \<Rightarrow> dispatch \<Rightarrow> ('c, int) io" where
  "server_callback sv q =
     (case sv_handler sv of
        None \<Rightarrow> State_Monad.return (error_code Internal)
      | Some b \<Rightarrow> (case q of (conn, stream, msg, buf) \<Rightarrow> trampoline b (sv_raw sv) conn stream msg buf))"

definition server_tick :: "('c, 'x) server_api_scheme \<Rightarrow> 'c server \<Rightarrow> int \<Rightarrow> ('c, unit) io_result" where
  "server_tick A sv now_ms =
     checked (drive KServer (sv_raw sv) (server_callback sv) (c_server_tick A (sv_raw sv) now_ms))"

definition server_fd :: "('c, 'x) server_api_scheme \<Rightarrow> 'c server \<Rightarrow> ('c, int) io" where
  "server_fd A sv = do {
     h \<leftarrow> peek_on KServer (sv_raw sv) (c_server_fd A (sv_raw sv));
     State_Monad.return (socket_from_c h)
   }"

definition timeout_of :: "int \<Rightarrow> u32 option" where
  "timeout_of ms = (if ms < 0 then None else Some (as_u32 ms))"

definition server_next_timeout :: "('c, 'x) server_api_scheme \<Rightarrow> 'c server \<Rightarrow> int \<Rightarrow> ('c, u32 option) io" where
  "server_next_timeout A sv now_ms = do {
     ms \<leftarrow> call_on KServer (sv_raw sv) (c_server_next_timeout_ms A (sv_raw sv) now_ms);
     State_Monad.return (timeout_of ms)
   }"

definition server_local_port :: "('c, 'x) server_api_scheme \<Rightarrow> 'c server \<Rightarrow> ('c, u16) io" where
  "server_local_port A sv = peek_on KServer (sv_raw sv) (c_server_local_port A (sv_raw sv))"

definition server_node_id :: "('c, 'x) server_api_scheme \<Rightarrow> 'c server \<Rightarrow> ('c, node_id) io_result" where
  "server_node_id A sv =
     try_ok (checked_out (peek_on KServer (sv_raw sv) (c_server_local_nodeid A (sv_raw sv))))
       (\<lambda>out. ret_ok (node_id_from_bytes out))"

definition server_stream_send ::
  "('c, 'x) server_api_scheme \<Rightarrow> 'c server \<Rightarrow> u64 \<Rightarrow> u64 \<Rightarrow> bytes \<Rightarrow> ('c, nat) io_result" where
  "server_stream_send A sv conn stream body = do {
     rc \<leftarrow> call_on KServer (sv_raw sv)
       (c_server_stream_send A (sv_raw sv) conn stream (slice_parts body));
     (if rc < 0 then ret_err (error_from_code rc) else ret_ok (nat rc))
   }"

definition server_stream_end ::
  "('c, 'x) server_api_scheme \<Rightarrow> 'c server \<Rightarrow> u64 \<Rightarrow> u64 \<Rightarrow> ('c, unit) io_result" where
  "server_stream_end A sv conn stream =
     checked (call_on KServer (sv_raw sv) (c_server_stream_end A (sv_raw sv) conn stream))"

definition server_peer_node_id ::
  "('c, 'x) server_api_scheme \<Rightarrow> 'c server \<Rightarrow> u64 \<Rightarrow> ('c, node_id) io_result" where
  "server_peer_node_id A sv conn =
     try_ok (checked_out (call_on KServer (sv_raw sv) (c_server_get_peer_nodeid A (sv_raw sv) conn)))
       (\<lambda>out. ret_ok (node_id_from_bytes out))"

definition zero_metrics :: nwep_server_metrics where
  "zero_metrics = \<lparr>nsm_connections_active = 0, nsm_connections_accepted = 0,
     nsm_connections_refused = 0, nsm_connections_closed = 0, nsm_bytes_received = 0, nsm_bytes_sent = 0,
     nsm_datagrams_received = 0, nsm_datagrams_sent = 0, nsm_requests_dispatched = 0,
     nsm_requests_shed = 0, nsm_parked_active = 0, nsm_load = 0\<rparr>"

definition server_metrics :: "('c, 'x) server_api_scheme \<Rightarrow> 'c server \<Rightarrow> ('c, metrics) io" where
  "server_metrics A sv = do {
     (rc, m) \<leftarrow> peek_on KServer (sv_raw sv) (c_server_metrics_get A (sv_raw sv) zero_metrics);
     State_Monad.return \<lparr>
       mt_connections_active = nsm_connections_active m,
       mt_connections_accepted = nsm_connections_accepted m,
       mt_connections_refused = nsm_connections_refused m,
       mt_connections_closed = nsm_connections_closed m,
       mt_bytes_received = nsm_bytes_received m,
       mt_bytes_sent = nsm_bytes_sent m,
       mt_datagrams_received = nsm_datagrams_received m,
       mt_datagrams_sent = nsm_datagrams_sent m,
       mt_requests_dispatched = nsm_requests_dispatched m,
       mt_requests_shed = nsm_requests_shed m,
       mt_parked_active = nsm_parked_active m,
       mt_load = nsm_load m\<rparr>
   }"

definition server_load :: "('c, 'x) server_api_scheme \<Rightarrow> 'c server \<Rightarrow> ('c, int) io" where
  "server_load A sv = peek_on KServer (sv_raw sv) (c_server_load A (sv_raw sv))"

definition server_set_overloaded :: "('c, 'x) server_api_scheme \<Rightarrow> 'c server \<Rightarrow> bool \<Rightarrow> ('c, unit) io" where
  "server_set_overloaded A sv on =
     call_on KServer (sv_raw sv) (c_server_set_overloaded A (sv_raw sv) (if on then 1 else 0))"

definition server_conn_compression ::
  "('c, 'x) server_api_scheme \<Rightarrow> 'c server \<Rightarrow> u64 \<Rightarrow> ('c, compression) io" where
  "server_conn_compression A sv conn = do {
     c \<leftarrow> peek_on KServer (sv_raw sv) (c_server_conn_compression A (sv_raw sv) conn);
     State_Monad.return (compression_of c)
   }"

definition server_last_handshake_error ::
  "('c, 'x) server_api_scheme \<Rightarrow> 'c server \<Rightarrow> ('c, error option) io" where
  "server_last_handshake_error A sv = do {
     rc \<leftarrow> peek_on KServer (sv_raw sv) (c_server_last_handshake_error A (sv_raw sv));
     State_Monad.return (if rc < 0 then Some (error_from_code rc) else None)
   }"

definition server_drain :: "('c, 'x) server_api_scheme \<Rightarrow> 'c server \<Rightarrow> ('c, unit) io_result" where
  "server_drain A sv = checked (call_on KServer (sv_raw sv) (c_server_drain A (sv_raw sv)))"

definition server_is_drained :: "('c, 'x) server_api_scheme \<Rightarrow> 'c server \<Rightarrow> ('c, bool) io" where
  "server_is_drained A sv = do {
     rc \<leftarrow> peek_on KServer (sv_raw sv) (c_server_is_drained A (sv_raw sv));
     State_Monad.return (rc = 1)
   }"

definition server_respond :: "'c server \<Rightarrow> u64 \<Rightarrow> u64 \<Rightarrow> deferred_responder" where
  "server_respond sv conn stream =
     \<lparr>df_server = sv_raw sv, df_conn = conn, df_stream = stream, df_headers = []\<rparr>"

definition server_notify ::
  "('c, 'x) server_api_scheme \<Rightarrow> 'c server \<Rightarrow> u64 \<Rightarrow> string \<Rightarrow> bytes \<Rightarrow> ('c, unit) io_result" where
  "server_notify A sv conn event body =
     try_ok (lift_res (ok_or (cstring_new event) ProtoInvalidHeader)) (\<lambda>cevent.
       checked (call_on KServer (sv_raw sv)
         (c_server_notify A (sv_raw sv) conn cevent None (slice_parts body))))"

definition server_as_ptr :: "'c server \<Rightarrow> ptr" where
  "server_as_ptr sv = sv_raw sv"

section \<open>Deferred responder\<close>

definition deferred_header :: "deferred_responder \<Rightarrow> string \<Rightarrow> string \<Rightarrow> deferred_responder" where
  "deferred_header d name val = d\<lparr>df_headers := df_headers d @ [(name, val)]\<rparr>"

fun deferred_push_headers ::
  "('c, 'x) server_api_scheme \<Rightarrow> deferred_responder \<Rightarrow> (string \<times> string) list \<Rightarrow> ('c, unit) io_result"
where
  "deferred_push_headers A d [] = ret_ok ()"
| "deferred_push_headers A d ((name, val) # hs) =
     try_ok (lift_res (ok_or (cstring_new name) ProtoInvalidHeader)) (\<lambda>n.
     try_ok (lift_res (ok_or (cstring_new val) ProtoInvalidHeader)) (\<lambda>v.
     try_ok (checked (call_on KServer (df_server d)
       (c_server_respond_header A (df_server d) (df_conn d) (df_stream d) n v))) (\<lambda>_.
     deferred_push_headers A d hs)))"

definition deferred_send ::
  "('c, 'x) server_api_scheme \<Rightarrow> deferred_responder \<Rightarrow> status \<Rightarrow> bytes \<Rightarrow> ('c, unit) io_result" where
  "deferred_send A d st body =
     try_ok (deferred_push_headers A d (df_headers d)) (\<lambda>_.
       checked (call_on KServer (df_server d)
         (c_server_respond A (df_server d) (df_conn d) (df_stream d)
           (c_status_str A (status_code st)) (slice_parts body))))"

definition deferred_relay ::
  "('c, 'x) server_api_scheme \<Rightarrow> deferred_responder \<Rightarrow> ptr \<Rightarrow> ('c, unit) io_result" where
  "deferred_relay A d origin = do {
     emit (Use KMessage origin);
     checked (call_on KServer (df_server d)
       (c_server_relay A (df_server d) (df_conn d) (df_stream d) origin))
   }"

definition deferred_blit ::
  "('c, 'x) server_api_scheme \<Rightarrow> deferred_responder \<Rightarrow> bytes \<Rightarrow> ('c, unit) io_result" where
  "deferred_blit A d frame =
     checked (call_on KServer (df_server d)
       (c_server_respond_blit A (df_server d) (df_conn d) (df_stream d) (slice_parts frame)))"

section \<open>Drop and free functions\<close>

definition server_drop :: "('c, 'x) server_api_scheme \<Rightarrow> 'c server \<Rightarrow> ('c, unit) io" where
  "server_drop A sv = do {
     release KServer (sv_raw sv) (c_server_close A (sv_raw sv));
     (case sv_handler sv of
        None \<Rightarrow> State_Monad.return ()
      | Some b \<Rightarrow> box_drop (hb_id b))
   }"

definition reuse_port_supported :: "('c, 'x) server_api_scheme \<Rightarrow> bool" where
  "reuse_port_supported A \<longleftrightarrow> c_reuse_port_supported A \<noteq> 0"

definition cid_shard_id :: "('c, 'x) server_api_scheme \<Rightarrow> bytes \<Rightarrow> u16 option" where
  "cid_shard_id A cid =
     (let rc = c_cid_shard_id A cid in if rc < 0 then None else Some (as_u16 rc))"

section \<open>Operations through a shared borrow\<close>

datatype server_op =
    OpTick int | OpFd | OpNextTimeout int | OpLocalPort | OpNodeId
  | OpStreamSend u64 u64 bytes | OpStreamEnd u64 u64 | OpPeer u64 | OpMetrics | OpLoad
  | OpSetOverloaded bool | OpCompression u64 | OpLastHandshakeError | OpDrain | OpIsDrained
  | OpNotify u64 string bytes
  | OpRespond u64 u64 "(string \<times> string) list" status bytes
  | OpBlit u64 u64 bytes

fun server_run :: "('c, 'x) server_api_scheme \<Rightarrow> 'c server \<Rightarrow> server_op \<Rightarrow> ('c, unit) io" where
  "server_run A sv (OpTick now) = discard (server_tick A sv now)"
| "server_run A sv OpFd = discard (server_fd A sv)"
| "server_run A sv (OpNextTimeout now) = discard (server_next_timeout A sv now)"
| "server_run A sv OpLocalPort = discard (server_local_port A sv)"
| "server_run A sv OpNodeId = discard (server_node_id A sv)"
| "server_run A sv (OpStreamSend c s b) = discard (server_stream_send A sv c s b)"
| "server_run A sv (OpStreamEnd c s) = discard (server_stream_end A sv c s)"
| "server_run A sv (OpPeer c) = discard (server_peer_node_id A sv c)"
| "server_run A sv OpMetrics = discard (server_metrics A sv)"
| "server_run A sv OpLoad = discard (server_load A sv)"
| "server_run A sv (OpSetOverloaded b) = discard (server_set_overloaded A sv b)"
| "server_run A sv (OpCompression c) = discard (server_conn_compression A sv c)"
| "server_run A sv OpLastHandshakeError = discard (server_last_handshake_error A sv)"
| "server_run A sv OpDrain = discard (server_drain A sv)"
| "server_run A sv OpIsDrained = discard (server_is_drained A sv)"
| "server_run A sv (OpNotify c e b) = discard (server_notify A sv c e b)"
| "server_run A sv (OpRespond c s hs st b) = discard
     (deferred_send A (fold (\<lambda>(n, v) d. deferred_header d n v) hs (server_respond sv c s)) st b)"
| "server_run A sv (OpBlit c s f) = discard (deferred_blit A (server_respond sv c s) f)"

lemmas server_op_defs =
  server_fd_def server_next_timeout_def server_local_port_def server_node_id_def
  server_stream_send_def server_stream_end_def server_peer_node_id_def server_metrics_def
  server_load_def server_set_overloaded_def server_conn_compression_def
  server_last_handshake_error_def server_drain_def server_is_drained_def server_notify_def
  server_respond_def deferred_blit_def

section \<open>Ownership\<close>

definition server_owns :: "'c server \<Rightarrow> monitor \<Rightarrow> monitor \<Rightarrow> bool" where
  "server_owns sv m m' \<longleftrightarrow>
     (KServer, sv_raw sv) \<notin> live m \<and> regs m (KServer, sv_raw sv) = None \<and>
     borrows m (KServer, sv_raw sv) = None \<and>
     (case sv_handler sv of
        None \<Rightarrow> m' = m\<lparr>live := insert (KServer, sv_raw sv) (live m)\<rparr>
      | Some b \<Rightarrow> polite (hb_f b) \<and> hb_id b \<notin> boxes m \<and> hb_id b \<notin> set (running m) \<and>
          m' = m\<lparr>live := insert (KServer, sv_raw sv) (live m), boxes := insert (hb_id b) (boxes m),
                 regs := (regs m)((KServer, sv_raw sv) \<mapsto> hb_id b)\<rparr>)"

definition server_pre ::
  "('c, 'x) server_api_scheme \<Rightarrow> 'c server_builder \<Rightarrow> 'c \<Rightarrow> monitor \<Rightarrow> bool" where
  "server_pre A sb c m \<longleftrightarrow>
     (\<forall>f. sb_handler sb = Some f \<longrightarrow> polite f) \<and>
     (\<forall>kp a. fresh_ptr KServer (c_server_listen A kp a) c m) \<and>
     (\<forall>kp a. fresh_ptr KServer (c_server_listen_reuseport A kp a) c m) \<and>
     (\<forall>kp fd. fresh_ptr KServer (c_server_listen_fd A kp fd) c m) \<and>
     (\<forall>kp fd s. fresh_ptr KServer (c_server_listen_fd_sharded A kp fd s) c m)"

lemma server_owns_live: "server_owns sv m m' \<Longrightarrow> usable m' (KServer, sv_raw sv)"
  by (auto simp: server_owns_def usable_def split: option.splits)

lemma server_owns_reg: "server_owns sv m m' \<Longrightarrow> reg_alive m' (KServer, sv_raw sv)"
  by (auto simp: server_owns_def reg_alive_def split: option.splits)

lemma server_callback_preserves:
  assumes "server_owns sv m m'"
  shows "preserves m' (server_callback sv q)"
proof (cases "sv_handler sv")
  case None
  then show ?thesis by (simp add: server_callback_def preserves_return)
next
  case (Some b)
  with assms have "polite (hb_f b)" and "hb_id b \<in> boxes m'"
    by (auto simp: server_owns_def)
  with Some show ?thesis
    by (auto simp: server_callback_def server_owns_live [OF assms] intro!: trampoline_preserves split: prod.split)
qed

lemma server_tick_preserves:
  assumes "server_owns sv m m'"
  shows "preserves m' (server_tick A sv now)"
  unfolding server_tick_def
  by (intro keep_rules server_owns_live [OF assms] server_owns_reg [OF assms]
      server_callback_preserves [OF assms])

lemma deferred_push_preserves:
  "usable m (KServer, df_server d) \<Longrightarrow> preserves m (deferred_push_headers A d hs)"
  by (induction A d hs rule: deferred_push_headers.induct) (auto intro!: keep_rules)

lemma deferred_headers_server:
  "df_server (fold (\<lambda>(n, v) d. deferred_header d n v) hs d) = df_server d"
  by (induction hs arbitrary: d) (auto simp: deferred_header_def)

lemma server_run_preserves:
  assumes "server_owns sv m m'"
  shows "preserves m' (server_run A sv op)"
proof -
  have l: "usable m' (KServer, sv_raw sv)" by (rule server_owns_live [OF assms])
  show ?thesis
  proof (cases op)
    case (OpTick now)
    then show ?thesis by (simp add: preserves_discard server_tick_preserves [OF assms])
  next
    case (OpRespond c s hs st b)
    have "preserves m' (deferred_push_headers A d gs)" if "df_server d = sv_raw sv" for d gs
      using that l by (simp add: deferred_push_preserves)
    with OpRespond l show ?thesis
      by (auto simp: deferred_send_def deferred_headers_server server_respond_def intro!: keep_rules)
  qed (use l in \<open>auto simp: server_op_defs intro!: keep_rules\<close>)
qed

lemma finish_build_outcome:
  assumes "(KServer, raw) \<notin> live m" and "regs m (KServer, raw) = None" and "borrows m (KServer, raw) = None"
    and "\<And>f. sb_handler sb = Some f \<Longrightarrow> polite f"
    and "coherent w (m\<lparr>live := insert (KServer, raw) (live m)\<rparr>)"
    and "run_state (finish_build A sb raw) w = (r, w')"
  shows "case r of Inl e \<Rightarrow> coherent w' m | Inr sv \<Rightarrow> \<exists>m'. server_owns sv m m' \<and> coherent w' m'"
proof -
  let ?m1 = "m\<lparr>live := insert (KServer, raw) (live m)\<rparr>"
  let ?pre = "case sb_max_parked sb of None \<Rightarrow> State_Monad.return ()
      | Some mx \<Rightarrow> call_on KServer raw (c_server_set_max_parked A raw mx)"
  define w1 where "w1 = snd (run_state ?pre w)"
  have us: "usable ?m1 (KServer, raw)" using assms(3) by (simp add: usable_def)
  then have "preserves ?m1 ?pre" by (auto intro!: keep_rules)
  then have w1: "coherent w1 ?m1"
    unfolding w1_def using assms(5) by (rule preservesD)
  note fresh = coherent_fresh [OF w1]
  have run: "run_state (finish_build A sb raw) w =
     run_state (case sb_handler sb of
        None \<Rightarrow> ret_ok \<lparr>sv_raw = raw, sv_handler = None\<rparr>
      | Some f \<Rightarrow> do {
          boxed \<leftarrow> box_new;
          rc \<leftarrow> call_on KServer raw (c_server_set_handler A raw boxed);
          (case error_check rc of
             Inl e \<Rightarrow> do {
               box_drop boxed;
               release KServer raw (c_server_close A raw);
               ret_err e
             }
           | Inr _ \<Rightarrow> do {
               emit (Register KServer raw boxed);
               ret_ok \<lparr>sv_raw = raw, sv_handler = Some \<lparr>hb_id = boxed, hb_f = f\<rparr>\<rparr>
             })
        }) w1"
    by (simp add: finish_build_def w1_def case_prod_beta)
  show ?thesis
  proof (cases "sb_handler sb")
    case None
    with assms(1,2,3,6) w1 run show ?thesis by (auto simp: server_owns_def)
  next
    case (Some f)
    have b: "next_box w1 \<notin> boxes m" "next_box w1 \<notin> set (running m)"
      using w1 by (auto simp: coherent_def)
    have same: "m\<lparr>live := live m, boxes := boxes m, regs := (regs m)((KServer, raw) := None)\<rparr> = m"
      using assms(2) by (simp add: fun_upd_idem)
    show ?thesis
    proof (cases "error_check (fst (c_server_set_handler A raw (next_box w1) (lib w1)))")
      case (Inl e)
      with assms(1,2,3,6) us w1 run Some b same show ?thesis
        by (auto simp: coherent_def reg_alive_def usable_def fun_upd_idem less_Suc_eq)
    next
      case (Inr u)
      with assms(1,2,3,4,6) us w1 run Some b show ?thesis
        by (auto simp: coherent_def server_owns_def usable_def less_Suc_eq)
    qed
  qed
qed

text \<open>Both builders bind a raw server under the lent keypair and then finish the build.\<close>

lemma bound_server_outcome:
  assumes "coherent w m" and "\<And>kp. fresh_ptr KServer (opn kp) (lib w) m"
    and "\<And>f. sb_handler sb = Some f \<Longrightarrow> polite f"
    and "run_state (scoped_identity I ident (try_ok (with_keypair I ident (\<lambda>kp.
        checked_out (acquire KServer (opn kp)))) (\<lambda>raw. finish_build A sb raw))) w = (r, w')"
  shows "case r of Inl e \<Rightarrow> coherent w' m | Inr sv \<Rightarrow> \<exists>m'. server_owns sv m m' \<and> coherent w' m'"
proof -
  define secret where "secret = cell_at w (id_priv ident)"
  define out where "out = opn (id_pub ident, secret) (lib w)"
  obtain rc raw c where out: "out = ((rc, raw), c)" by (metis prod.collapse)
  define w1 where "w1 = snd (run_state (with_keypair I ident (\<lambda>kp. checked_out (acquire KServer (opn kp)))) w)"
  have r1: "fst (run_state (with_keypair I ident (\<lambda>kp. checked_out (acquire KServer (opn kp)))) w) =
      map_ok (\<lambda>_. raw) (error_check rc)"
    using out by (simp add: run_with_keypair Let_def out_def secret_def case_prod_beta)
  have w1h: "history w1 = history w @ (if 0 \<le> rc then [Acquire KServer raw] else [])"
    "slots w1 = slots w" "next_box w1 = next_box w"
    using out by (simp_all add: w1_def run_with_keypair Let_def out_def secret_def case_prod_beta)
  have run: "run_state (scoped_identity I ident (try_ok (with_keypair I ident (\<lambda>kp.
        checked_out (acquire KServer (opn kp)))) (\<lambda>raw. finish_build A sb raw))) w =
      (case map_ok (\<lambda>_. raw) (error_check rc) of
         Inl e \<Rightarrow> (Inl e, snd (run_state (identity_drop I ident) w1))
       | Inr raw \<Rightarrow> (fst (run_state (finish_build A sb raw) w1),
           snd (run_state (identity_drop I ident) (snd (run_state (finish_build A sb raw) w1)))))"
    using r1 by (simp add: scoped_identity_def w1_def case_prod_beta split: sum.split)
  have drop_coh: "coherent (snd (run_state (identity_drop I ident) v)) n = coherent v n" for v n
    by (simp add: identity_drop_def)
  show ?thesis
  proof (cases "rc < 0")
    case True
    then have "coherent w1 m"
      using coherent_same [OF assms(1)] w1h by simp
    with True assms(4) run drop_coh show ?thesis
      by (auto simp: error_check_def)
  next
    case False
    then have ok: "error_check rc = Inr ()" by (simp add: error_check_def)
    have fr: "(KServer, raw) \<notin> live m" "regs m (KServer, raw) = None" "borrows m (KServer, raw) = None"
      using assms(2) [of "(id_pub ident, secret)"] False out by (auto simp: fresh_ptr_def out_def)
    have w1: "coherent w1 (m\<lparr>live := insert (KServer, raw) (live m)\<rparr>)"
      using assms(1) w1h False by (auto simp: coherent_def)
    obtain r2 w2 where fb: "run_state (finish_build A sb raw) w1 = (r2, w2)" by (metis prod.collapse)
    have "case r2 of Inl e \<Rightarrow> coherent w2 m | Inr sv \<Rightarrow> \<exists>m'. server_owns sv m m' \<and> coherent w2 m'"
      by (rule finish_build_outcome [OF fr assms(3) w1 fb])
    with assms(4) run ok fb show ?thesis
      by (auto simp: drop_coh split: sum.splits)
  qed
qed

lemma server_build_outcome:
  assumes "coherent w m" and "server_pre A sb (lib w) m"
    and "run_state (server_build I A sb) w = (r, w')"
  shows "case r of Inl e \<Rightarrow> coherent w' m | Inr sv \<Rightarrow> \<exists>m'. server_owns sv m m' \<and> coherent w' m'"
proof (cases "sb_identity sb")
  case None
  with assms show ?thesis by (auto simp: server_build_def)
next
  case id: (Some ident)
  show ?thesis
  proof (cases "sb_bind sb")
    case None
    with id assms show ?thesis
      by (auto simp: server_build_def scoped_identity_def identity_drop_def)
  next
    case (Some addr)
    let ?opn = "\<lambda>kp. if sb_reuse_port sb then c_server_listen_reuseport A kp (address_as_raw addr)
      else c_server_listen A kp (address_as_raw addr)"
    have "fresh_ptr KServer (?opn kp) (lib w) m" for kp
      using assms(2) by (cases kp) (auto simp: server_pre_def)
    moreover have "sb_handler sb = Some f \<Longrightarrow> polite f" for f
      using assms(2) by (simp add: server_pre_def)
    ultimately show ?thesis
      using assms(3) id Some bound_server_outcome [OF assms(1), of ?opn sb I ident A]
      by (simp add: server_build_def)
  qed
qed

lemma server_build_from_fd_outcome:
  assumes "coherent w m" and "server_pre A sb (lib w) m"
    and "run_state (server_build_from_fd I A sb fd shard) w = (r, w')"
  shows "case r of Inl e \<Rightarrow> coherent w' m | Inr sv \<Rightarrow> \<exists>m'. server_owns sv m m' \<and> coherent w' m'"
proof (cases "sb_identity sb")
  case None
  with assms show ?thesis by (auto simp: server_build_from_fd_def)
next
  case (Some ident)
  let ?opn = "\<lambda>kp. case shard of Some s \<Rightarrow> c_server_listen_fd_sharded A kp (socket_to_c fd) s
      | None \<Rightarrow> c_server_listen_fd A kp (socket_to_c fd)"
  have "fresh_ptr KServer (?opn kp) (lib w) m" for kp
    using assms(2) by (cases kp; cases shard) (auto simp: server_pre_def)
  moreover have "sb_handler sb = Some f \<Longrightarrow> polite f" for f
    using assms(2) by (simp add: server_pre_def)
  ultimately show ?thesis
    using assms(3) Some bound_server_outcome [OF assms(1), of ?opn sb I ident A]
    by (simp add: server_build_from_fd_def)
qed

lemma server_drop_outcome:
  assumes "server_owns sv m m'" and "coherent w m'"
  shows "coherent (snd (run_state (server_drop A sv) w)) m"
proof (cases "sv_handler sv")
  case None
  then have m': "m' = m\<lparr>live := insert (KServer, sv_raw sv) (live m)\<rparr>"
    and "(KServer, sv_raw sv) \<notin> live m" and "regs m (KServer, sv_raw sv) = None"
    and "borrows m (KServer, sv_raw sv) = None"
    using assms(1) by (auto simp: server_owns_def)
  with None assms(2) show ?thesis
    by (auto simp: coherent_def server_drop_def usable_def fun_upd_idem)
next
  case (Some b)
  then have o: "(KServer, sv_raw sv) \<notin> live m" "regs m (KServer, sv_raw sv) = None"
    "borrows m (KServer, sv_raw sv) = None" "hb_id b \<notin> boxes m"
    "m' = m\<lparr>live := insert (KServer, sv_raw sv) (live m), boxes := insert (hb_id b) (boxes m),
       regs := (regs m)((KServer, sv_raw sv) \<mapsto> hb_id b)\<rparr>"
    using assms(1) by (auto simp: server_owns_def)
  have nr: "hb_id b \<notin> set (running m)"
    using Some assms(1) by (simp add: server_owns_def)
  show ?thesis
    using Some assms(2) o nr
    by (auto simp: coherent_def server_drop_def reg_alive_def usable_def fun_upd_idem)
qed

interpretation server_life: owned_handle "server_build I A sb" "server_drop A"
  "\<lambda>sv. range (server_run A sv)" server_owns "server_pre A sb" for I A sb
proof (unfold_locales, goal_cases)
  case (1 w m e w')
  then show ?case using server_build_outcome by fastforce
next
  case (2 w m h w')
  then show ?case using server_build_outcome by fastforce
next
  case (3 h m m' u)
  then show ?case using server_run_preserves by blast
next
  case (4 h m m' w)
  then show ?case by (rule server_drop_outcome)
qed

interpretation server_fd_life: owned_handle "server_build_from_fd I A sb fd shard" "server_drop A"
  "\<lambda>sv. range (server_run A sv)" server_owns "server_pre A sb" for I A sb fd shard
proof (unfold_locales, goal_cases)
  case (1 w m e w')
  then show ?case using server_build_from_fd_outcome by fastforce
next
  case (2 w m h w')
  then show ?case using server_build_from_fd_outcome by fastforce
qed (use server_run_preserves server_drop_outcome in blast)+

section \<open>Lemmas for the properties\<close>

lemma finish_build_cells [simp]: "cells (snd (run_state (finish_build A sb raw) w)) = cells w"
  by (auto simp: finish_build_def split: option.splits sum.splits prod.splits)

lemma bound_server_cells:
  assumes "wipes I" and "id_priv ident < length (cells w)"
    and "run_state (scoped_identity I ident (try_ok (with_keypair I ident (\<lambda>kp.
        checked_out (acquire KServer (opn kp)))) (\<lambda>raw. finish_build A sb raw))) w = (r, w')"
  shows "cells w' = (cells w)[id_priv ident := zeros (length (cell_at w (id_priv ident)))] @
    [zeros (length (cell_at w (id_priv ident)))]"
proof -
  define w1 where "w1 = snd (run_state (with_keypair I ident (\<lambda>kp. checked_out (acquire KServer (opn kp)))) w)"
  have c1: "cells w1 = cells w @ [zeros (length (cell_at w (id_priv ident)))]"
    using assms(1) by (simp add: w1_def run_with_keypair Let_def case_prod_beta nth_append)
  have "w' = snd (run_state (identity_drop I ident)
      (case fst (run_state (with_keypair I ident (\<lambda>kp. checked_out (acquire KServer (opn kp)))) w) of
         Inl e \<Rightarrow> w1 | Inr raw \<Rightarrow> snd (run_state (finish_build A sb raw) w1)))"
    using assms(3) by (auto simp: scoped_identity_def w1_def case_prod_beta split: sum.splits)
  then show ?thesis
    using c1 assms(1,2)
    by (auto simp: identity_drop_def cell_at_def nth_append list_update_append split: sum.splits)
qed

definition clean_header :: "string \<times> string \<Rightarrow> bool" where
  "clean_header h \<longleftrightarrow> CHR 0x00 \<notin> set (fst h) \<and> CHR 0x00 \<notin> set (snd h)"

definition push_header ::
  "('c, 'x) server_api_scheme \<Rightarrow> deferred_responder \<Rightarrow> string \<times> string \<Rightarrow> 'c \<Rightarrow> 'c" where
  "push_header A d h c =
     snd (c_server_respond_header A (df_server d) (df_conn d) (df_stream d) (fst h) (snd h) c)"

lemma deferred_push_prefix:
  assumes "\<And>n v c. 0 \<le> fst (c_server_respond_header A (df_server d) (df_conn d) (df_stream d) n v c)"
    and "\<forall>h \<in> set good. clean_header h"
  shows "run_state (deferred_push_headers A d (good @ rest)) w =
    run_state (deferred_push_headers A d rest)
      (w\<lparr>lib := fold (push_header A d) good (lib w),
         history := history w @ replicate (length good) (Use KServer (df_server d))\<rparr>)"
  using assms(2)
proof (induction good arbitrary: w)
  case Nil
  then show ?case by simp
next
  case (Cons h good)
  obtain n v where h: "h = (n, v)" by (cases h)
  have "cstring_new n = Some n" "cstring_new v = Some v"
    using Cons.prems h by (simp_all add: clean_header_def cstring_new_def)
  moreover have "error_check (fst (c_server_respond_header A (df_server d) (df_conn d) (df_stream d) n v c)) = Inr ()" for c
    using assms(1) by (simp add: error_check_def not_less)
  ultimately show ?case
    using Cons.IH Cons.prems h by (simp add: push_header_def)
qed

lemma deferred_push_bad:
  assumes "\<not> clean_header h"
  shows "run_state (deferred_push_headers A d (h # rest)) w = (Inl ProtoInvalidHeader, w)"
  using assms by (cases h) (auto simp: clean_header_def cstring_new_def)

text \<open>The call that binds the socket, by the builder's options.\<close>

definition listen_call ::
  "('c, 'x) server_api_scheme \<Rightarrow> 'c server_builder \<Rightarrow> address \<Rightarrow> bytes \<times> bytes \<Rightarrow> 'c \<Rightarrow> (int \<times> ptr) \<times> 'c"
where
  "listen_call A sb addr kp =
     (if sb_reuse_port sb then c_server_listen_reuseport A kp (address_raw addr)
      else c_server_listen A kp (address_raw addr))"

definition parked_lib :: "('c, 'x) server_api_scheme \<Rightarrow> 'c server_builder \<Rightarrow> ptr \<Rightarrow> 'c \<Rightarrow> 'c" where
  "parked_lib A sb raw c =
     (case sb_max_parked sb of None \<Rightarrow> c | Some mx \<Rightarrow> snd (c_server_set_max_parked A raw mx c))"

lemma finish_build_result:
  "fst (run_state (finish_build A sb raw) w) =
     (case sb_handler sb of
        None \<Rightarrow> Inr \<lparr>sv_raw = raw, sv_handler = None\<rparr>
      | Some f \<Rightarrow>
          map_ok (\<lambda>_. \<lparr>sv_raw = raw, sv_handler = Some \<lparr>hb_id = next_box w, hb_f = f\<rparr>\<rparr>)
            (error_check (fst (c_server_set_handler A raw (next_box w) (parked_lib A sb raw (lib w))))))"
  by (auto simp: finish_build_def parked_lib_def case_prod_beta split: option.split sum.split)

definition sample_server_api :: "bytes list server_api" where
  "sample_server_api = handler_api.extend sample_handler_api (server_api.fields
     (\<lambda>kp a c. ((0, 7), c @ [a])) (\<lambda>kp a c. ((0, 7), c)) (\<lambda>kp fd c. ((0, 7), c))
     (\<lambda>kp fd s c. ((0, 7), c)) (\<lambda>p n c. ((), c)) (\<lambda>p b c. (0, c)) (\<lambda>p c. c)
     (\<lambda>p now c. Callback (1, 2, 3, 4) c (\<lambda>a c'. Finish 0 c'))
     (\<lambda>p c. 5) (\<lambda>p now c. (250, c)) (\<lambda>p c. 443) (\<lambda>p c. (0, [6]))
     (\<lambda>p i j b c. (int (snd b), c)) (\<lambda>p i j c. (0, c)) (\<lambda>p m c. (0, m)) (\<lambda>p c. 3)
     (\<lambda>p on c. ((), c)) (\<lambda>p c. 0) (\<lambda>p c. (0, c)) (\<lambda>p c. 0) (\<lambda>p i e h b c. (0, c))
     (\<lambda>p i j n v c. (0, c @ [map (\<lambda>x. of_nat (of_char x)) n])) (\<lambda>p i j t b c. (0, c @ [[200]]))
     (\<lambda>p i j m c. (0, c)) (\<lambda>p i j f c. (0, c)) 1 (\<lambda>cid. if cid = [] then - 1 else 9))"

definition sample_builder :: "bytes list server_builder" where
  "sample_builder = builder_on_request (\<lambda>req res. do { r \<leftarrow> responder_ok sample_server_api res [1]; State_Monad.return (Some r) })
     (builder_bind (Address [8]) (builder_identity \<lparr>id_node = NodeId [98], id_pub = [97], id_priv = 0\<rparr> server_builder))"

lemma sample_handler_polite:
  "polite (\<lambda>req res. do { r \<leftarrow> responder_ok A res b; State_Monad.return (Some r) })"
  by (auto simp: polite_def responder_ok_def intro!: keep_rules)

lemma sample_server_pre: "server_pre sample_server_api sample_builder c mon_init"
  by (auto simp: server_pre_def sample_builder_def builder_on_request_def builder_bind_def
      builder_identity_def server_builder_def sample_handler_polite fresh_ptr_def mon_init_def
      split: prod.splits)

lemma coherent_init [simp]: "coherent ((world_init c)\<lparr>cells := cs\<rparr>) mon_init"
  by (simp add: coherent_def world_init_def mon_init_def)

section \<open>Properties\<close>

text \<open>
  C3. A server leaks nothing and is never used after it is freed: build it either way (bound, or
  adopting a socket), run any sequence of its operations, among them ticks during which the library
  runs the handler any number of times, and drop it. The monitor accepts the whole life, on the
  paths where building fails too, and ends with exactly the handles, boxes and registrations it
  started with. In particular the socket closes before the handler's box is freed.
\<close>

theorem server_life_is_clean:
  assumes "coherent w m" and "server_pre A sb (lib w) m"
  shows "coherent (snd (run_state (lifecycle (server_build I A sb) (server_drop A)
      (\<lambda>sv. map (server_run A sv) ops)) w)) m \<and>
    coherent (snd (run_state (lifecycle (server_build_from_fd I A sb fd shard) (server_drop A)
      (\<lambda>sv. map (server_run A sv) ops)) w)) m"
  using server_life.lifecycle_clean [OF assms, of "\<lambda>sv. map (server_run A sv) ops" I]
    server_fd_life.lifecycle_clean [OF assms, of "\<lambda>sv. map (server_run A sv) ops" I fd shard]
  by auto

theorem server_life_is_clean_witness:
  "coherent (snd (run_state (lifecycle (server_build sample_identity_api sample_server_api sample_builder)
      (server_drop sample_server_api)
      (\<lambda>sv. map (server_run sample_server_api sv) [OpTick 0, OpDrain, OpTick 9]))
    ((world_init [])\<lparr>cells := [[5]]\<rparr>))) mon_init"
  using server_life_is_clean [OF coherent_init sample_server_pre] by blast

text \<open>
  Building a server consumes its identity and leaves no key behind: on every path, success,
  missing bind address, failed listen and failed handler registration alike, the identity's own key
  cell and every temporary copy end zeroed, and no other cell changes.
\<close>

lemma server_build_wipes_identity:
  assumes "wipes I" and "sb_identity sb = Some ident" and "id_priv ident < length (cells w)"
    and "run_state (server_build I A sb) w = (r, w')"
  shows "residue w w' = {} \<and> cell_at w' (id_priv ident) = zeros (length (cell_at w (id_priv ident))) \<and>
    (\<forall>i. i < length (cells w) \<longrightarrow> i \<noteq> id_priv ident \<longrightarrow> cell_at w' i = cell_at w i)"
proof (cases "sb_bind sb")
  case None
  then have "cells w' = (cells w)[id_priv ident := zeros (length (cell_at w (id_priv ident)))]"
    using assms by (auto simp: server_build_def scoped_identity_def identity_drop_def)
  then show ?thesis using assms(3) by (auto simp: residue_def cell_at_def)
next
  case (Some addr)
  then have "cells w' = (cells w)[id_priv ident := zeros (length (cell_at w (id_priv ident)))] @
      [zeros (length (cell_at w (id_priv ident)))]"
    using assms(2,4) bound_server_cells [OF assms(1,3)] by (auto simp: server_build_def)
  then show ?thesis
    using assms(3) by (auto simp: residue_def cell_at_def nth_append less_Suc_eq split: if_splits)
qed

lemma server_build_from_fd_wipes_identity:
  assumes "wipes I" and "sb_identity sb = Some ident" and "id_priv ident < length (cells w)"
    and "run_state (server_build_from_fd I A sb fd shard) w = (r, w')"
  shows "residue w w' = {} \<and> cell_at w' (id_priv ident) = zeros (length (cell_at w (id_priv ident))) \<and>
    (\<forall>i. i < length (cells w) \<longrightarrow> i \<noteq> id_priv ident \<longrightarrow> cell_at w' i = cell_at w i)"
proof -
  have "cells w' = (cells w)[id_priv ident := zeros (length (cell_at w (id_priv ident)))] @
      [zeros (length (cell_at w (id_priv ident)))]"
    using assms(2,4) bound_server_cells [OF assms(1,3)] by (auto simp: server_build_from_fd_def)
  then show ?thesis
    using assms(3) by (auto simp: residue_def cell_at_def nth_append less_Suc_eq split: if_splits)
qed

text \<open>
  What building a server decides, step by step: a missing identity, then a missing bind address,
  is \<^verbatim>\<open>ConfigMissing\<close>; then the status of the listen call the options choose, made with exactly the
  identity's keys; then, if there is a handler, the status of its registration. A server that is
  returned holds the handle the library made and the handler in its box.
\<close>

lemma server_build_decides:
  "fst (run_state (server_build I A sb) w) =
    (case sb_identity sb of
       None \<Rightarrow> Inl ConfigMissing
     | Some ident \<Rightarrow>
         (case sb_bind sb of
            None \<Rightarrow> Inl ConfigMissing
          | Some addr \<Rightarrow>
              (case listen_call A sb addr (id_pub ident, cell_at w (id_priv ident)) (lib w) of
                 ((rc, raw), c) \<Rightarrow>
                   if rc < 0 then Inl (error_from_code rc)
                   else (case sb_handler sb of
                           None \<Rightarrow> Inr \<lparr>sv_raw = raw, sv_handler = None\<rparr>
                         | Some f \<Rightarrow>
                             map_ok (\<lambda>_. \<lparr>sv_raw = raw, sv_handler = Some \<lparr>hb_id = next_box w, hb_f = f\<rparr>\<rparr>)
                               (error_check (fst (c_server_set_handler A raw (next_box w)
                                 (parked_lib A sb raw c))))))))"
  by (auto simp: server_build_def scoped_identity_def listen_call_def address_as_raw_def error_check_def
      run_with_keypair Let_def case_prod_beta finish_build_result split: option.split)

text \<open>
  A deferred answer is all or nothing about its headers: the headers are queued in order; if all
  are free of nul bytes the response call follows and its status is the result; at the first header
  with a nul the send stops with \<^verbatim>\<open>ProtoInvalidHeader\<close>, the headers before it already queued and the
  response never sent.
\<close>

lemma deferred_send_order:
  assumes "\<And>n v c. 0 \<le> fst (c_server_respond_header A (df_server d) (df_conn d) (df_stream d) n v c)"
    and "df_headers d = good @ rest" and "\<forall>h \<in> set good. clean_header h"
    and "rest \<noteq> [] \<Longrightarrow> \<not> clean_header (hd rest)"
    and "c_server_respond A (df_server d) (df_conn d) (df_stream d) (c_status_str A (status_code st))
      (slice_parts body) (fold (push_header A d) good (lib w)) = (rc, c')"
    and "run_state (deferred_send A d st body) w = (r, w')"
  shows "if rest = [] then r = error_check rc \<and> lib w' = c'
    else r = Inl ProtoInvalidHeader \<and> lib w' = fold (push_header A d) good (lib w)"
proof (cases rest)
  case Nil
  then show ?thesis
    using assms(2,5,6) deferred_push_prefix [OF assms(1,3), of "[]"]
    by (auto simp: deferred_send_def split: prod.splits)
next
  case (Cons h hs)
  then have "\<not> clean_header h" using assms(4) by simp
  then show ?thesis
    using assms(2,6) Cons
    by (auto simp: deferred_send_def deferred_push_prefix [OF assms(1,3)] deferred_push_bad
        simp del: deferred_push_headers.simps)
qed

text \<open>
  The sentinel results of the library decode without loss: a negative timeout, shard id or
  handshake status is \<^verbatim>\<open>None\<close>, a negative send is the error of its code, and a value that is not
  negative survives the narrowing cast, for a timeout of any \<^verbatim>\<open>c_int\<close> and for a 16-bit shard id.
\<close>

lemma sentinels_decode:
  assumes "ms < 2 ^ 31" and "c_cid_shard_id A cid < 2 ^ 16"
  shows "(timeout_of ms = None \<longleftrightarrow> ms < 0) \<and> (0 \<le> ms \<longrightarrow> map_option uint (timeout_of ms) = Some ms) \<and>
    (cid_shard_id A cid = None \<longleftrightarrow> c_cid_shard_id A cid < 0) \<and>
    (0 \<le> c_cid_shard_id A cid \<longrightarrow> map_option uint (cid_shard_id A cid) = Some (c_cid_shard_id A cid)) \<and>
    fst (run_state (server_stream_send A sv conn stream body) w) =
      (let rc = fst (c_server_stream_send A (sv_raw sv) conn stream (slice_parts body) (lib w))
       in if rc < 0 then Inl (error_from_code rc) else Inr (nat rc)) \<and>
    fst (run_state (server_last_handshake_error A sv) w) =
      (let rc = c_server_last_handshake_error A (sv_raw sv) (lib w)
       in if rc < 0 then Some (error_from_code rc) else None)"
  using assms
  by (simp add: timeout_of_def cid_shard_id_def Let_def uint_as_u32 uint_as_u16 server_stream_send_def
      server_last_handshake_error_def)

text \<open>
  Taking the managed-dht options out of a builder does not change the server it builds: both
  builders behave identically before and after, the options come out exactly as set (nothing when
  no contact was configured), and a second take finds nothing.
\<close>

lemma take_managed_dht_transparent:
  "server_build I A (snd (take_managed_dht sb)) = server_build I A sb \<and>
   server_build_from_fd I A (snd (take_managed_dht sb)) fd shard = server_build_from_fd I A sb fd shard \<and>
   fst (take_managed_dht sb) = (case sb_dht_bootstraps sb of [] \<Rightarrow> None
     | _ \<Rightarrow> Some (sb_dht_bootstraps sb, sb_dht_announce sb, sb_dht_initial_seq sb)) \<and>
   fst (take_managed_dht (snd (take_managed_dht sb))) = None"
proof -
  have f: "finish_build A (snd (take_managed_dht sb)) = finish_build A sb"
    by (rule ext) (simp add: finish_build_def take_managed_dht_def)
  have k: "sb_identity (snd (take_managed_dht sb)) = sb_identity sb"
    "sb_bind (snd (take_managed_dht sb)) = sb_bind sb"
    "sb_reuse_port (snd (take_managed_dht sb)) = sb_reuse_port sb"
    by (simp_all add: take_managed_dht_def)
  show ?thesis
    unfolding server_build_def server_build_from_fd_def f k
    by (auto simp: take_managed_dht_def split: list.split)
qed

end
