(* ===== verification/Response.thy ===== *)
theory Response
  imports Message Wire
begin

text \<open>
  The owned response of \<^verbatim>\<open>nwep/src/client.rs\<close>: a \<^verbatim>\<open>Response\<close> owns its message, reads it through
  accessors and frees it on \<^verbatim>\<open>Drop\<close>. \<open>owned_response\<close> is how every call that returns a message
  (a send, a poll, a cache hit, a notify push) hands one over.
\<close>

section \<open>State and library\<close>

datatype response = Response (rp_msg: ptr)

record 'c response_api = "'c message_api" +
  c_response_verify :: "ptr \<Rightarrow> bytes \<Rightarrow> string \<Rightarrow> u64 \<Rightarrow> 'c \<Rightarrow> int"

section \<open>Operations\<close>

definition response_status :: "('c, 'x) response_api_scheme \<Rightarrow> response \<Rightarrow> ('c, status option) io" where
  "response_status A r = do {
     p \<leftarrow> peek_on KMessage (rp_msg r) (c_message_get_status A (rp_msg r));
     State_Monad.return (case p of
       None \<Rightarrow> None
     | Some t \<Rightarrow> Some (status_from_token (opt_unwrap_or (to_str t) ''error'')))
   }"

definition response_header :: "('c, 'x) response_api_scheme \<Rightarrow> response \<Rightarrow> string \<Rightarrow> ('c, string option) io" where
  "response_header A r name =
     (case cstring_new name of
        None \<Rightarrow> State_Monad.return None
      | Some cname \<Rightarrow> do {
          p \<leftarrow> peek_on KMessage (rp_msg r) (c_message_get_header A (rp_msg r) cname);
          State_Monad.return (case p of None \<Rightarrow> None | Some v \<Rightarrow> to_str v)
        })"

definition response_body :: "('c, 'x) response_api_scheme \<Rightarrow> response \<Rightarrow> ('c, bytes) io" where
  "response_body A r = do {
     p \<leftarrow> peek_on KMessage (rp_msg r) (c_message_get_body A (rp_msg r));
     State_Monad.return (case p of None \<Rightarrow> [] | Some bs \<Rightarrow> if length bs = 0 then [] else bs)
   }"

definition response_headers :: "('c, 'x) response_api_scheme \<Rightarrow> response \<Rightarrow> ('c, headers) io" where
  "response_headers A r = do { emit (Use KMessage (rp_msg r)); headers_new A (rp_msg r) }"

definition response_drop :: "('c, 'x) response_api_scheme \<Rightarrow> response \<Rightarrow> ('c, unit) io" where
  "response_drop A r = release KMessage (rp_msg r) (c_message_free A (rp_msg r))"

text \<open>\<^verbatim>\<open>into_body\<close> takes the response by value, so it drops it.\<close>

definition response_into_body :: "('c, 'x) response_api_scheme \<Rightarrow> response \<Rightarrow> ('c, bytes) io" where
  "response_into_body A r = do {
     body \<leftarrow> response_body A r;
     response_drop A r;
     State_Monad.return body
   }"

definition response_as_raw :: "response \<Rightarrow> ptr" where
  "response_as_raw r = rp_msg r"

definition response_from_raw :: "ptr \<Rightarrow> response" where
  "response_from_raw msg = Response msg"

definition response_verify ::
  "('c, 'x) response_api_scheme \<Rightarrow> response \<Rightarrow> bytes \<Rightarrow> string \<Rightarrow> u64 \<Rightarrow> ('c, unit) io_result" where
  "response_verify A r pubkey path now =
     try_ok (lift_res (ok_or (cstring_new path) ProtoInvalidHeader)) (\<lambda>cpath.
       checked (peek_on KMessage (rp_msg r) (c_response_verify A (rp_msg r) pubkey cpath now)))"

section \<open>Ownership\<close>

text \<open>A call that hands over a message when it succeeds.\<close>

definition owned_response :: "('c \<Rightarrow> (int \<times> ptr) \<times> 'c) \<Rightarrow> ('c, response) io_result" where
  "owned_response f = opened KMessage f Response"

datatype response_op =
    RpStatus | RpHeader string | RpBody | RpHeaders | RpVerify bytes string u64

fun response_run :: "('c, 'x) response_api_scheme \<Rightarrow> response \<Rightarrow> response_op \<Rightarrow> ('c, unit) io" where
  "response_run A r RpStatus = discard (response_status A r)"
| "response_run A r (RpHeader n) = discard (response_header A r n)"
| "response_run A r RpBody = discard (response_body A r)"
| "response_run A r RpHeaders = discard (response_headers A r)"
| "response_run A r (RpVerify k p t) = discard (response_verify A r k p t)"

lemma response_run_preserves:
  "usable m (KMessage, rp_msg r) \<Longrightarrow> preserves m (response_run A r op)"
  by (cases op) (auto simp: response_status_def response_header_def response_body_def response_headers_def
      headers_new_def response_verify_def intro!: keep_rules)

interpretation response_handle: plain_handle KMessage f "c_message_free A" Response rp_msg
  "\<lambda>r. range (response_run A r)" for A f
  by unfold_locales (auto intro: response_run_preserves)

definition sample_response_api :: "unit response_api" where
  "sample_response_api = message_api.extend sample_message_api (response_api.fields
     (\<lambda>msg key path now c. if path = ''/x'' then 0 else - 205))"

section \<open>Properties\<close>

text \<open>
  A response is freed exactly once: whatever call returned it (a failed call returns none), any
  sequence of reads and then its drop leave the handles as they were; taking the body instead of
  dropping gives the same bytes as reading it and frees the message too.
\<close>

lemma response_life_is_clean:
  assumes "coherent w m" and "fresh_ptr KMessage f (lib w) m"
  shows "coherent (snd (run_state (lifecycle (owned_response f) (response_drop A)
      (\<lambda>r. map (response_run A r) ops)) w)) m \<and>
    (\<forall>r v. fst (run_state (response_into_body A r) v) = fst (run_state (response_body A r) v) \<and>
       snd (run_state (response_into_body A r) v) =
         snd (run_state (response_drop A r) (snd (run_state (response_body A r) v))))"
proof -
  have "coherent (snd (run_state (lifecycle (owned_response f) (response_drop A)
      (\<lambda>r. map (response_run A r) ops)) w)) m"
    unfolding owned_response_def response_drop_def
    by (rule response_handle.owned.lifecycle_clean [OF assms]) auto
  then show ?thesis by (simp add: response_into_body_def case_prod_beta)
qed

end
