(* ===== verification/Cache.thy ===== *)
theory Cache
  imports Response
begin

text \<open>
  \<^verbatim>\<open>nwep/src/cache.rs\<close>: the bounded store of public signed responses, and the reference counting of
  the \<^verbatim>\<open>Rc<Cache>\<close> that clients share (\<open>strong\<close> in the world; the cache is freed with its last
  reference).
\<close>

section \<open>State and library\<close>

datatype cache = Cache (ca_raw: ptr)

record cache_stats =
  cs_hits :: u64
  cs_misses :: u64
  cs_stores :: u64
  cs_evictions :: u64

record 'c cache_api = "'c response_api" +
  c_cache_create :: "nat \<Rightarrow> nat \<Rightarrow> 'c \<Rightarrow> ptr \<times> 'c"
  c_cache_put_signed :: "ptr \<Rightarrow> string \<Rightarrow> string \<Rightarrow> ptr \<Rightarrow> bytes \<Rightarrow> u64 \<Rightarrow> 'c \<Rightarrow> int \<times> 'c"
  c_cache_get_signed :: "ptr \<Rightarrow> string \<Rightarrow> string \<Rightarrow> bytes \<Rightarrow> u64 \<Rightarrow> 'c \<Rightarrow> (int \<times> ptr) \<times> 'c"
  c_cache_clear :: "ptr \<Rightarrow> 'c \<Rightarrow> unit \<times> 'c"
  c_cache_stats :: "ptr \<Rightarrow> cache_stats \<Rightarrow> 'c \<Rightarrow> cache_stats"
  c_cache_free :: "ptr \<Rightarrow> 'c \<Rightarrow> 'c"
  c_method_str :: "int \<Rightarrow> string option"

section \<open>Operations\<close>

text \<open>
  The method's token as a C string; the outer \<open>None\<close> is the violated assertion of
  \<^verbatim>\<open>static_token\<close>.
\<close>

definition method_cstr :: "('c, 'x) cache_api_scheme \<Rightarrow> request_method \<Rightarrow> string option" where
  "method_cstr A mt = map_option (\<lambda>s. opt_unwrap_or (cstring_new s) []) (method_as_str (c_method_str A) mt)"

definition cache_new :: "('c, 'x) cache_api_scheme \<Rightarrow> nat \<Rightarrow> nat \<Rightarrow> ('c, cache) io_result" where
  "cache_new A max_bytes max_entries = do {
     raw \<leftarrow> call (c_cache_create A max_bytes max_entries);
     (if raw = null_ptr then ret_err InternalAlloc
      else do { emit (Acquire KCache raw); ret_ok (Cache raw) })
   }"

definition cache_put_signed ::
  "('c, 'x) cache_api_scheme \<Rightarrow> cache \<Rightarrow> request_method \<Rightarrow> string \<Rightarrow> response \<Rightarrow> bytes \<Rightarrow> u64 \<Rightarrow>
   ('c, (error + unit) option) io" where
  "cache_put_signed A ca mt path r pubkey now =
     (case cstring_new path of
        None \<Rightarrow> State_Monad.return (Some (Inl ProtoInvalidHeader))
      | Some cpath \<Rightarrow>
          (case method_cstr A mt of
             None \<Rightarrow> State_Monad.return None
           | Some cmethod \<Rightarrow> do {
               emit (Use KMessage (rp_msg r));
               rc \<leftarrow> call_on KCache (ca_raw ca)
                 (c_cache_put_signed A (ca_raw ca) cmethod cpath (rp_msg r) pubkey now);
               State_Monad.return (Some (error_check rc))
             }))"

definition cache_get_signed ::
  "('c, 'x) cache_api_scheme \<Rightarrow> cache \<Rightarrow> request_method \<Rightarrow> string \<Rightarrow> bytes \<Rightarrow> u64 \<Rightarrow>
   ('c, response option option) io" where
  "cache_get_signed A ca mt path pubkey now =
     (case cstring_new path of
        None \<Rightarrow> State_Monad.return (Some None)
      | Some cpath \<Rightarrow>
          (case method_cstr A mt of
             None \<Rightarrow> State_Monad.return None
           | Some cmethod \<Rightarrow> do {
               (rc, out) \<leftarrow> call_on KCache (ca_raw ca)
                 (c_cache_get_signed A (ca_raw ca) cmethod cpath pubkey now);
               (if rc = 0 \<and> out \<noteq> null_ptr
                then do {
                  emit (Acquire KMessage out);
                  State_Monad.return (Some (Some (response_from_raw out)))
                }
                else State_Monad.return (Some None))
             }))"

definition cache_clear :: "('c, 'x) cache_api_scheme \<Rightarrow> cache \<Rightarrow> ('c, unit) io" where
  "cache_clear A ca = call_on KCache (ca_raw ca) (c_cache_clear A (ca_raw ca))"

definition cache_stats_get :: "('c, 'x) cache_api_scheme \<Rightarrow> cache \<Rightarrow> ('c, cache_stats) io" where
  "cache_stats_get A ca = peek_on KCache (ca_raw ca)
     (c_cache_stats A (ca_raw ca) \<lparr>cs_hits = 0, cs_misses = 0, cs_stores = 0, cs_evictions = 0\<rparr>)"

definition cache_as_ptr :: "cache \<Rightarrow> ptr" where
  "cache_as_ptr ca = ca_raw ca"

definition cache_drop :: "('c, 'x) cache_api_scheme \<Rightarrow> cache \<Rightarrow> ('c, unit) io" where
  "cache_drop A ca = release KCache (ca_raw ca) (c_cache_free A (ca_raw ca))"

section \<open>Shared caches\<close>

definition set_strong :: "ptr \<Rightarrow> nat \<Rightarrow> ('c, unit) io" where
  "set_strong p n = State (\<lambda>w. ((), w\<lparr>strong := (strong w)(p := n)\<rparr>))"

definition get_strong :: "ptr \<Rightarrow> ('c, nat) io" where
  "get_strong p = State (\<lambda>w. (strong w p, w))"

text \<open>\<^verbatim>\<open>Rc::new\<close>, \<^verbatim>\<open>Rc::clone\<close> and the drop of an \<^verbatim>\<open>Rc<Cache>\<close>.\<close>

definition rc_new :: "cache \<Rightarrow> ('c, ptr) io" where
  "rc_new ca = do { set_strong (ca_raw ca) 1; State_Monad.return (ca_raw ca) }"

definition rc_clone :: "ptr \<Rightarrow> ('c, ptr) io" where
  "rc_clone p = do { n \<leftarrow> get_strong p; set_strong p (n + 1); State_Monad.return p }"

definition rc_drop :: "('c, 'x) cache_api_scheme \<Rightarrow> ptr \<Rightarrow> ('c, unit) io" where
  "rc_drop A p = do {
     n \<leftarrow> get_strong p;
     set_strong p (n - 1);
     (if n = 1 then cache_drop A (Cache p) else State_Monad.return ())
   }"

lemma run_set_strong [simp]: "run_state (set_strong p n) w = ((), w\<lparr>strong := (strong w)(p := n)\<rparr>)"
  by (simp add: set_strong_def)

lemma run_get_strong [simp]: "run_state (get_strong p) w = (strong w p, w)"
  by (simp add: get_strong_def)

section \<open>Ownership\<close>

text \<open>Creation in the shape of the other constructors: a null pointer is the failure.\<close>

definition create_status :: "('c, 'x) cache_api_scheme \<Rightarrow> nat \<Rightarrow> nat \<Rightarrow> 'c \<Rightarrow> (int \<times> ptr) \<times> 'c" where
  "create_status A n k c =
     (case c_cache_create A n k c of (p, c') \<Rightarrow>
        ((if p = null_ptr then error_code InternalAlloc else 0, p), c'))"

lemma cache_new_opened: "cache_new A n k = opened KCache (create_status A n k) Cache"
proof -
  have e: "error_from_code (- 802) = InternalAlloc" by (simp add: error_from_code_def)
  show ?thesis
  proof (rule State_Monad.state.expand)
    show "run_state (cache_new A n k) = run_state (opened KCache (create_status A n k) Cache)"
      by (rule ext) (simp add: cache_new_def opened_def create_status_def error_check_def e case_prod_beta)
  qed
qed

datatype cache_op = CaClear | CaStats

fun cache_run :: "('c, 'x) cache_api_scheme \<Rightarrow> cache \<Rightarrow> cache_op \<Rightarrow> ('c, unit) io" where
  "cache_run A ca CaClear = cache_clear A ca"
| "cache_run A ca CaStats = discard (cache_stats_get A ca)"

lemma cache_run_preserves: "usable m (KCache, ca_raw ca) \<Longrightarrow> preserves m (cache_run A ca op)"
  by (cases op) (auto simp: cache_clear_def cache_stats_get_def intro!: keep_rules)

interpretation cache_handle: plain_handle KCache "create_status A n k" "c_cache_free A" Cache ca_raw
  "\<lambda>ca. range (cache_run A ca)" for A n k
  by unfold_locales (auto intro: cache_run_preserves)

definition sample_cache_api :: "'c cache_api" where
  "sample_cache_api = response_api.extend (message_api.extend (message_api.make
       (\<lambda>p c. Some ''ok'') (\<lambda>p n c. None) (\<lambda>p c. None) (\<lambda>p c. 0) (\<lambda>p i c. (0, None, None)) (\<lambda>p c. c))
       (response_api.fields (\<lambda>p k path now c. 0)))
     (cache_api.fields (\<lambda>n k c. (77, c)) (\<lambda>p mt path r k t c. (0, c)) (\<lambda>p mt path k t c. ((0, 9), c))
       (\<lambda>p c. ((), c)) (\<lambda>p s c. s) (\<lambda>p c. c) (\<lambda>i. Some ''read''))"

section \<open>Properties\<close>

text \<open>
  The cache hands out owned responses and never half a one: a path with a nul is refused on
  store and is a miss on lookup, both without calling the library; a lookup is a hit only when the
  library reports success with a message, and then the caller owns that message (dropping the
  response gives back the handles as they were); in every other case nothing is owned. Creating a
  cache, clearing and reading it and dropping it leaves no handle behind, also when creation fails.
\<close>

lemma cache_hit_is_owned:
  assumes "coherent w m" and "usable m (KCache, ca_raw ca)" and "method_cstr A mt = Some tok"
    and "CHR 0x00 \<notin> set path"
    and "fresh_ptr KMessage (c_cache_get_signed A (ca_raw ca) tok path key now) (lib w) m"
    and "fresh_ptr KCache (create_status A n k) (lib w) m"
    and "run_state (cache_get_signed A ca mt path key now) w = (Some hit, w')"
  shows "(case hit of
        None \<Rightarrow> coherent w' m
      | Some r \<Rightarrow> coherent (snd (run_state (response_drop A r) w')) m \<and>
          (case c_cache_get_signed A (ca_raw ca) tok path key now (lib w) of
             ((rc, out), _) \<Rightarrow> rc = 0 \<and> rp_msg r = out)) \<and>
    coherent (snd (run_state (lifecycle (cache_new A n k) (cache_drop A) (\<lambda>c. map (cache_run A c) ops)) w)) m \<and>
    (\<forall>bad r v. CHR 0x00 \<in> set bad \<longrightarrow>
       run_state (cache_get_signed A ca mt bad key now) v = (Some None, v) \<and>
       run_state (cache_put_signed A ca mt bad r key now) v = (Some (Inl ProtoInvalidHeader), v))"
proof -
  obtain rc out c where g: "c_cache_get_signed A (ca_raw ca) tok path key now (lib w) = ((rc, out), c)"
    by (metis prod.collapse)
  let ?w1 = "w\<lparr>lib := c, history := history w @ [Use KCache (ca_raw ca)]\<rparr>"
  have w1: "coherent ?w1 m"
    using assms(1,2) by (simp add: coherent_def)
  have "case hit of
        None \<Rightarrow> coherent w' m
      | Some r \<Rightarrow> coherent (snd (run_state (response_drop A r) w')) m \<and> rc = 0 \<and> rp_msg r = out"
  proof (cases "rc = 0 \<and> out \<noteq> null_ptr")
    case True
    let ?m' = "m\<lparr>live := insert (KMessage, out) (live m)\<rparr>"
    have h: "hit = Some (Response out)" "w' = w\<lparr>lib := c, history := history w @ [Use KCache (ca_raw ca), Acquire KMessage out]\<rparr>"
      using assms(3,4,7) g True
      by (auto simp: cache_get_signed_def cstring_new_def response_from_raw_def)
    have "owns_handle KMessage out m ?m'"
      using assms(5) g True by (simp add: owns_handle_def fresh_ptr_def)
    moreover have "coherent w' ?m'"
      using assms(1,2) h by (simp add: coherent_def)
    ultimately show ?thesis
      using h True owns_release [of KMessage out m ?m' w'] by (simp add: response_drop_def)
  next
    case False
    then have "hit = None" "w' = ?w1"
      using assms(3,4,7) g by (auto simp: cache_get_signed_def cstring_new_def split: if_splits)
    then show ?thesis using w1 by simp
  qed
  moreover have "coherent (snd (run_state (lifecycle (cache_new A n k) (cache_drop A)
      (\<lambda>c. map (cache_run A c) ops)) w)) m"
    unfolding cache_new_opened cache_drop_def
    by (rule cache_handle.owned.lifecycle_clean [OF assms(1,6)]) auto
  ultimately show ?thesis
    using g by (auto simp: cache_get_signed_def cache_put_signed_def cstring_new_def split: option.splits)
qed

end
