(* ===== verification/Client.thy ===== *)
theory Client
  imports Cache Handler
begin

text \<open>
  \<^verbatim>\<open>nwep/src/client.rs\<close>: \<^verbatim>\<open>ClientBuilder\<close>, \<^verbatim>\<open>Client\<close>, \<^verbatim>\<open>RequestBuilder\<close>, \<^verbatim>\<open>RequestHandle\<close>,
  \<^verbatim>\<open>Stream\<close> and \<^verbatim>\<open>Connecting\<close>. The two cells of a client, the cache it keeps alive and the box of
  its completion hook, are fields of its record, so an operation that sets one returns the client
  updated.
\<close>

section \<open>State and library\<close>

text \<open>The completion hook: it is given the request's id and result; \<open>None\<close> is a panic.\<close>

type_synonym 'c done_hook = "u64 \<Rightarrow> error + response \<Rightarrow> ('c, unit option) io"

record 'c done_box =
  db_id :: nat
  db_f :: "'c done_hook"

record 'c client =
  cl_raw :: ptr
  cl_cache :: "ptr option"
  cl_done :: "'c done_box option"

record client_builder =
  cb_identity :: "identity option"

record client_metrics =
  cm_inflight :: u64
  cm_completed :: u64
  cm_failed :: u64
  cm_rtt_us :: u64
  cm_alive :: bool

record raw_client_metrics =
  rm_inflight :: u64
  rm_completed :: u64
  rm_failed :: u64
  rm_rtt_us :: u64
  rm_alive :: int

record request_builder =
  rb_client :: ptr
  rb_method :: request_method
  rb_path :: string
  rb_headers :: "(string \<times> string) list"
  rb_body :: bytes

record request_handle =
  rh_client :: ptr
  rh_id :: u64
  rh_done :: bool

record client_stream =
  st_client :: ptr
  st_id :: u64

datatype connecting = Connecting (cn_raw: ptr)

text \<open>A completion the library reports to the hook: the id, the status and the message.\<close>

type_synonym completion = "u64 \<times> int \<times> ptr"

type_synonym keypair = "bytes \<times> bytes"

record 'c client_api = "'c cache_api" +
  c_client_connect :: "keypair \<Rightarrow> bytes \<Rightarrow> bytes \<Rightarrow> 'c \<Rightarrow> (int \<times> ptr) \<times> 'c"
  c_client_connect_async :: "keypair \<Rightarrow> bytes \<Rightarrow> bytes \<Rightarrow> 'c \<Rightarrow> (int \<times> ptr) \<times> 'c"
  c_client_connect_fd :: "keypair \<Rightarrow> bytes \<Rightarrow> bytes \<Rightarrow> u64 \<Rightarrow> 'c \<Rightarrow> (int \<times> ptr) \<times> 'c"
  c_client_connect_fd_async :: "keypair \<Rightarrow> bytes \<Rightarrow> bytes \<Rightarrow> u64 \<Rightarrow> 'c \<Rightarrow> (int \<times> ptr) \<times> 'c"
  c_client_connect_by_nodeid :: "keypair \<Rightarrow> bytes \<Rightarrow> ptr \<Rightarrow> u32 \<Rightarrow> 'c \<Rightarrow> (int \<times> ptr) \<times> 'c"
  c_client_open_stream :: "ptr \<Rightarrow> int \<Rightarrow> string \<Rightarrow> header_array option \<Rightarrow> 'c \<Rightarrow> (int \<times> u64) \<times> 'c"
  c_client_verify_response :: "ptr \<Rightarrow> ptr \<Rightarrow> string \<Rightarrow> u64 \<Rightarrow> 'c \<Rightarrow> int"
  c_client_is_alive :: "ptr \<Rightarrow> 'c \<Rightarrow> int"
  c_client_compression :: "ptr \<Rightarrow> 'c \<Rightarrow> int"
  c_client_peer_pubkey :: "ptr \<Rightarrow> 'c \<Rightarrow> int \<times> bytes"
  c_client_metrics_get :: "ptr \<Rightarrow> raw_client_metrics \<Rightarrow> 'c \<Rightarrow> int \<times> raw_client_metrics"
  c_client_tick :: "ptr \<Rightarrow> int \<Rightarrow> 'c \<Rightarrow> ('c, completion, unit, int) session"
  c_client_fd :: "ptr \<Rightarrow> 'c \<Rightarrow> int"
  c_client_next_timeout_ms :: "ptr \<Rightarrow> int \<Rightarrow> 'c \<Rightarrow> int \<times> 'c"
  c_client_set_cache :: "ptr \<Rightarrow> ptr \<Rightarrow> 'c \<Rightarrow> int \<times> 'c"
  c_client_set_request_done :: "ptr \<Rightarrow> nat \<Rightarrow> 'c \<Rightarrow> unit \<times> 'c"
  c_client_poll_notify :: "ptr \<Rightarrow> 'c \<Rightarrow> ptr \<times> 'c"
  c_client_send :: "ptr \<Rightarrow> int \<Rightarrow> string \<Rightarrow> header_array \<Rightarrow> slice \<Rightarrow> 'c \<Rightarrow> (int \<times> ptr) \<times> 'c"
  c_client_request_submit ::
    "ptr \<Rightarrow> int \<Rightarrow> string \<Rightarrow> header_array \<Rightarrow> slice \<Rightarrow> 'c \<Rightarrow> (int \<times> u64) \<times> 'c"
  c_client_request_poll :: "ptr \<Rightarrow> u64 \<Rightarrow> 'c \<Rightarrow> (int \<times> ptr) \<times> 'c"
  c_client_request_cancel :: "ptr \<Rightarrow> u64 \<Rightarrow> 'c \<Rightarrow> unit \<times> 'c"
  c_client_stream_response :: "ptr \<Rightarrow> u64 \<Rightarrow> 'c \<Rightarrow> (int \<times> ptr) \<times> 'c"
  c_client_stream_recv :: "ptr \<Rightarrow> u64 \<Rightarrow> nat \<Rightarrow> 'c \<Rightarrow> (int \<times> bytes \<times> nat \<times> int) \<times> 'c"
  c_client_stream_verify :: "ptr \<Rightarrow> u64 \<Rightarrow> bytes \<Rightarrow> 'c \<Rightarrow> int \<times> 'c"
  c_client_stream_close :: "ptr \<Rightarrow> u64 \<Rightarrow> 'c \<Rightarrow> unit \<times> 'c"
  c_client_connect_poll :: "ptr \<Rightarrow> 'c \<Rightarrow> int \<times> 'c"
  c_client_close :: "ptr \<Rightarrow> 'c \<Rightarrow> 'c"

section \<open>Builder\<close>

definition client_builder :: client_builder where
  "client_builder = \<lparr>cb_identity = None\<rparr>"

definition client_builder_identity :: "identity \<Rightarrow> client_builder \<Rightarrow> client_builder" where
  "client_builder_identity ident b = b\<lparr>cb_identity := Some ident\<rparr>"

definition client_wrap :: "ptr \<Rightarrow> 'c client" where
  "client_wrap raw = \<lparr>cl_raw = raw, cl_cache = None, cl_done = None\<rparr>"

definition client_builder_drop :: "'c identity_api \<Rightarrow> client_builder \<Rightarrow> ('c, unit) io" where
  "client_builder_drop I b = (case cb_identity b of
       None \<Rightarrow> State_Monad.return ()
     | Some ident \<Rightarrow> identity_drop I ident)"

text \<open>An identity taken by value is dropped, and so wiped, when the scope ends.\<close>

definition with_identity ::
  "'c identity_api \<Rightarrow> client_builder \<Rightarrow> (identity \<Rightarrow> ('c, 'a) io_result) \<Rightarrow> ('c, 'a) io_result" where
  "with_identity I b act =
     (case cb_identity b of
        None \<Rightarrow> ret_err ConfigMissing
      | Some ident \<Rightarrow> do { r \<leftarrow> act ident; identity_drop I ident; State_Monad.return r })"

definition client_connect ::
  "'c identity_api \<Rightarrow> ('c, 'x) client_api_scheme \<Rightarrow> client_builder \<Rightarrow> node_id \<Rightarrow> address \<Rightarrow>
   ('c, 'c client) io_result" where
  "client_connect I A b target addr = with_identity I b (\<lambda>ident.
     try_ok (with_keypair I ident (\<lambda>kp. checked_out (acquire KClient
         (c_client_connect A kp (node_id_raw target) (address_as_raw addr)))))
       (\<lambda>raw. ret_ok (client_wrap raw)))"

definition client_start_connect ::
  "'c identity_api \<Rightarrow> ('c, 'x) client_api_scheme \<Rightarrow> client_builder \<Rightarrow> node_id \<Rightarrow> address \<Rightarrow>
   ('c, connecting) io_result" where
  "client_start_connect I A b target addr = with_identity I b (\<lambda>ident.
     try_ok (with_keypair I ident (\<lambda>kp. checked_out (acquire KClient
         (c_client_connect_async A kp (node_id_raw target) (address_as_raw addr)))))
       (\<lambda>raw. ret_ok (Connecting raw)))"

definition client_connect_fd ::
  "'c identity_api \<Rightarrow> ('c, 'x) client_api_scheme \<Rightarrow> client_builder \<Rightarrow> node_id \<Rightarrow> address \<Rightarrow> int \<Rightarrow>
   ('c, 'c client) io_result" where
  "client_connect_fd I A b target addr fd = with_identity I b (\<lambda>ident.
     try_ok (with_keypair I ident (\<lambda>kp. checked_out (acquire KClient
         (c_client_connect_fd A kp (node_id_raw target) (address_as_raw addr) (socket_to_c fd)))))
       (\<lambda>raw. ret_ok (client_wrap raw)))"

definition client_start_connect_fd ::
  "'c identity_api \<Rightarrow> ('c, 'x) client_api_scheme \<Rightarrow> client_builder \<Rightarrow> node_id \<Rightarrow> address \<Rightarrow> int \<Rightarrow>
   ('c, connecting) io_result" where
  "client_start_connect_fd I A b target addr fd = with_identity I b (\<lambda>ident.
     try_ok (with_keypair I ident (\<lambda>kp. checked_out (acquire KClient
         (c_client_connect_fd_async A kp (node_id_raw target) (address_as_raw addr) (socket_to_c fd)))))
       (\<lambda>raw. ret_ok (Connecting raw)))"

text \<open>The timeout, in milliseconds, saturates at the largest \<^verbatim>\<open>u32\<close>.\<close>

definition clamp_ms :: "nat \<Rightarrow> u32" where
  "clamp_ms millis = as_u32 (int (min millis (2 ^ 32 - 1)))"

definition client_connect_by_node_id ::
  "'c identity_api \<Rightarrow> ('c, 'x) client_api_scheme \<Rightarrow> client_builder \<Rightarrow> node_id \<Rightarrow> ptr \<Rightarrow> nat \<Rightarrow>
   ('c, 'c client) io_result" where
  "client_connect_by_node_id I A b target dht millis = with_identity I b (\<lambda>ident. do {
     let ms = clamp_ms millis;
     try_ok (with_keypair I ident (\<lambda>kp. do {
         emit (Use KDht dht);
         checked_out (acquire KClient
           (c_client_connect_by_nodeid A kp (node_id_raw target) dht ms))
       }))
       (\<lambda>raw. ret_ok (client_wrap raw))
   })"

section \<open>Requests\<close>

text \<open>The header array of a request: a header with an interior nul refuses the request.\<close>

fun request_cstrings :: "(string \<times> string) list \<Rightarrow> error + (string \<times> string) list" where
  "request_cstrings [] = Inr []"
| "request_cstrings ((name, val) # hs) =
     and_then (ok_or (cstring_new name) ProtoInvalidHeader) (\<lambda>n.
     and_then (ok_or (cstring_new val) ProtoInvalidHeader) (\<lambda>v.
     map_ok (Cons (n, v)) (request_cstrings hs)))"

definition request_with_c ::
  "request_builder \<Rightarrow> (string \<Rightarrow> header_array \<Rightarrow> slice \<Rightarrow> ('c, 'r) io_result) \<Rightarrow> ('c, 'r) io_result" where
  "request_with_c rb f =
     try_ok (lift_res (ok_or (cstring_new (rb_path rb)) ProtoInvalidHeader)) (\<lambda>cpath.
     try_ok (lift_res (request_cstrings (rb_headers rb))) (\<lambda>cstrings.
       f cpath (map Some cstrings @ [None]) (slice_parts (rb_body rb))))"

definition client_request :: "'c client \<Rightarrow> request_method \<Rightarrow> string \<Rightarrow> request_builder" where
  "client_request cl mt path =
     \<lparr>rb_client = cl_raw cl, rb_method = mt, rb_path = path, rb_headers = [], rb_body = []\<rparr>"

definition request_add_header :: "request_builder \<Rightarrow> string \<Rightarrow> string \<Rightarrow> request_builder" where
  "request_add_header rb name val = rb\<lparr>rb_headers := rb_headers rb @ [(name, val)]\<rparr>"

definition request_set_body :: "request_builder \<Rightarrow> bytes \<Rightarrow> request_builder" where
  "request_set_body rb body = rb\<lparr>rb_body := body\<rparr>"

definition request_send :: "('c, 'x) client_api_scheme \<Rightarrow> request_builder \<Rightarrow> ('c, response) io_result" where
  "request_send A rb = request_with_c rb (\<lambda>cpath hs body. do {
     emit (Use KClient (rb_client rb));
     owned_response (c_client_send A (rb_client rb) (method_code (rb_method rb)) cpath hs body)
   })"

definition request_submit :: "('c, 'x) client_api_scheme \<Rightarrow> request_builder \<Rightarrow> ('c, request_handle) io_result"
where
  "request_submit A rb =
     try_ok (request_with_c rb (\<lambda>cpath hs body.
         checked_out (call_on KClient (rb_client rb)
           (c_client_request_submit A (rb_client rb) (method_code (rb_method rb)) cpath hs body))))
       (\<lambda>ident. ret_ok \<lparr>rh_client = rb_client rb, rh_id = ident, rh_done = False\<rparr>)"

definition client_send ::
  "('c, 'x) client_api_scheme \<Rightarrow> 'c client \<Rightarrow> request_method \<Rightarrow> string \<Rightarrow> bytes \<Rightarrow> ('c, response) io_result"
where
  "client_send A cl mt path body = request_send A (request_set_body (client_request cl mt path) body)"

definition client_submit_request ::
  "('c, 'x) client_api_scheme \<Rightarrow> 'c client \<Rightarrow> request_method \<Rightarrow> string \<Rightarrow> (string \<times> string) list \<Rightarrow>
   bytes \<Rightarrow> ('c, u64) io_result" where
  "client_submit_request A cl mt path hs body =
     try_ok (lift_res (ok_or (cstring_new path) ProtoInvalidHeader)) (\<lambda>cpath.
     try_ok (lift_res (request_cstrings hs)) (\<lambda>cstrings.
       checked_out (call_on KClient (cl_raw cl)
         (c_client_request_submit A (cl_raw cl) (method_code mt) cpath (map Some cstrings @ [None])
           (if body = [] then (None, 0) else (Some body, length body))))))"

text \<open>
  The result of a request poll: 0 hands over the message, the would-block code means still in
  flight, and every other code is an error.
\<close>

definition poll_result ::
  "(int \<times> ptr) \<Rightarrow> ('c, error + response option) io" where
  "poll_result r = (case r of (rc, out) \<Rightarrow>
     if rc = 0 then do { emit (Acquire KMessage out); State_Monad.return (Inr (Some (Response out))) }
     else if rc = error_code WouldBlock then State_Monad.return (Inr None)
     else State_Monad.return (Inl (error_from_code rc)))"

definition client_poll_request ::
  "('c, 'x) client_api_scheme \<Rightarrow> 'c client \<Rightarrow> u64 \<Rightarrow> ('c, response option) io_result" where
  "client_poll_request A cl ident = do {
     r \<leftarrow> call_on KClient (cl_raw cl) (c_client_request_poll A (cl_raw cl) ident);
     poll_result r
   }"

definition request_handle_id :: "request_handle \<Rightarrow> u64" where
  "request_handle_id h = rh_id h"

definition request_handle_poll ::
  "('c, 'x) client_api_scheme \<Rightarrow> request_handle \<Rightarrow> ('c, (error + response option) \<times> request_handle) io" where
  "request_handle_poll A h = do {
     (rc, out) \<leftarrow> call_on KClient (rh_client h) (c_client_request_poll A (rh_client h) (rh_id h));
     (if rc = 0 then do {
        emit (Acquire KMessage out);
        State_Monad.return (Inr (Some (Response out)), h\<lparr>rh_done := True\<rparr>)
      }
      else if rc = error_code WouldBlock then State_Monad.return (Inr None, h)
      else State_Monad.return (Inl (error_from_code rc), h\<lparr>rh_done := True\<rparr>))
   }"

definition request_handle_cancel_inner ::
  "('c, 'x) client_api_scheme \<Rightarrow> request_handle \<Rightarrow> ('c, request_handle) io" where
  "request_handle_cancel_inner A h =
     (if \<not> rh_done h then do {
        call_on KClient (rh_client h) (c_client_request_cancel A (rh_client h) (rh_id h));
        State_Monad.return (h\<lparr>rh_done := True\<rparr>)
      } else State_Monad.return h)"

definition request_handle_drop :: "('c, 'x) client_api_scheme \<Rightarrow> request_handle \<Rightarrow> ('c, unit) io" where
  "request_handle_drop A h = do { _ \<leftarrow> request_handle_cancel_inner A h; State_Monad.return () }"

text \<open>\<^verbatim>\<open>cancel\<close> takes the handle by value, so its \<^verbatim>\<open>Drop\<close> runs after it.\<close>

definition request_handle_cancel :: "('c, 'x) client_api_scheme \<Rightarrow> request_handle \<Rightarrow> ('c, unit) io" where
  "request_handle_cancel A h = do { h' \<leftarrow> request_handle_cancel_inner A h; request_handle_drop A h' }"

section \<open>Client\<close>

definition client_open_stream ::
  "('c, 'x) client_api_scheme \<Rightarrow> 'c client \<Rightarrow> request_method \<Rightarrow> string \<Rightarrow> ('c, client_stream) io_result" where
  "client_open_stream A cl mt path =
     try_ok (lift_res (ok_or (cstring_new path) ProtoInvalidHeader)) (\<lambda>cpath.
     try_ok (checked_out (call_on KClient (cl_raw cl)
         (c_client_open_stream A (cl_raw cl) (method_code mt) cpath None)))
       (\<lambda>ident. ret_ok \<lparr>st_client = cl_raw cl, st_id = ident\<rparr>))"

definition client_verify_response ::
  "('c, 'x) client_api_scheme \<Rightarrow> 'c client \<Rightarrow> response \<Rightarrow> string \<Rightarrow> u64 \<Rightarrow> ('c, unit) io_result" where
  "client_verify_response A cl r path now =
     try_ok (lift_res (ok_or (cstring_new path) ProtoInvalidHeader)) (\<lambda>cpath. do {
       emit (Use KMessage (rp_msg r));
       checked (peek_on KClient (cl_raw cl)
         (c_client_verify_response A (cl_raw cl) (response_as_raw r) cpath now))
     })"

definition client_is_alive :: "('c, 'x) client_api_scheme \<Rightarrow> 'c client \<Rightarrow> ('c, bool) io" where
  "client_is_alive A cl = do {
     rc \<leftarrow> peek_on KClient (cl_raw cl) (c_client_is_alive A (cl_raw cl));
     State_Monad.return (rc = 1)
   }"

definition client_compression :: "('c, 'x) client_api_scheme \<Rightarrow> 'c client \<Rightarrow> ('c, compression) io" where
  "client_compression A cl = do {
     c \<leftarrow> peek_on KClient (cl_raw cl) (c_client_compression A (cl_raw cl));
     State_Monad.return (if c = 0 then CompNone else if c = 1 then CompZstd else CompUnknown)
   }"

definition client_peer_pubkey :: "('c, 'x) client_api_scheme \<Rightarrow> 'c client \<Rightarrow> ('c, bytes) io_result" where
  "client_peer_pubkey A cl =
     try_ok (checked_out (peek_on KClient (cl_raw cl) (c_client_peer_pubkey A (cl_raw cl))))
       (\<lambda>out. ret_ok (overwrite out (zeros 32)))"

definition client_metrics_get :: "('c, 'x) client_api_scheme \<Rightarrow> 'c client \<Rightarrow> ('c, client_metrics) io" where
  "client_metrics_get A cl = do {
     (rc, m) \<leftarrow> peek_on KClient (cl_raw cl) (c_client_metrics_get A (cl_raw cl)
       \<lparr>rm_inflight = 0, rm_completed = 0, rm_failed = 0, rm_rtt_us = 0, rm_alive = 0\<rparr>);
     State_Monad.return \<lparr>cm_inflight = rm_inflight m, cm_completed = rm_completed m,
       cm_failed = rm_failed m, cm_rtt_us = rm_rtt_us m, cm_alive = (rm_alive m = 1)\<rparr>
   }"

text \<open>
  The C callback of the completion hook. A status of 0 hands over the message; a panic of the hook
  is swallowed.
\<close>

definition done_trampoline :: "'c done_box \<Rightarrow> completion \<Rightarrow> ('c, unit) io" where
  "done_trampoline b q =
     (case q of (ident, st, resp) \<Rightarrow> do {
        result \<leftarrow>
          (if st = 0 then do {
             emit (Acquire KMessage resp);
             State_Monad.return (Inr (Response resp))
           } else State_Monad.return (Inl (error_from_code st)));
        emit (Enter (db_id b));
        _ \<leftarrow> db_f b ident result;
        emit (Leave (db_id b))
      })"

text \<open>Without a hook the library has no callback to run.\<close>

definition client_callback :: "'c client \<Rightarrow> completion \<Rightarrow> ('c, unit) io" where
  "client_callback cl q =
     (case cl_done cl of None \<Rightarrow> State_Monad.return () | Some b \<Rightarrow> done_trampoline b q)"

definition client_tick :: "('c, 'x) client_api_scheme \<Rightarrow> 'c client \<Rightarrow> int \<Rightarrow> ('c, unit) io_result" where
  "client_tick A cl now_ms =
     checked (drive KClient (cl_raw cl) (client_callback cl) (c_client_tick A (cl_raw cl) now_ms))"

definition client_fd :: "('c, 'x) client_api_scheme \<Rightarrow> 'c client \<Rightarrow> ('c, int) io" where
  "client_fd A cl = do {
     h \<leftarrow> peek_on KClient (cl_raw cl) (c_client_fd A (cl_raw cl));
     State_Monad.return (socket_from_c h)
   }"

definition client_next_timeout :: "('c, 'x) client_api_scheme \<Rightarrow> 'c client \<Rightarrow> int \<Rightarrow> ('c, u32 option) io" where
  "client_next_timeout A cl now_ms = do {
     ms \<leftarrow> call_on KClient (cl_raw cl) (c_client_next_timeout_ms A (cl_raw cl) now_ms);
     State_Monad.return (if ms < 0 then None else Some (as_u32 ms))
   }"

definition drop_cache_ref :: "('c, 'x) client_api_scheme \<Rightarrow> ptr option \<Rightarrow> ('c, unit) io" where
  "drop_cache_ref A c = (case c of None \<Rightarrow> State_Monad.return () | Some p \<Rightarrow> rc_drop A p)"

text \<open>
  \<^verbatim>\<open>set_cache\<close> takes the \<^verbatim>\<open>Rc\<close> by value: on an error it is dropped at the end of the call; on
  success it replaces the old one in the cell, which is dropped then.
\<close>

definition client_set_cache ::
  "('c, 'x) client_api_scheme \<Rightarrow> 'c client \<Rightarrow> ptr option \<Rightarrow> ('c, (error + unit) \<times> 'c client) io" where
  "client_set_cache A cl cache = do {
     let p = (case cache of None \<Rightarrow> null_ptr | Some c \<Rightarrow> c);
     (case cache of None \<Rightarrow> State_Monad.return () | Some c \<Rightarrow> emit (Use KCache c));
     rc \<leftarrow> call_on KClient (cl_raw cl) (c_client_set_cache A (cl_raw cl) p);
     (case error_check rc of
        Inl e \<Rightarrow> do { drop_cache_ref A cache; State_Monad.return (Inl e, cl) }
      | Inr _ \<Rightarrow> do {
          emit (Borrow KClient (cl_raw cl) (map_option (Pair KCache) cache));
          drop_cache_ref A (cl_cache cl);
          State_Monad.return (Inr (), cl\<lparr>cl_cache := cache\<rparr>)
        })
   }"

definition client_on_request_done ::
  "('c, 'x) client_api_scheme \<Rightarrow> 'c client \<Rightarrow> 'c done_hook \<Rightarrow> ('c, 'c client) io" where
  "client_on_request_done A cl hook = do {
     (case cl_done cl of None \<Rightarrow> State_Monad.return () | Some prev \<Rightarrow> box_drop (db_id prev));
     boxed \<leftarrow> box_new;
     call_on KClient (cl_raw cl) (c_client_set_request_done A (cl_raw cl) boxed);
     emit (Register KClient (cl_raw cl) boxed);
     State_Monad.return (cl\<lparr>cl_done := Some \<lparr>db_id = boxed, db_f = hook\<rparr>\<rparr>)
   }"

definition client_poll_notify :: "('c, 'x) client_api_scheme \<Rightarrow> 'c client \<Rightarrow> ('c, response option) io" where
  "client_poll_notify A cl = do {
     msg \<leftarrow> call_on KClient (cl_raw cl) (c_client_poll_notify A (cl_raw cl));
     (if msg = null_ptr then State_Monad.return None
      else do { emit (Acquire KMessage msg); State_Monad.return (Some (Response msg)) })
   }"

definition client_as_ptr :: "'c client \<Rightarrow> ptr" where
  "client_as_ptr cl = cl_raw cl"

text \<open>
  \<^verbatim>\<open>Drop for Client\<close>: close, then the hook's box; the cache cell is a field and drops after the
  body.
\<close>

definition client_drop :: "('c, 'x) client_api_scheme \<Rightarrow> 'c client \<Rightarrow> ('c, unit) io" where
  "client_drop A cl = do {
     release KClient (cl_raw cl) (c_client_close A (cl_raw cl));
     (case cl_done cl of None \<Rightarrow> State_Monad.return () | Some b \<Rightarrow> box_drop (db_id b));
     drop_cache_ref A (cl_cache cl)
   }"

section \<open>Streams\<close>

definition stream_response :: "('c, 'x) client_api_scheme \<Rightarrow> client_stream \<Rightarrow> ('c, response) io_result" where
  "stream_response A st = do {
     emit (Use KClient (st_client st));
     owned_response (c_client_stream_response A (st_client st) (st_id st))
   }"

text \<open>\<^verbatim>\<open>recv\<close> into a buffer of \<open>n\<close> bytes: what was written, the reported count, and the end flag.\<close>

definition stream_recv ::
  "('c, 'x) client_api_scheme \<Rightarrow> client_stream \<Rightarrow> nat \<Rightarrow> ('c, bytes \<times> nat \<times> bool) io_result" where
  "stream_recv A st n =
     try_ok (checked_out (call_on KClient (st_client st)
         (c_client_stream_recv A (st_client st) (st_id st) n)))
       (\<lambda>(written, len, ended). ret_ok (written, len, ended \<noteq> 0))"

definition stream_verify ::
  "('c, 'x) client_api_scheme \<Rightarrow> client_stream \<Rightarrow> bytes \<Rightarrow> ('c, unit) io_result" where
  "stream_verify A st pubkey =
     checked (call_on KClient (st_client st) (c_client_stream_verify A (st_client st) (st_id st) pubkey))"

definition stream_drop :: "('c, 'x) client_api_scheme \<Rightarrow> client_stream \<Rightarrow> ('c, unit) io" where
  "stream_drop A st = call_on KClient (st_client st) (c_client_stream_close A (st_client st) (st_id st))"

section \<open>Connecting\<close>

definition connecting_tick :: "('c, 'x) client_api_scheme \<Rightarrow> connecting \<Rightarrow> int \<Rightarrow> ('c, unit) io_result" where
  "connecting_tick A cn now_ms =
     checked (drive KClient (cn_raw cn) (\<lambda>_. State_Monad.return ()) (c_client_tick A (cn_raw cn) now_ms))"

definition connecting_poll :: "('c, 'x) client_api_scheme \<Rightarrow> connecting \<Rightarrow> ('c, bool) io_result" where
  "connecting_poll A cn = do {
     rc \<leftarrow> call_on KClient (cn_raw cn) (c_client_connect_poll A (cn_raw cn));
     (if rc = 1 then ret_ok True else if rc = 0 then ret_ok False else ret_err (error_from_code rc))
   }"

definition connecting_fd :: "('c, 'x) client_api_scheme \<Rightarrow> connecting \<Rightarrow> ('c, int) io" where
  "connecting_fd A cn = do {
     h \<leftarrow> peek_on KClient (cn_raw cn) (c_client_fd A (cn_raw cn));
     State_Monad.return (socket_from_c h)
   }"

definition connecting_next_timeout :: "('c, 'x) client_api_scheme \<Rightarrow> connecting \<Rightarrow> int \<Rightarrow> ('c, u32 option) io" where
  "connecting_next_timeout A cn now_ms = do {
     ms \<leftarrow> call_on KClient (cn_raw cn) (c_client_next_timeout_ms A (cn_raw cn) now_ms);
     State_Monad.return (if ms < 0 then None else Some (as_u32 ms))
   }"

text \<open>\<^verbatim>\<open>into_client\<close> forgets the \<^verbatim>\<open>Connecting\<close>, so its \<^verbatim>\<open>Drop\<close> does not run.\<close>

definition connecting_into_client :: "connecting \<Rightarrow> 'c client" where
  "connecting_into_client cn = client_wrap (cn_raw cn)"

definition connecting_drop :: "('c, 'x) client_api_scheme \<Rightarrow> connecting \<Rightarrow> ('c, unit) io" where
  "connecting_drop A cn = release KClient (cn_raw cn) (c_client_close A (cn_raw cn))"

section \<open>Lemmas\<close>

definition request_clean :: "(string \<times> string) list \<Rightarrow> bool" where
  "request_clean hs \<longleftrightarrow> (\<forall>h \<in> set hs. CHR 0x00 \<notin> set (fst h) \<and> CHR 0x00 \<notin> set (snd h))"

lemma request_cstrings_eq:
  "request_cstrings hs = (if request_clean hs then Inr hs else Inl ProtoInvalidHeader)"
  by (induction hs rule: request_cstrings.induct) (auto simp: request_clean_def cstring_new_def)

lemma run_request_with_c:
  "run_state (request_with_c rb f) w =
     (if CHR 0x00 \<notin> set (rb_path rb) \<and> request_clean (rb_headers rb)
      then run_state (f (rb_path rb) (map Some (rb_headers rb) @ [None]) (slice_parts (rb_body rb))) w
      else (Inl ProtoInvalidHeader, w))"
  by (simp add: request_with_c_def request_cstrings_eq cstring_new_def)

text \<open>\<open>spent ident w w'\<close>: the identity is wiped and nothing else secret was left or changed.\<close>

definition spent :: "identity \<Rightarrow> 'c world \<Rightarrow> 'c world \<Rightarrow> bool" where
  "spent ident w w' \<longleftrightarrow> residue w w' = {} \<and>
     cell_at w' (id_priv ident) = zeros (length (cell_at w (id_priv ident))) \<and>
     (\<forall>i. i < length (cells w) \<longrightarrow> i \<noteq> id_priv ident \<longrightarrow> cell_at w' i = cell_at w i)"

lemma connect_spends:
  assumes "wipes I" and "cb_identity b = Some ident" and "id_priv ident < length (cells w)"
    and "\<And>kp v. cells (snd (run_state (opn kp) v)) = cells v"
  shows "spent ident w (snd (run_state (with_identity I b (\<lambda>ident.
     try_ok (with_keypair I ident opn) (\<lambda>raw. ret_ok (g raw)))) w))"
proof -
  let ?w' = "snd (run_state (with_identity I b (\<lambda>ident.
     try_ok (with_keypair I ident opn) (\<lambda>raw. ret_ok (g raw)))) w)"
  let ?z = "zeros (length (cell_at w (id_priv ident)))"
  have "cells ?w' = (cells w)[id_priv ident := ?z] @ [?z]"
    using assms
    by (auto simp: with_identity_def run_with_keypair Let_def identity_drop_def cell_at_def nth_append
        list_update_append case_prod_beta split: sum.split)
  then show ?thesis
    using assms(3) by (auto simp: spent_def residue_def cell_at_def nth_append less_Suc_eq split: if_splits)
qed

lemma acquire_cells [simp]: "cells (snd (run_state (acquire k f) w)) = cells w"
  by simp

text \<open>Polling a handle several times.\<close>

fun poll_times ::
  "nat \<Rightarrow> ('c, 'x) client_api_scheme \<Rightarrow> request_handle \<Rightarrow>
   ('c, (error + response option) list \<times> request_handle) io" where
  "poll_times 0 A h = State_Monad.return ([], h)"
| "poll_times (Suc n) A h = do {
     (r, h') \<leftarrow> request_handle_poll A h;
     (rs, h'') \<leftarrow> poll_times n A h';
     State_Monad.return (r # rs, h'')
   }"

definition in_flight :: "error + response option \<Rightarrow> bool" where
  "in_flight r \<longleftrightarrow> r = Inr None"

lemma run_request_handle_poll:
  "run_state (request_handle_poll A h) w =
     (case c_client_request_poll A (rh_client h) (rh_id h) (lib w) of
        ((rc, out), c) \<Rightarrow>
          ((if rc = 0 then Inr (Some (Response out))
            else if rc = error_code WouldBlock then Inr None else Inl (error_from_code rc),
            h\<lparr>rh_done := rh_done h \<or> rc \<noteq> error_code WouldBlock\<rparr>),
           w\<lparr>lib := c, history := history w @
              (if rc = 0 then [Use KClient (rh_client h), Acquire KMessage out]
               else [Use KClient (rh_client h)])\<rparr>))"
  by (auto simp: request_handle_poll_def split: prod.split)

lemma run_cancel_inner:
  "run_state (request_handle_cancel_inner A h) w =
     (h\<lparr>rh_done := True\<rparr>,
      if rh_done h then w
      else w\<lparr>lib := snd (c_client_request_cancel A (rh_client h) (rh_id h) (lib w)),
             history := history w @ [Use KClient (rh_client h)]\<rparr>)"
  by (simp add: request_handle_cancel_inner_def)

lemma poll_times_done:
  "run_state (poll_times n A h) w = ((rs, h'), w') \<Longrightarrow>
    rh_client h' = rh_client h \<and> rh_id h' = rh_id h \<and> length rs = n \<and>
    (rh_done h' \<longleftrightarrow> rh_done h \<or> (\<exists>r \<in> set rs. \<not> in_flight r))"
proof (induction n arbitrary: h w rs h' w')
  case 0
  then show ?case by auto
next
  case (Suc n)
  obtain r h1 w1 where p: "run_state (request_handle_poll A h) w = ((r, h1), w1)"
    by (metis prod.collapse)
  obtain rs2 h2 w2 where q: "run_state (poll_times n A h1) w1 = ((rs2, h2), w2)"
    by (metis prod.collapse)
  have e: "rs = r # rs2" "h' = h2" using Suc.prems p q by simp_all
  have "rh_client h1 = rh_client h \<and> rh_id h1 = rh_id h \<and>
      (rh_done h1 \<longleftrightarrow> rh_done h \<or> \<not> in_flight r)"
    using p by (auto simp: run_request_handle_poll in_flight_def split: prod.splits if_splits)
  with Suc.IH [OF q] e show ?case by auto
qed

text \<open>A library whose state counts the cancelled requests; a request completes on the second poll.\<close>

definition sample_client_api :: "nat client_api" where
  "sample_client_api = cache_api.extend sample_cache_api (client_api.fields
     (\<lambda>kp n a c. ((0, 5), c)) (\<lambda>kp n a c. ((0, 5), c)) (\<lambda>kp n a fd c. ((0, 5), c))
     (\<lambda>kp n a fd c. ((0, 5), c)) (\<lambda>kp n d ms c. ((0, 5), c))
     (\<lambda>p mt path hs c. ((0, 3), c)) (\<lambda>p r path now c. 0) (\<lambda>p c. 1) (\<lambda>p c. 0) (\<lambda>p c. (0, [4]))
     (\<lambda>p m c. (0, m)) (\<lambda>p now c. Callback (3, 0, 9) c (\<lambda>a c'. Finish 0 c')) (\<lambda>p c. 6) (\<lambda>p now c. (10, c))
     (\<lambda>p ca c. (0, c)) (\<lambda>p b c. ((), c)) (\<lambda>p c. (0, c)) (\<lambda>p mt path hs b c. ((0, 9), c))
     (\<lambda>p mt path hs b c. ((0, of_nat (length hs)), c))
     (\<lambda>p i c. ((if c = 0 then - 803 else 0, 9), c)) (\<lambda>p i c. ((), Suc c))
     (\<lambda>p i c. ((0, 9), c)) (\<lambda>p i n c. ((0, [], 0, 1), c)) (\<lambda>p i k c. (0, c)) (\<lambda>p i c. ((), c))
     (\<lambda>p c. (1, c)) (\<lambda>p c. c))"

lemmas sample_client_simps =
  sample_client_api_def sample_cache_api_def message_api.defs response_api.defs cache_api.defs client_api.defs

section \<open>Properties\<close>

text \<open>
  C16. A request goes out whole or not at all: when the path and every header are free of nul bytes,
  sending and submitting make exactly one library call, with that path, the method's code, the
  headers in order closed by one null entry, and the body (null when empty); otherwise both fail
  with \<^verbatim>\<open>ProtoInvalidHeader\<close> and the library is not called.
\<close>

theorem request_all_or_nothing:
  "run_state (request_submit A rb) w =
    (if CHR 0x00 \<notin> set (rb_path rb) \<and> request_clean (rb_headers rb)
     then (case c_client_request_submit A (rb_client rb) (method_code (rb_method rb)) (rb_path rb)
             (map Some (rb_headers rb) @ [None]) (slice_parts (rb_body rb)) (lib w) of
             ((rc, ident), c) \<Rightarrow>
               (if rc < 0 then Inl (error_from_code rc)
                else Inr \<lparr>rh_client = rb_client rb, rh_id = ident, rh_done = False\<rparr>,
                w\<lparr>lib := c, history := history w @ [Use KClient (rb_client rb)]\<rparr>))
     else (Inl ProtoInvalidHeader, w)) \<and>
   run_state (request_send A rb) w =
    (if CHR 0x00 \<notin> set (rb_path rb) \<and> request_clean (rb_headers rb)
     then (case c_client_send A (rb_client rb) (method_code (rb_method rb)) (rb_path rb)
             (map Some (rb_headers rb) @ [None]) (slice_parts (rb_body rb)) (lib w) of
             ((rc, msg), c) \<Rightarrow>
               (if rc < 0 then Inl (error_from_code rc) else Inr (Response msg),
                w\<lparr>lib := c, history := history w @
                  (if rc < 0 then [Use KClient (rb_client rb)]
                   else [Use KClient (rb_client rb), Acquire KMessage msg])\<rparr>))
     else (Inl ProtoInvalidHeader, w))"
  by (auto simp: request_submit_def request_send_def run_request_with_c owned_response_def
      opened_def error_check_def split: prod.splits sum.splits)

text \<open>
  The runtime's borrow-free submit is the builder's submit: \<^verbatim>\<open>submit_request\<close> with a path, headers
  and body has the same result (the id instead of the handle) and the same effect as building the
  same request and submitting it.
\<close>

lemma submit_request_is_submit:
  "run_state (client_submit_request A cl mt path hs body) w =
    (case run_state (request_submit A (request_set_body
        (fold (\<lambda>(n, v) rb. request_add_header rb n v) hs (client_request cl mt path)) body)) w of
       (r, w') \<Rightarrow> (map_ok rh_id r, w'))"
proof -
  have f: "fold (\<lambda>(n, v) rb. request_add_header rb n v) hs rb = rb\<lparr>rb_headers := rb_headers rb @ hs\<rparr>" for rb
    by (induction hs arbitrary: rb) (auto simp: request_add_header_def)
  show ?thesis
    by (auto simp: f client_submit_request_def request_submit_def run_request_with_c request_cstrings_eq
        cstring_new_def request_set_body_def client_request_def slice_parts_def error_check_def
        split: prod.splits)
qed

text \<open>
  C17. A request is cancelled at most once, and only while in flight: after any number of polls,
  dropping the handle makes no call if some poll returned a response or an error, and exactly one
  cancel of this request otherwise; an explicit \<^verbatim>\<open>cancel\<close> (which drops the handle too) is that same
  single call.
\<close>

theorem cancelled_at_most_once:
  assumes "run_state (poll_times n A h) w = ((rs, h'), w')" and "\<not> rh_done h"
  shows "lib (snd (run_state (request_handle_drop A h') w')) =
      (if \<exists>r \<in> set rs. \<not> in_flight r then lib w'
       else snd (c_client_request_cancel A (rh_client h) (rh_id h) (lib w'))) \<and>
    run_state (request_handle_cancel A h') w' = run_state (request_handle_drop A h') w'"
  using poll_times_done [OF assms(1)] assms(2)
  by (simp add: request_handle_drop_def request_handle_cancel_def run_cancel_inner)

theorem cancelled_at_most_once_witness:
  "lib (snd (run_state (do {
      (rs, h) \<leftarrow> poll_times 2 sample_client_api \<lparr>rh_client = 5, rh_id = 1, rh_done = False\<rparr>;
      request_handle_cancel sample_client_api h }) (world_init 0))) = 1"
proof -
  let ?h = "\<lparr>rh_client = 5, rh_id = 1, rh_done = False\<rparr>"
  have p: "run_state (poll_times 2 sample_client_api ?h) (world_init 0) =
      (([Inr None, Inr None], ?h), (world_init 0)\<lparr>history := [Use KClient 5, Use KClient 5]\<rparr>)"
    by (simp add: numeral_2_eq_2 run_request_handle_poll sample_client_simps world_init_def)
  show ?thesis
    using cancelled_at_most_once [OF p] p by (simp add: in_flight_def sample_client_simps world_init_def)
qed

text \<open>
  Every way to connect consumes the identity: whether the connection opens or fails, each of the
  five builders leaves the identity's key cell and its temporary copy zeroed and every other cell
  as it was; without an identity each fails with \<^verbatim>\<open>ConfigMissing\<close> before any call.
\<close>

lemma connects_wipe_identity:
  assumes "wipes I" and "cb_identity b = Some ident" and "id_priv ident < length (cells w)"
  shows "spent ident w (snd (run_state (client_connect I A b target addr) w)) \<and>
    spent ident w (snd (run_state (client_start_connect I A b target addr) w)) \<and>
    spent ident w (snd (run_state (client_connect_fd I A b target addr fd) w)) \<and>
    spent ident w (snd (run_state (client_start_connect_fd I A b target addr fd) w)) \<and>
    spent ident w (snd (run_state (client_connect_by_node_id I A b target dht millis) w)) \<and>
    run_state (client_connect I A client_builder target addr) w = (Inl ConfigMissing, w)"
proof -
  note s = connect_spends [OF assms]
  show ?thesis
    unfolding client_connect_def client_start_connect_def client_connect_fd_def
      client_start_connect_fd_def client_connect_by_node_id_def Let_def
    by (intro conjI s) (simp_all add: case_prod_beta with_identity_def client_builder_def)
qed

text \<open>
  A poll of a request is decoded exactly: code 0 hands over the message, the code of
  \<^verbatim>\<open>WouldBlock\<close> and only it means still in flight and leaves the handle pending, every other code is
  the error of that code and retires the handle; the runtime's poll by id agrees with the handle's.
\<close>

lemma request_poll_exact:
  "case c_client_request_poll A (cl_raw cl) ident (lib w) of ((rc, out), c) \<Rightarrow>
     fst (run_state (client_poll_request A cl ident) w) =
       fst (fst (run_state (request_handle_poll A \<lparr>rh_client = cl_raw cl, rh_id = ident, rh_done = d\<rparr>) w)) \<and>
     snd (run_state (client_poll_request A cl ident) w) =
       snd (run_state (request_handle_poll A \<lparr>rh_client = cl_raw cl, rh_id = ident, rh_done = d\<rparr>) w) \<and>
     fst (run_state (client_poll_request A cl ident) w) =
       (if rc = 0 then Inr (Some (Response out)) else if rc = - 803 then Inr None
        else Inl (error_from_code rc)) \<and>
     (rh_done (snd (fst (run_state (request_handle_poll A
         \<lparr>rh_client = cl_raw cl, rh_id = ident, rh_done = False\<rparr>) w))) \<longleftrightarrow> rc \<noteq> - 803)"
  by (auto simp: client_poll_request_def poll_result_def run_request_handle_poll split: prod.split)

end
