(* ===== verification/ClientLife.thy ===== *)
theory ClientLife
  imports Client
begin

text \<open>
  The life of a client as a state machine. A state is the client and the world; a step is one
  operation of the client's owner: a program that only uses the client through a borrow, a tick
  (during which the library runs the completion hook), installing a hook, attaching or detaching a
  shared cache, and cloning or dropping the owner's own references to caches. The invariant says what
  the monitor knows in every reachable state, and \<open>client_drop\<close> takes it back to the start.
\<close>

section \<open>Hooks\<close>

text \<open>A hook that disposes of the response it is given and otherwise keeps what it finds.\<close>

definition gentle :: "'c done_hook \<Rightarrow> bool" where
  "gentle f \<longleftrightarrow>
     (\<forall>i e m. preserves m (f i (Inl e))) \<and>
     (\<forall>i r m m' w. owns_handle KMessage (rp_msg r) m m' \<longrightarrow> coherent w m' \<longrightarrow>
        coherent (snd (run_state (f i (Inr r)) w)) m \<and>
        strong (snd (run_state (f i (Inr r)) w)) = strong w)"

definition completion_fresh :: "monitor \<Rightarrow> completion \<Rightarrow> bool" where
  "completion_fresh m q = (case q of (ident, st, msg) \<Rightarrow>
     st = 0 \<longrightarrow> (KMessage, msg) \<notin> live m \<and> regs m (KMessage, msg) = None \<and>
       borrows m (KMessage, msg) = None)"

lemma run_done_trampoline:
  "run_state (done_trampoline b (ident, st, msg)) w =
     (let w1 = w\<lparr>history := history w @
           (if st = 0 then [Acquire KMessage msg, Enter (db_id b)] else [Enter (db_id b)])\<rparr>;
          w2 = snd (run_state (db_f b ident
            (if st = 0 then Inr (Response msg) else Inl (error_from_code st))) w1)
      in ((), w2\<lparr>history := history w2 @ [Leave (db_id b)]\<rparr>))"
  by (simp add: done_trampoline_def Let_def case_prod_beta)

lemma coherent_enter:
  "coherent w m \<Longrightarrow> b \<in> boxes m \<Longrightarrow>
   coherent (w\<lparr>history := history w @ [Enter b]\<rparr>) (m\<lparr>running := b # running m\<rparr>)"
  by (simp add: coherent_def)

lemma coherent_leave:
  assumes "coherent w (m\<lparr>running := b # running m\<rparr>)"
  shows "coherent (w\<lparr>history := history w @ [Leave b]\<rparr>) m"
  using assms by (simp add: coherent_def)

lemma done_trampoline_preserves:
  fixes b :: "'c done_box"
  assumes "gentle (db_f b)" and "db_id b \<in> boxes m" and "completion_fresh m q"
  shows "preserves m (done_trampoline b q)"
proof (rule preservesI)
  fix w :: "'c world"
  assume coh: "coherent w m"
  obtain ident st msg where q: "q = (ident, st, msg)" by (cases q) auto
  let ?run = "m\<lparr>running := db_id b # running m\<rparr>"
  show "coherent (snd (run_state (done_trampoline b q) w)) m \<and>
    strong (snd (run_state (done_trampoline b q) w)) = strong w"
  proof (cases "st = 0")
    case True
    let ?w1 = "w\<lparr>history := history w @ [Acquire KMessage msg, Enter (db_id b)]\<rparr>"
    let ?m1 = "?run\<lparr>live := insert (KMessage, msg) (live m)\<rparr>"
    have "owns_handle KMessage (rp_msg (Response msg)) ?run ?m1"
      using assms(3) q True by (simp add: owns_handle_def completion_fresh_def)
    moreover have "coherent ?w1 ?m1"
      using coh assms(2) by (simp add: coherent_def)
    ultimately have "coherent (snd (run_state (db_f b ident (Inr (Response msg))) ?w1)) ?run \<and>
        strong (snd (run_state (db_f b ident (Inr (Response msg))) ?w1)) = strong ?w1"
      using assms(1) unfolding gentle_def by blast
    then show ?thesis
      using q True by (simp add: run_done_trampoline Let_def coherent_leave)
  next
    case False
    let ?w1 = "w\<lparr>history := history w @ [Enter (db_id b)]\<rparr>"
    have "coherent ?w1 ?run" by (rule coherent_enter [OF coh assms(2)])
    moreover have "preserves ?run (db_f b ident (Inl (error_from_code st)))"
      using assms(1) by (simp add: gentle_def)
    ultimately have "coherent (snd (run_state (db_f b ident (Inl (error_from_code st))) ?w1)) ?run \<and>
        strong (snd (run_state (db_f b ident (Inl (error_from_code st))) ?w1)) = strong ?w1"
      by (simp add: preserves_def)
    then show ?thesis
      using q False by (simp add: run_done_trampoline Let_def coherent_leave)
  qed
qed

section \<open>The state machine\<close>

definition holds_ref :: "'c client \<Rightarrow> ptr \<Rightarrow> nat" where
  "holds_ref cl q = (if cl_cache cl = Some q then 1 else 0)"

inductive client_step ::
  "('c, 'x) client_api_scheme \<Rightarrow> 'c client \<times> 'c world \<Rightarrow> 'c client \<times> 'c world \<Rightarrow> bool"
  for A :: "('c, 'x) client_api_scheme"
where
  use: "(\<forall>m. usable m (KClient, cl_raw cl) \<longrightarrow> preserves m (u :: ('c, unit) io)) \<Longrightarrow>
    client_step A (cl, w) (cl, snd (run_state u w))"
| tick: "(\<forall>m. judged w = Some m \<longrightarrow>
      session_all (completion_fresh m) (c_client_tick A (cl_raw cl) now (lib w))) \<Longrightarrow>
    client_step A (cl, w) (cl, snd (run_state (client_tick A cl now) w))"
| hook: "gentle f \<Longrightarrow>
    client_step A (cl, w) (run_state (client_on_request_done A cl f) w)"
| share: "holds_ref cl q < strong w q \<Longrightarrow>
    run_state (rc_clone q \<bind> (\<lambda>c. client_set_cache A cl (Some c))) w = ((r, cl'), w') \<Longrightarrow>
    client_step A (cl, w) (cl', w')"
| give: "holds_ref cl q < strong w q \<Longrightarrow>
    run_state (client_set_cache A cl (Some q)) w = ((r, cl'), w') \<Longrightarrow>
    client_step A (cl, w) (cl', w')"
| unset: "run_state (client_set_cache A cl None) w = ((r, cl'), w') \<Longrightarrow>
    client_step A (cl, w) (cl', w')"
| clone: "holds_ref cl q < strong w q \<Longrightarrow>
    client_step A (cl, w) (cl, snd (run_state (rc_clone q) w))"
| forget: "holds_ref cl q < strong w q \<Longrightarrow>
    client_step A (cl, w) (cl, snd (run_state (rc_drop A q) w))"

inductive_cases client_stepE: "client_step A s s'"

text \<open>What the monitor knows: the base, the live caches, the client with its hook and its borrow.\<close>

definition with_caches :: "monitor \<Rightarrow> 'c world \<Rightarrow> monitor" where
  "with_caches m w = m\<lparr>live := live m \<union> {(KCache, q) | q. 0 < strong w q}\<rparr>"

definition client_monitor :: "monitor \<Rightarrow> 'c client \<Rightarrow> 'c world \<Rightarrow> monitor" where
  "client_monitor m cl w = m\<lparr>
     live := insert (KClient, cl_raw cl) (live m) \<union> {(KCache, q) | q. 0 < strong w q},
     boxes := (case cl_done cl of None \<Rightarrow> boxes m | Some b \<Rightarrow> insert (db_id b) (boxes m)),
     regs := (regs m)((KClient, cl_raw cl) := map_option db_id (cl_done cl)),
     borrows := (borrows m)((KClient, cl_raw cl) := map_option (Pair KCache) (cl_cache cl))\<rparr>"

definition base_ok :: "monitor \<Rightarrow> 'c client \<Rightarrow> bool" where
  "base_ok m cl \<longleftrightarrow> (KClient, cl_raw cl) \<notin> live m \<and> regs m (KClient, cl_raw cl) = None \<and>
     borrows m (KClient, cl_raw cl) = None \<and>
     (\<forall>q. (KCache, q) \<notin> live m \<and> regs m (KCache, q) = None \<and> borrows m (KCache, q) = None) \<and>
     (\<forall>b. cl_done cl = Some b \<longrightarrow> db_id b \<notin> boxes m \<and> db_id b \<notin> set (running m) \<and> gentle (db_f b))"

definition client_inv :: "monitor \<Rightarrow> 'c client \<times> 'c world \<Rightarrow> bool" where
  "client_inv m s = (case s of (cl, w) \<Rightarrow> coherent w (client_monitor m cl w) \<and> base_ok m cl \<and>
     (\<forall>q. cl_cache cl = Some q \<longrightarrow> 0 < strong w q))"

section \<open>The invariant\<close>

lemma client_usable: "client_inv m (cl, w) \<Longrightarrow> usable (client_monitor m cl w) (KClient, cl_raw cl)"
  by (auto simp: client_inv_def usable_def client_monitor_def split: option.splits)

lemma client_reg_alive: "reg_alive (client_monitor m cl w) (KClient, cl_raw cl)"
  by (auto simp: reg_alive_def client_monitor_def split: option.splits)

lemma client_inv_keep:
  assumes "client_inv m (cl, w)" and "coherent w' (client_monitor m cl w)" and "strong w' = strong w"
  shows "client_inv m (cl, w')"
  using assms by (simp add: client_inv_def client_monitor_def)

lemma client_tick_inv:
  assumes "client_inv m (cl, w)"
    and "session_all (completion_fresh (client_monitor m cl w)) (c_client_tick A (cl_raw cl) now (lib w))"
  shows "client_inv m (cl, snd (run_state (client_tick A cl now) w))"
proof -
  let ?m = "client_monitor m cl w"
  have cb: "preserves ?m (client_callback cl q)" if "completion_fresh ?m q" for q
  proof (cases "cl_done cl")
    case None
    then show ?thesis by (simp add: client_callback_def preserves_return)
  next
    case (Some b)
    then have "gentle (db_f b)" and "db_id b \<in> boxes ?m"
      using assms(1) by (auto simp: client_inv_def base_ok_def client_monitor_def)
    with Some that show ?thesis
      by (simp add: client_callback_def done_trampoline_preserves)
  qed
  have coh: "coherent w ?m" using assms(1) by (simp add: client_inv_def)
  have "coherent (snd (run_state (drive KClient (cl_raw cl) (client_callback cl) (c_client_tick A (cl_raw cl) now)) w)) ?m \<and>
      strong (snd (run_state (drive KClient (cl_raw cl) (client_callback cl) (c_client_tick A (cl_raw cl) now)) w)) = strong w"
    by (rule drive_preserves [where Q = "completion_fresh ?m"])
      (use client_usable [OF assms(1)] client_reg_alive cb coh assms(2) in auto)
  then show ?thesis
    using client_inv_keep [OF assms(1)] by (simp add: client_tick_def case_prod_beta)
qed

lemma client_hook_inv:
  assumes "client_inv m (cl, w)" and "gentle f"
  shows "client_inv m (run_state (client_on_request_done A cl f) w)"
proof (cases "cl_done cl")
  case None
  have u: "usable (client_monitor m cl w) (KClient, cl_raw cl)" by (rule client_usable [OF assms(1)])
  have c: "next_box w \<notin> boxes m" "next_box w \<notin> set (running m)"
    using assms(1) None by (auto simp: client_inv_def coherent_def client_monitor_def)
  show ?thesis
    using None assms c u
    by (auto simp: client_on_request_done_def client_inv_def coherent_def client_monitor_def base_ok_def
        usable_def less_Suc_eq split: option.splits)
next
  case (Some b)
  have u: "usable (client_monitor m cl w) (KClient, cl_raw cl)" by (rule client_usable [OF assms(1)])
  have c: "next_box w \<notin> boxes m" "next_box w \<notin> set (running m)" "next_box w \<noteq> db_id b"
    using assms(1) Some by (auto simp: client_inv_def coherent_def client_monitor_def)
  show ?thesis
    using Some assms c u
    by (auto simp: client_on_request_done_def client_inv_def coherent_def client_monitor_def base_ok_def
        usable_def less_Suc_eq split: option.splits)
qed

lemma rc_drop_inv:
  assumes "client_inv m (cl, w)" and "holds_ref cl q < strong w q"
  shows "client_inv m (cl, snd (run_state (rc_drop A q) w))"
proof (cases "strong w q = 1")
  case True
  then have h: "cl_cache cl \<noteq> Some q"
    using assms(2) by (auto simp: holds_ref_def)
  let ?m = "client_monitor m cl w"
  let ?w' = "snd (run_state (rc_drop A q) w)"
  have caches: "{(KCache, p) | p. 0 < strong ?w' p} = {(KCache, p) | p. 0 < strong w p} - {(KCache, q)}"
    using True by (auto simp: rc_drop_def cache_drop_def)
  have b: "(KCache, q) \<notin> live m" "regs m (KCache, q) = None" "borrows m (KCache, q) = None"
    using assms(1) by (simp_all add: client_inv_def base_ok_def)
  have l: "insert (KClient, cl_raw cl) (live m \<union> {(KCache, p) | p. 0 < strong w p}) - {(KCache, q)} =
      insert (KClient, cl_raw cl) (live m \<union> ({(KCache, p) | p. 0 < strong w p} - {(KCache, q)}))"
    using b(1) by auto
  have r: "(regs m)((KCache, q) := None) = regs m" "(borrows m)((KCache, q) := None) = borrows m"
    using b by (simp_all add: fun_upd_idem)
  have "usable ?m (KCache, q)" and "reg_alive ?m (KCache, q)"
    using b True by (auto simp: client_monitor_def usable_def)
  then have step: "mon_step (Release KCache q) ?m = Some (client_monitor m cl ?w')"
    by (simp add: client_monitor_def caches l r fun_upd_twist [of "(KClient, cl_raw cl)" "(KCache, q)"])
  have "coherent ?w' (client_monitor m cl ?w')"
    using assms(1) step True
    by (auto simp: client_inv_def coherent_def rc_drop_def cache_drop_def client_monitor_def split: option.splits)
  then show ?thesis
    using assms(1) True h by (auto simp: client_inv_def rc_drop_def cache_drop_def)
next
  case False
  let ?w' = "snd (run_state (rc_drop A q) w)"
  have s: "0 < strong ?w' p \<longleftrightarrow> 0 < strong w p" for p
    using False assms(2) by (auto simp: rc_drop_def)
  then have "client_monitor m cl ?w' = client_monitor m cl w"
    by (simp add: client_monitor_def)
  then show ?thesis
    using assms(1) s False by (auto simp: client_inv_def rc_drop_def)
qed

lemma rc_clone_inv:
  assumes "client_inv m (cl, w)" and "holds_ref cl q < strong w q"
  shows "client_inv m (cl, snd (run_state (rc_clone q) w))"
proof -
  let ?w' = "snd (run_state (rc_clone q) w)"
  have "0 < strong ?w' p \<longleftrightarrow> 0 < strong w p" for p
    using assms(2) by (auto simp: rc_clone_def)
  then have "client_monitor m cl ?w' = client_monitor m cl w"
    by (simp add: client_monitor_def)
  then show ?thesis
    using assms(1) by (auto simp: client_inv_def rc_clone_def)
qed

lemma client_borrow_inv:
  assumes "client_inv m (cl, w)" and "\<And>q. cache = Some q \<Longrightarrow> 0 < strong w q"
    and "w' = w\<lparr>lib := c, history := history w @
      (case cache of None \<Rightarrow> [] | Some q \<Rightarrow> [Use KCache q]) @
      [Use KClient (cl_raw cl), Borrow KClient (cl_raw cl) (map_option (Pair KCache) cache)]\<rparr>"
  shows "client_inv m (cl\<lparr>cl_cache := cache\<rparr>, w')"
proof -
  let ?m = "client_monitor m cl w"
  have u: "usable ?m (KClient, cl_raw cl)" by (rule client_usable [OF assms(1)])
  have q: "usable ?m (KCache, q)" if "cache = Some q" for q
    using assms(1,2) that by (auto simp: client_inv_def usable_def client_monitor_def base_ok_def)
  have "mon_run ((case cache of None \<Rightarrow> [] | Some q \<Rightarrow> [Use KCache q]) @
      [Use KClient (cl_raw cl), Borrow KClient (cl_raw cl) (map_option (Pair KCache) cache)]) ?m =
    Some (client_monitor m (cl\<lparr>cl_cache := cache\<rparr>) w')"
    using u q assms(2,3) by (cases cache) (auto simp: client_monitor_def)
  then show ?thesis
    using assms by (cases cache)
      (auto simp: client_inv_def coherent_def base_ok_def client_monitor_def split: option.splits)
qed

lemma client_set_cache_inv:
  assumes "client_inv m (cl, w)" and "\<And>q. cache = Some q \<Longrightarrow> holds_ref cl q < strong w q"
    and "run_state (client_set_cache A cl cache) w = ((r, cl'), w')"
  shows "client_inv m (cl', w')"
proof -
  let ?rc = "c_client_set_cache A (cl_raw cl) (case cache of None \<Rightarrow> null_ptr | Some c \<Rightarrow> c) (lib w)"
  let ?use = "case cache of None \<Rightarrow> [] | Some q \<Rightarrow> [Use KCache q]"
  let ?w1 = "w\<lparr>lib := snd ?rc, history := history w @ ?use @ [Use KClient (cl_raw cl)]\<rparr>"
  show ?thesis
  proof (cases "error_check (fst ?rc)")
    case (Inl e)
    then have eq: "cl' = cl" "w' = snd (run_state (drop_cache_ref A cache) ?w1)"
      using assms(3) by (cases cache; auto simp: client_set_cache_def Let_def case_prod_beta)+
    have w1: "client_inv m (cl, ?w1)"
    proof (rule client_inv_keep [OF assms(1)])
      have q: "usable (client_monitor m cl w) (KCache, q)" if "cache = Some q" for q
        using assms(1,2) that by (auto simp: client_inv_def usable_def client_monitor_def base_ok_def)
      show "coherent ?w1 (client_monitor m cl w)"
        using assms(1) q client_usable [OF assms(1)]
        by (cases cache) (auto simp: client_inv_def coherent_def)
    qed simp
    show ?thesis
    proof (cases cache)
      case None
      then show ?thesis using eq w1 by (simp add: drop_cache_ref_def)
    next
      case (Some q)
      have "holds_ref cl q < strong ?w1 q" using assms(2) Some by simp
      from rc_drop_inv [OF w1 this] show ?thesis using eq Some by (simp add: drop_cache_ref_def)
    qed
  next
    case (Inr u)
    let ?cl = "cl\<lparr>cl_cache := cache\<rparr>"
    let ?w2 = "w\<lparr>lib := snd ?rc, history := history w @ ?use @
      [Use KClient (cl_raw cl), Borrow KClient (cl_raw cl) (map_option (Pair KCache) cache)]\<rparr>"
    have eq: "cl' = ?cl" "w' = snd (run_state (drop_cache_ref A (cl_cache cl)) ?w2)"
      using Inr assms(3) by (cases cache; auto simp: client_set_cache_def Let_def case_prod_beta)+
    have w2: "client_inv m (?cl, ?w2)"
      by (rule client_borrow_inv [OF assms(1) _ refl]) (use assms(2) in \<open>fastforce simp: holds_ref_def\<close>)
    show ?thesis
    proof (cases "cl_cache cl")
      case None
      then show ?thesis using eq w2 by (simp add: drop_cache_ref_def)
    next
      case (Some p)
      then have "0 < strong w p" using assms(1) by (simp add: client_inv_def)
      then have "holds_ref ?cl p < strong ?w2 p"
        using assms(2) [of p] Some by (auto simp: holds_ref_def split: if_splits)
      from rc_drop_inv [OF w2 this] show ?thesis using eq Some by (simp add: drop_cache_ref_def)
    qed
  qed
qed

lemma client_step_inv:
  assumes "client_step A s s'" and "client_inv m s"
  shows "client_inv m s'"
  using assms
proof (induction rule: client_step.induct)
  case (use cl u w)
  then have "preserves (client_monitor m cl w) u" using client_usable by blast
  moreover have "coherent w (client_monitor m cl w)" using use by (simp add: client_inv_def)
  ultimately show ?case using client_inv_keep [OF use(2)] by (simp add: preserves_def)
next
  case (tick w cl now)
  then have "judged w = Some (client_monitor m cl w)" by (simp add: client_inv_def coherent_def)
  with tick show ?case using client_tick_inv by blast
next
  case (hook f cl w)
  then show ?case using client_hook_inv by blast
next
  case (share cl q w r cl' w')
  let ?w1 = "snd (run_state (rc_clone q) w)"
  have "client_inv m (cl, ?w1)" using rc_clone_inv share by blast
  moreover have "run_state (client_set_cache A cl (Some q)) ?w1 = ((r, cl'), w')"
    using share by (simp add: rc_clone_def)
  moreover have "holds_ref cl q < strong ?w1 q" using share by (simp add: rc_clone_def)
  ultimately show ?case using client_set_cache_inv by (metis option.inject)
next
  case (give cl q w r cl' w')
  then show ?case using client_set_cache_inv by (metis option.inject)
next
  case (unset cl w r cl' w')
  then show ?case using client_set_cache_inv by (metis option.distinct(1))
next
  case (clone cl q w)
  then show ?case by (simp add: rc_clone_inv)
next
  case (forget cl q w)
  then show ?case by (simp add: rc_drop_inv)
qed

interpretation client_run: step_invariant "client_step A" "client_inv m"
  for A :: "('c, 'x) client_api_scheme" and m
  by unfold_locales (rule client_step_inv)

lemmas client_reach_inv = client_run.reach_keeps

section \<open>Start and end of a life\<close>

definition no_caches :: "monitor \<Rightarrow> bool" where
  "no_caches m \<longleftrightarrow> (\<forall>q. (KCache, q) \<notin> live m \<and> regs m (KCache, q) = None \<and> borrows m (KCache, q) = None)"

lemma rc_drop_with_caches:
  assumes "coherent w (with_caches m w)" and "no_caches m" and "0 < strong w q"
  shows "coherent (snd (run_state (rc_drop A q) w)) (with_caches m (snd (run_state (rc_drop A q) w)))"
proof (cases "strong w q = 1")
  case True
  let ?w' = "snd (run_state (rc_drop A q) w)"
  have b: "(KCache, q) \<notin> live m" "regs m (KCache, q) = None" "borrows m (KCache, q) = None"
    using assms(2) by (simp_all add: no_caches_def)
  have caches: "{(KCache, p) | p. 0 < strong ?w' p} = {(KCache, p) | p. 0 < strong w p} - {(KCache, q)}"
    using True by (auto simp: rc_drop_def cache_drop_def)
  have "live m \<union> {(KCache, p) | p. 0 < strong w p} - {(KCache, q)} =
      live m \<union> ({(KCache, p) | p. 0 < strong w p} - {(KCache, q)})"
    using b(1) by auto
  moreover have "usable (with_caches m w) (KCache, q)"
    using b True by (simp add: usable_def with_caches_def)
  ultimately have "mon_step (Release KCache q) (with_caches m w) = Some (with_caches m ?w')"
    using b by (simp add: with_caches_def caches fun_upd_idem)
  then show ?thesis
    using assms(1) True by (auto simp: coherent_def rc_drop_def cache_drop_def with_caches_def)
next
  case False
  let ?w' = "snd (run_state (rc_drop A q) w)"
  have "0 < strong ?w' p \<longleftrightarrow> 0 < strong w p" for p
    using False assms(3) by (auto simp: rc_drop_def)
  then have "with_caches m ?w' = with_caches m w"
    by (simp add: with_caches_def)
  then show ?thesis using assms(1) False by (simp add: rc_drop_def)
qed

lemma client_drop_outcome:
  assumes "client_inv m (cl, w)"
  shows "coherent (snd (run_state (client_drop A cl) w)) (with_caches m (snd (run_state (client_drop A cl) w)))"
proof -
  let ?p = "(KClient, cl_raw cl)"
  let ?evs = "Release KClient (cl_raw cl) # (case cl_done cl of None \<Rightarrow> [] | Some b \<Rightarrow> [BoxDrop (db_id b)])"
  let ?w1 = "w\<lparr>lib := c_client_close A (cl_raw cl) (lib w), history := history w @ ?evs\<rparr>"
  have o: "?p \<notin> live m" "regs m ?p = None" "borrows m ?p = None" and nc: "no_caches m"
    and hk: "\<And>b. cl_done cl = Some b \<Longrightarrow> db_id b \<notin> boxes m \<and> db_id b \<notin> set (running m)"
    and ca: "\<And>q. cl_cache cl = Some q \<Longrightarrow> 0 < strong w q"
    using assms by (auto simp: client_inv_def base_ok_def no_caches_def)
  have l: "insert ?p (live m) \<union> {(KCache, q) |q. 0 < strong w q} - {?p} =
      live m \<union> {(KCache, q) |q. 0 < strong w q}"
    using o(1) by auto
  have ev: "mon_run ?evs (client_monitor m cl w) = Some (with_caches m w)"
    using client_usable [OF assms] client_reg_alive [of m cl w] l hk o
    by (cases "cl_done cl") (auto simp: client_monitor_def with_caches_def fun_upd_idem)
  have j: "judged w = Some (client_monitor m cl w)"
    using assms by (simp add: client_inv_def coherent_def)
  have "mon_run (history w @ ?evs) mon_init = Some (with_caches m w)"
    by (rule trans [OF mon_run_append_Some [OF j] ev])
  moreover have "set (running m) \<subseteq> boxes m"
    using assms hk by (auto simp: client_inv_def coherent_def client_monitor_def split: option.splits)
  ultimately have w1: "coherent ?w1 (with_caches m ?w1)"
    using assms by (auto simp: client_inv_def coherent_def with_caches_def client_monitor_def
        simp del: mon_run.simps split: option.splits)
  have run: "snd (run_state (client_drop A cl) w) = snd (run_state (drop_cache_ref A (cl_cache cl)) ?w1)"
    by (cases "cl_done cl") (simp_all add: client_drop_def)
  show ?thesis
  proof (cases "cl_cache cl")
    case None
    then show ?thesis using run w1 by (simp add: drop_cache_ref_def)
  next
    case (Some q)
    then show ?thesis using run rc_drop_with_caches [OF w1 nc, of q] ca by (simp add: drop_cache_ref_def)
  qed
qed

lemma client_connect_outcome:
  assumes "coherent w (with_caches m w)" and "no_caches m"
    and "\<And>kp. fresh_ptr KClient (opn kp) (lib w) m"
    and "run_state (with_identity I b (\<lambda>ident. try_ok (with_keypair I ident (\<lambda>kp.
        checked_out (acquire KClient (opn kp)))) (\<lambda>raw. ret_ok (client_wrap raw)))) w = (r, w')"
  shows "case r of Inl e \<Rightarrow> coherent w' (with_caches m w') | Inr cl \<Rightarrow> client_inv m (cl, w')"
proof (cases "cb_identity b")
  case None
  then show ?thesis using assms(1,4) by (auto simp: with_identity_def)
next
  case (Some ident)
  define secret where "secret = cell_at w (id_priv ident)"
  obtain rc raw c where out: "opn (id_pub ident, secret) (lib w) = ((rc, raw), c)" by (metis prod.collapse)
  have r: "r = map_ok (\<lambda>_. client_wrap raw) (error_check rc)"
    and h: "history w' = history w @ (if 0 \<le> rc then [Acquire KClient raw] else [])"
    and s: "slots w' = slots w" "next_box w' = next_box w" "strong w' = strong w"
    using assms(4) Some out
    by (auto simp: with_identity_def run_with_keypair Let_def secret_def identity_drop_def
        case_prod_beta error_check_def split: sum.splits if_splits)
  have wc: "with_caches m w' = with_caches m w" by (simp add: with_caches_def s)
  show ?thesis
  proof (cases "rc < 0")
    case True
    then show ?thesis
      using r h s wc coherent_same [OF assms(1), of w'] by (simp add: error_check_def)
  next
    case False
    have fr: "(KClient, raw) \<notin> live m" "regs m (KClient, raw) = None" "borrows m (KClient, raw) = None"
      using assms(3) [of "(id_pub ident, secret)"] out False by (auto simp: fresh_ptr_def)
    have m': "client_monitor m (client_wrap raw) w' =
        (with_caches m w)\<lparr>live := insert (KClient, raw) (live (with_caches m w))\<rparr>"
      using fr s by (simp add: client_monitor_def client_wrap_def with_caches_def fun_upd_idem)
    have "coherent w' (client_monitor m (client_wrap raw) w')"
      unfolding m' using assms(1) h s False by (auto simp: coherent_def with_caches_def)
    then show ?thesis
      using r False fr assms(2) by (simp add: client_inv_def base_ok_def no_caches_def error_check_def client_wrap_def)
  qed
qed

definition quiet_hook :: "('c, 'x) client_api_scheme \<Rightarrow> 'c done_hook" where
  "quiet_hook A = (\<lambda>i r. case r of
     Inl e \<Rightarrow> State_Monad.return (Some ())
   | Inr resp \<Rightarrow> do { response_drop A resp; State_Monad.return (Some ()) })"

lemma quiet_hook_gentle: "gentle (quiet_hook A)"
proof -
  have "coherent (snd (run_state (quiet_hook A i (Inr r)) w)) m \<and>
      strong (snd (run_state (quiet_hook A i (Inr r)) w)) = strong w"
    if "owns_handle KMessage (rp_msg r) m m'" and "coherent w m'" for i r m m' and w :: "'a world"
    using owns_release [OF that, of "c_message_free A (rp_msg r)"]
    by (simp add: quiet_hook_def response_drop_def)
  then show ?thesis by (auto simp: gentle_def quiet_hook_def preserves_return)
qed

section \<open>Properties\<close>

text \<open>
  C4. A client is clean for life, and its cache outlives every borrow: connect, then take any steps
  (uses, ticks that run the hook, new hooks, attaching, replacing and detaching shared caches,
  cloning and dropping the owner's references, in any order), then drop. The monitor accepts the
  whole history, so the library never reaches a freed cache or hook through the client, no
  reference count runs out early, and at the end exactly the caches still referenced are live. A
  failed connect leaves nothing behind.
\<close>

theorem client_life_is_clean:
  assumes "coherent w (with_caches m w)" and "no_caches m"
    and "\<And>kp. fresh_ptr KClient (c_client_connect A kp (node_id_raw target) (address_as_raw addr)) (lib w) m"
    and "run_state (client_connect I A b target addr) w = (r, w1)"
    and "\<And>cl. r = Inr cl \<Longrightarrow> (client_step A)\<^sup>*\<^sup>* (cl, w1) (cl', w2)"
  shows "case r of
      Inl e \<Rightarrow> coherent w1 (with_caches m w1)
    | Inr cl \<Rightarrow> coherent (snd (run_state (client_drop A cl') w2))
        (with_caches m (snd (run_state (client_drop A cl') w2)))"
proof -
  have o: "case r of Inl e \<Rightarrow> coherent w1 (with_caches m w1) | Inr cl \<Rightarrow> client_inv m (cl, w1)"
    by (rule client_connect_outcome [OF assms(1-3)]) (use assms(4) in \<open>simp add: client_connect_def\<close>)
  show ?thesis
  proof (cases r)
    case (Inl e)
    with o show ?thesis by simp
  next
    case (Inr cl)
    then have "client_inv m (cl', w2)" using o assms(5) client_reach_inv by fastforce
    with Inr show ?thesis by (simp add: client_drop_outcome)
  qed
qed

theorem client_life_is_clean_witness:
  "\<exists>w1 w2. run_state (client_connect sample_identity_api sample_client_api
       \<lparr>cb_identity = Some \<lparr>id_node = NodeId [98], id_pub = [97], id_priv = 0\<rparr>\<rparr> (NodeId [1]) (Address [2]))
      ((world_init 0)\<lparr>cells := [[5, 6]]\<rparr>) = (Inr (client_wrap 5), w1) \<and>
    run_state (client_on_request_done sample_client_api (client_wrap 5) (quiet_hook sample_client_api)) w1 =
      (\<lparr>cl_raw = 5, cl_cache = None, cl_done = Some \<lparr>db_id = 0, db_f = quiet_hook sample_client_api\<rparr>\<rparr>, w2) \<and>
    coherent (snd (run_state (client_drop sample_client_api
      \<lparr>cl_raw = 5, cl_cache = None, cl_done = Some \<lparr>db_id = 0, db_f = quiet_hook sample_client_api\<rparr>\<rparr>) w2)) mon_init"
proof -
  let ?w = "(world_init 0)\<lparr>cells := [[5, 6]]\<rparr> :: nat world"
  let ?b = "\<lparr>cb_identity = Some \<lparr>id_node = NodeId [98], id_pub = [97], id_priv = 0\<rparr>\<rparr>"
  let ?cl' = "\<lparr>cl_raw = 5, cl_cache = None, cl_done = Some \<lparr>db_id = 0, db_f = quiet_hook sample_client_api\<rparr>\<rparr>"
  have wi: "with_caches mon_init v = mon_init" if "strong v = (\<lambda>_. 0)" for v :: "nat world"
    using that by (simp add: with_caches_def mon_init_def)
  have coh: "coherent ?w (with_caches mon_init ?w)"
    by (simp add: wi world_init_def) (simp add: coherent_def mon_init_def)
  have nc: "no_caches mon_init" by (simp add: no_caches_def mon_init_def)
  have fr: "fresh_ptr KClient (c_client_connect sample_client_api kp (node_id_raw (NodeId [1]))
      (address_as_raw (Address [2]))) (lib ?w) mon_init" for kp
    by (simp add: fresh_ptr_def mon_init_def sample_client_simps)
  obtain w1 where c: "run_state (client_connect sample_identity_api sample_client_api ?b (NodeId [1]) (Address [2])) ?w
      = (Inr (client_wrap 5), w1)" and s1: "strong w1 = (\<lambda>_. 0)" and b1: "next_box w1 = 0"
    by (simp add: client_connect_def with_identity_def run_with_keypair Let_def identity_drop_def
        sample_client_simps error_check_def world_init_def)
  obtain w2 where h: "run_state (client_on_request_done sample_client_api (client_wrap 5)
      (quiet_hook sample_client_api)) w1 = (?cl', w2)" and s2: "strong w2 = (\<lambda>_. 0)"
    by (simp add: client_on_request_done_def client_wrap_def b1 s1)
  have "(client_step sample_client_api)\<^sup>*\<^sup>* (client_wrap 5, w1) (?cl', w2)"
    using client_step.hook [OF quiet_hook_gentle, of sample_client_api "client_wrap 5" w1 sample_client_api] h by auto
  then have "coherent (snd (run_state (client_drop sample_client_api ?cl') w2))
      (with_caches mon_init (snd (run_state (client_drop sample_client_api ?cl') w2)))"
    using client_life_is_clean [OF coh nc fr c, of ?cl' w2] by simp
  moreover have "strong (snd (run_state (client_drop sample_client_api ?cl') w2)) = (\<lambda>_. 0)"
    using s2 by (simp add: client_drop_def drop_cache_ref_def)
  ultimately show ?thesis using c h wi by auto
qed

text \<open>
  C30. Replacing the completion hook from inside the hook frees a running closure:
  \<^verbatim>\<open>on_request_done\<close> drops the previous box at once, so when it is called while that very hook is
  running (it takes \<open>&self\<close>, so a hook that holds the client can call it) the monitor stops.
\<close>

theorem hook_replacing_itself_dangles:
  assumes "judged w = Some m" and "cl_done cl = Some b" and "db_id b \<in> set (running m)"
  shows "judged (snd (run_state (client_on_request_done A cl f) w)) = None"
  using assms by (auto simp: client_on_request_done_def mon_run_append split: option.split)

theorem hook_replacing_itself_dangles_witness:
  "judged (snd (run_state (client_on_request_done sample_client_api
       \<lparr>cl_raw = 5, cl_cache = None, cl_done = Some \<lparr>db_id = 0, db_f = quiet_hook sample_client_api\<rparr>\<rparr>
       (quiet_hook sample_client_api))
     ((world_init 0)\<lparr>history := [Acquire KClient 5, BoxNew 0, Register KClient 5 0, Drive KClient 5, Enter 0],
        next_box := 1\<rparr>))) = None"
proof -
  let ?w = "(world_init 0)\<lparr>history := [Acquire KClient 5, BoxNew 0, Register KClient 5 0, Drive KClient 5, Enter 0],
        next_box := 1\<rparr> :: nat world"
  have "judged ?w = Some \<lparr>live = {(KClient, 5)}, boxes = {0}, regs = (\<lambda>_. None)((KClient, 5) \<mapsto> 0),
      running = [0], borrows = (\<lambda>_. None)\<rparr>"
    by (simp add: mon_init_def usable_def reg_alive_def)
  then show ?thesis
    by (rule hook_replacing_itself_dangles [where b = "\<lparr>db_id = 0, db_f = quiet_hook sample_client_api\<rparr>"]) simp_all
qed

end
