(* ===== verification/Shamir.thy ===== *)
theory Shamir
  imports Boundary
begin

text \<open>
  \<^verbatim>\<open>nwep/src/shamir.rs\<close>: the checks around the library's secret sharing, the packing of shares
  into one buffer and the cutting of the packed output into shares. The arithmetic of the sharing
  scheme is in the library; \<open>shares_secret\<close> is its documented contract.
\<close>

section \<open>Library\<close>

text \<open>
  \<^verbatim>\<open>nwep_shamir_split\<close> takes the secret, the threshold and the count and produces the packed
  shares; \<^verbatim>\<open>nwep_shamir_combine\<close> takes the packed shares, their count and length and the capacity of
  the output buffer.
\<close>

record 'c shamir_api =
  c_shamir_split :: "bytes \<Rightarrow> nat \<Rightarrow> nat \<Rightarrow> 'c producer"
  c_shamir_combine :: "bytes \<Rightarrow> nat \<Rightarrow> nat \<Rightarrow> nat \<Rightarrow> 'c \<Rightarrow> (int \<times> bytes \<times> nat) \<times> 'c"

section \<open>Operations\<close>

definition shamir_split :: "('c, 'x) shamir_api_scheme \<Rightarrow> bytes \<Rightarrow> nat \<Rightarrow> nat \<Rightarrow> ('c, bytes list) io_result" where
  "shamir_split A secret t n =
     (if \<not> (2 \<le> n \<and> n \<le> 255) \<or> \<not> (2 \<le> t \<and> t \<le> n) then ret_err ConfigInvalid
      else try_ok (two_call (c_shamir_split A secret t n)) (\<lambda>packed.
        ret_ok (chunks (1 + length secret) packed)))"

definition shamir_combine :: "('c, 'x) shamir_api_scheme \<Rightarrow> bytes list \<Rightarrow> ('c, bytes) io_result" where
  "shamir_combine A shares =
     (if length shares < 2 then ret_err ConfigInvalid
      else do {
        let share_len = length (hd shares);
        (if share_len < 2 \<or> (\<exists>s \<in> set shares. length s \<noteq> share_len) then ret_err ConfigInvalid
         else do {
           let packed = concat shares;
           (rc, written, out_len) \<leftarrow> call (c_shamir_combine A packed (length shares) share_len (share_len - 1));
           try_ok (lift_res (error_check rc)) (\<lambda>_.
             ret_ok (take out_len (overwrite written (zeros (share_len - 1)))))
         })
      })"

section \<open>Contract of the library\<close>

text \<open>
  The shares a split of this secret yields: \<open>n\<close> of them, each an index byte and as many bytes as
  the secret; the packed output lists them one after the other.
\<close>

definition splits_into ::
  "('c, 'x) shamir_api_scheme \<Rightarrow> bytes \<Rightarrow> nat \<Rightarrow> nat \<Rightarrow> 'c \<Rightarrow> bytes list \<Rightarrow> bool" where
  "splits_into A secret t n c shares \<longleftrightarrow>
     sized (c_shamir_split A secret t n) c (concat shares) \<and> length shares = n \<and>
     (\<forall>s \<in> set shares. length s = 1 + length secret)"

text \<open>Any list of at least \<open>t\<close> of these shares, packed, combines to the secret.\<close>

definition recombines ::
  "('c, 'x) shamir_api_scheme \<Rightarrow> bytes \<Rightarrow> nat \<Rightarrow> bytes list \<Rightarrow> bool" where
  "recombines A secret t shares \<longleftrightarrow>
     (\<forall>sub c. distinct sub \<longrightarrow> set sub \<subseteq> set shares \<longrightarrow> t \<le> length sub \<longrightarrow>
        (\<exists>rc c'. c_shamir_combine A (concat sub) (length sub) (1 + length secret) (length secret) c =
           ((rc, secret, length secret), c') \<and> 0 \<le> rc))"

section \<open>Lemmas\<close>

lemma shamir_split_result:
  assumes "splits_into A secret t n (lib w) shares" and "2 \<le> t" and "t \<le> n" and "n \<le> 255"
  shows "fst (run_state (shamir_split A secret t n) w) = Inr shares"
proof -
  have "fst (run_state (two_call (c_shamir_split A secret t n)) w) = Inr (concat shares)"
    using assms(1) by (simp add: splits_into_def two_call_sized)
  moreover have "chunks (1 + length secret) (concat shares) = shares"
    by (rule chunks_concat) (use assms(1) in \<open>auto simp: splits_into_def\<close>)
  ultimately show ?thesis
    using assms(2-4) by (auto simp: shamir_split_def split: prod.splits)
qed

lemma shamir_combine_result:
  assumes "recombines A secret t shares" and "\<forall>s \<in> set shares. length s = 1 + length secret"
    and "distinct sub" and "set sub \<subseteq> set shares" and "t \<le> length sub" and "2 \<le> t" and "secret \<noteq> []"
  shows "fst (run_state (shamir_combine A sub) w) = Inr secret"
proof -
  have "sub \<noteq> []" using assms(5,6) by auto
  then have "hd sub \<in> set shares" using assms(4) by auto
  then have len: "length (hd sub) = 1 + length secret" using assms(2) by simp
  have all: "\<not> (\<exists>x \<in> set sub. length x \<noteq> length (hd sub))"
    using assms(2,4) len by auto
  have bounds: "\<not> length sub < 2" "\<not> length (hd sub) < 2"
    using assms(5,6,7) len by (simp_all add: Suc_le_eq)
  obtain rc c' where "c_shamir_combine A (concat sub) (length sub) (1 + length secret) (length secret) (lib w) =
      ((rc, secret, length secret), c')" and "0 \<le> rc"
    using assms(1,3-5) unfolding recombines_def by blast
  moreover have "overwrite secret (zeros (length secret)) = secret"
    by (simp add: overwrite_full)
  ultimately show ?thesis
    using bounds all by (simp add: shamir_combine_def Let_def len)
qed

definition sample_shamir_api :: "unit shamir_api" where
  "sample_shamir_api = \<lparr>
     c_shamir_split = (\<lambda>secret t n buf c.
       let out = concat (map (\<lambda>i. of_nat i # secret) [1..<Suc n])
       in ((0, if buf = None then [] else out, length out), c)),
     c_shamir_combine = (\<lambda>packed k len cap c. ((0, take cap (drop 1 packed), cap), c))\<rparr>"

section \<open>Properties\<close>

text \<open>
  C22. Any quorum recovers the secret: for 2 <= t <= n <= 255 and a secret that is not empty, if the
  library keeps its contract, splitting gives exactly \<open>n\<close> shares of one byte more than the secret,
  and combining any \<open>t\<close> or more distinct ones, in any order, gives the secret back.
\<close>

theorem shamir_quorum_recovers:
  assumes "2 \<le> t" and "t \<le> n" and "n \<le> 255" and "secret \<noteq> []"
    and "splits_into A secret t n (lib w) shares" and "recombines A secret t shares"
    and "distinct sub" and "set sub \<subseteq> set shares" and "t \<le> length sub"
  shows "fst (run_state (shamir_split A secret t n) w) = Inr shares \<and> length shares = n \<and>
    (\<forall>s \<in> set shares. length s = length secret + 1) \<and>
    fst (run_state (shamir_combine A sub) v) = Inr secret"
proof -
  have "fst (run_state (shamir_split A secret t n) w) = Inr shares"
    by (rule shamir_split_result [OF assms(5,1,2,3)])
  moreover have "fst (run_state (shamir_combine A sub) v) = Inr secret"
    by (rule shamir_combine_result [OF assms(6) _ assms(7-9,1,4)])
      (use assms(5) in \<open>simp add: splits_into_def\<close>)
  ultimately show ?thesis using assms(5) by (simp add: splits_into_def)
qed

theorem shamir_quorum_recovers_witness:
  "fst (run_state (shamir_split sample_shamir_api [7, 8] 2 2) (world_init ())) = Inr [[1, 7, 8], [2, 7, 8]] \<and>
   fst (run_state (shamir_combine sample_shamir_api [[2, 7, 8], [1, 7, 8]]) (world_init ())) = Inr [7, 8]"
proof -
  have s: "splits_into sample_shamir_api [7, 8] 2 2 (lib (world_init ())) [[1, 7, 8], [2, 7, 8]]"
    by (simp add: splits_into_def sized_def sample_shamir_api_def upt_rec zeros_def)
  have r: "recombines sample_shamir_api [7, 8] 2 [[1, 7, 8], [2, 7, 8]]"
  proof -
    have "take 2 (drop 1 (concat sub)) = [7, 8]"
      if "set sub \<subseteq> {[1, 7, 8], [2, 7, 8]}" and "2 \<le> length sub" for sub :: "bytes list"
      using that by (cases sub) auto
    then show ?thesis
      by (simp add: recombines_def sample_shamir_api_def numeral_2_eq_2)
  qed
  show ?thesis
    using shamir_quorum_recovers [OF _ _ _ _ s r, of "[[2, 7, 8], [1, 7, 8]]" "world_init ()"] by simp
qed

text \<open>
  Bad arguments are refused before the library is called: thresholds and counts outside
  2 <= t <= n <= 255, fewer than two shares, shares of unequal length, and shares too short to carry
  a byte. The last makes the splitting of an empty secret a dead end: its shares are one byte long
  and never combine.
\<close>

lemma shamir_refuses_early:
  "(\<not> (2 \<le> t \<and> t \<le> n \<and> n \<le> 255) \<longrightarrow> run_state (shamir_split A secret t n) w = (Inl ConfigInvalid, w)) \<and>
   (length shares < 2 \<or> (\<exists>s \<in> set shares. length s \<noteq> length (hd shares)) \<or> length (hd shares) < 2 \<longrightarrow>
      run_state (shamir_combine A shares) w = (Inl ConfigInvalid, w)) \<and>
   (splits_into A [] t n (lib w) out \<longrightarrow> set sub \<subseteq> set out \<longrightarrow>
      run_state (shamir_combine A sub) w = (Inl ConfigInvalid, w))"
proof -
  have "length (hd sub) < 2" if "splits_into A [] t n (lib w) out" "set sub \<subseteq> set out" "\<not> length sub < 2"
  proof -
    from that(3) have "hd sub \<in> set sub" by (cases sub) auto
    with that(1,2) show ?thesis by (auto simp: splits_into_def)
  qed
  then show ?thesis
    by (auto simp: shamir_split_def shamir_combine_def Let_def)
qed

end
