(* ===== verification/Dht.thy ===== *)
theory Dht
  imports Server
begin

text \<open>
  \<^verbatim>\<open>nwep/src/dht.rs\<close>: the discovery node that shares a server's socket. A \<^verbatim>\<open>Dht\<close> borrows its server
  for its lifetime; the borrow is an event of the history, so the monitor stops at any use of a dht
  whose server is gone.
\<close>

section \<open>State and library\<close>

record dht_record =
  dr_node :: bytes
  dr_addr :: bytes
  dr_pubkey :: bytes
  dr_seq :: u64
  dr_timestamp :: u64

record dht_metrics =
  dm_datagrams_sent :: u64
  dm_datagrams_received :: u64
  dm_bytes_sent :: u64
  dm_bytes_received :: u64

text \<open>The counters as the library lays them out (\<^verbatim>\<open>nwep-sys/src/lib.rs\<close>).\<close>

record nwep_dht_metrics =
  ndm_datagrams_sent :: u64
  ndm_datagrams_received :: u64
  ndm_bytes_sent :: u64
  ndm_bytes_received :: u64

record dht_builder =
  dh_server :: ptr
  dh_bootstraps :: "bootstrap list"
  dh_initial_seq :: u64

datatype dht = Dht (dht_raw: ptr)

record 'c dht_api =
  c_dht_parse_bootstrap :: "string \<Rightarrow> int \<times> bootstrap"
  c_dht_attach :: "ptr \<Rightarrow> bootstrap list \<Rightarrow> u64 \<Rightarrow> 'c \<Rightarrow> (int \<times> ptr) \<times> 'c"
  c_dht_bootstrap :: "ptr \<Rightarrow> u64 \<Rightarrow> 'c \<Rightarrow> int \<times> 'c"
  c_dht_announce :: "ptr \<Rightarrow> bytes \<Rightarrow> u64 \<Rightarrow> 'c \<Rightarrow> int \<times> 'c"
  c_dht_start_lookup :: "ptr \<Rightarrow> bytes \<Rightarrow> u64 \<Rightarrow> 'c \<Rightarrow> int \<times> 'c"
  c_dht_lookup_result :: "ptr \<Rightarrow> bytes \<Rightarrow> 'c \<Rightarrow> (int \<times> dht_record) \<times> 'c"
  c_dht_tick :: "ptr \<Rightarrow> u64 \<Rightarrow> 'c \<Rightarrow> int \<times> 'c"
  c_dht_next_timeout_ms :: "ptr \<Rightarrow> u64 \<Rightarrow> 'c \<Rightarrow> int \<times> 'c"
  c_dht_metrics_get :: "ptr \<Rightarrow> nwep_dht_metrics \<Rightarrow> 'c \<Rightarrow> int \<times> nwep_dht_metrics"
  c_dht_close :: "ptr \<Rightarrow> 'c \<Rightarrow> 'c"

section \<open>Bootstrap contacts and records\<close>

definition bootstrap_parse :: "('c, 'x) dht_api_scheme \<Rightarrow> string \<Rightarrow> error + bootstrap" where
  "bootstrap_parse A input =
     (case c_dht_parse_bootstrap A input of (rc, entry) \<Rightarrow>
        and_then (error_check rc) (\<lambda>_. Inr entry))"

definition bootstrap_new :: "node_id \<Rightarrow> address \<Rightarrow> bootstrap" where
  "bootstrap_new n addr = \<lparr>bs_node = node_id_raw n, bs_addr = address_as_raw addr\<rparr>"

definition bootstrap_from_str :: "('c, 'x) dht_api_scheme \<Rightarrow> string \<Rightarrow> error + bootstrap" where
  "bootstrap_from_str A s = bootstrap_parse A s"

definition record_node_id :: "dht_record \<Rightarrow> node_id" where
  "record_node_id r = node_id_from_bytes (dr_node r)"

definition record_address :: "dht_record \<Rightarrow> address" where
  "record_address r = address_from_raw (dr_addr r)"

definition record_public_key :: "dht_record \<Rightarrow> bytes" where
  "record_public_key r = dr_pubkey r"

definition record_seq :: "dht_record \<Rightarrow> u64" where
  "record_seq r = dr_seq r"

definition record_timestamp :: "dht_record \<Rightarrow> u64" where
  "record_timestamp r = dr_timestamp r"

section \<open>Builder\<close>

definition dht_builder :: "'c server \<Rightarrow> dht_builder" where
  "dht_builder sv = \<lparr>dh_server = server_as_ptr sv, dh_bootstraps = [], dh_initial_seq = 0\<rparr>"

definition dht_add_bootstrap :: "bootstrap \<Rightarrow> dht_builder \<Rightarrow> dht_builder" where
  "dht_add_bootstrap b d = d\<lparr>dh_bootstraps := dh_bootstraps d @ [b]\<rparr>"

definition dht_add_bootstraps :: "bootstrap list \<Rightarrow> dht_builder \<Rightarrow> dht_builder" where
  "dht_add_bootstraps bs d = d\<lparr>dh_bootstraps := dh_bootstraps d @ bs\<rparr>"

definition dht_set_initial_seq :: "u64 \<Rightarrow> dht_builder \<Rightarrow> dht_builder" where
  "dht_set_initial_seq n d = d\<lparr>dh_initial_seq := n\<rparr>"

definition dht_attach :: "('c, 'x) dht_api_scheme \<Rightarrow> dht_builder \<Rightarrow> ('c, dht) io_result" where
  "dht_attach A d =
     (if dh_bootstraps d = [] then ret_err ConfigMissing
      else do {
        emit (Use KServer (dh_server d));
        try_ok (checked_out (acquire KDht
            (c_dht_attach A (dh_server d) (dh_bootstraps d) (dh_initial_seq d))))
          (\<lambda>raw. do {
             emit (Borrow KDht raw (Some (KServer, dh_server d)));
             ret_ok (Dht raw)
           })
      })"

section \<open>Operations\<close>

definition dht_join :: "('c, 'x) dht_api_scheme \<Rightarrow> dht \<Rightarrow> u64 \<Rightarrow> ('c, unit) io_result" where
  "dht_join A d now = checked (call_on KDht (dht_raw d) (c_dht_bootstrap A (dht_raw d) now))"

definition dht_announce :: "('c, 'x) dht_api_scheme \<Rightarrow> dht \<Rightarrow> address \<Rightarrow> u64 \<Rightarrow> ('c, unit) io_result" where
  "dht_announce A d addr now =
     checked (call_on KDht (dht_raw d) (c_dht_announce A (dht_raw d) (address_as_raw addr) now))"

definition dht_start_lookup :: "('c, 'x) dht_api_scheme \<Rightarrow> dht \<Rightarrow> node_id \<Rightarrow> u64 \<Rightarrow> ('c, unit) io_result" where
  "dht_start_lookup A d target now =
     checked (call_on KDht (dht_raw d) (c_dht_start_lookup A (dht_raw d) (node_id_raw target) now))"

definition dht_lookup_result :: "('c, 'x) dht_api_scheme \<Rightarrow> dht \<Rightarrow> node_id \<Rightarrow> ('c, dht_record option) io" where
  "dht_lookup_result A d target = do {
     (rc, out) \<leftarrow> call_on KDht (dht_raw d) (c_dht_lookup_result A (dht_raw d) (node_id_raw target));
     State_Monad.return (if rc = 0 then Some out else None)
   }"

definition dht_tick :: "('c, 'x) dht_api_scheme \<Rightarrow> dht \<Rightarrow> u64 \<Rightarrow> ('c, unit) io_result" where
  "dht_tick A d now = checked (call_on KDht (dht_raw d) (c_dht_tick A (dht_raw d) now))"

definition dht_next_timeout :: "('c, 'x) dht_api_scheme \<Rightarrow> dht \<Rightarrow> u64 \<Rightarrow> ('c, u32 option) io" where
  "dht_next_timeout A d now = do {
     ms \<leftarrow> call_on KDht (dht_raw d) (c_dht_next_timeout_ms A (dht_raw d) now);
     State_Monad.return (if ms < 0 then None else Some (as_u32 ms))
   }"

definition dht_metrics_get :: "('c, 'x) dht_api_scheme \<Rightarrow> dht \<Rightarrow> ('c, dht_metrics) io" where
  "dht_metrics_get A d = do {
     (rc, m) \<leftarrow> peek_on KDht (dht_raw d) (c_dht_metrics_get A (dht_raw d)
       \<lparr>ndm_datagrams_sent = 0, ndm_datagrams_received = 0, ndm_bytes_sent = 0, ndm_bytes_received = 0\<rparr>);
     State_Monad.return \<lparr>dm_datagrams_sent = ndm_datagrams_sent m,
       dm_datagrams_received = ndm_datagrams_received m, dm_bytes_sent = ndm_bytes_sent m,
       dm_bytes_received = ndm_bytes_received m\<rparr>
   }"

definition dht_as_ptr :: "dht \<Rightarrow> ptr" where
  "dht_as_ptr d = dht_raw d"

definition dht_drop :: "('c, 'x) dht_api_scheme \<Rightarrow> dht \<Rightarrow> ('c, unit) io" where
  "dht_drop A d = release KDht (dht_raw d) (c_dht_close A (dht_raw d))"

section \<open>Ownership\<close>

datatype dht_op =
    DhJoin u64 | DhAnnounce address u64 | DhLookup node_id u64 | DhResult node_id | DhTick u64
  | DhTimeout u64 | DhMetrics

fun dht_run :: "('c, 'x) dht_api_scheme \<Rightarrow> dht \<Rightarrow> dht_op \<Rightarrow> ('c, unit) io" where
  "dht_run A d (DhJoin n) = discard (dht_join A d n)"
| "dht_run A d (DhAnnounce a n) = discard (dht_announce A d a n)"
| "dht_run A d (DhLookup t n) = discard (dht_start_lookup A d t n)"
| "dht_run A d (DhResult t) = discard (dht_lookup_result A d t)"
| "dht_run A d (DhTick n) = discard (dht_tick A d n)"
| "dht_run A d (DhTimeout n) = discard (dht_next_timeout A d n)"
| "dht_run A d DhMetrics = discard (dht_metrics_get A d)"

definition dht_owns :: "ptr \<Rightarrow> dht \<Rightarrow> monitor \<Rightarrow> monitor \<Rightarrow> bool" where
  "dht_owns sv d m m' \<longleftrightarrow> (KDht, dht_raw d) \<notin> live m \<and> regs m (KDht, dht_raw d) = None \<and>
     borrows m (KDht, dht_raw d) = None \<and> (KServer, sv) \<in> live m \<and>
     m' = m\<lparr>live := insert (KDht, dht_raw d) (live m),
            borrows := (borrows m)((KDht, dht_raw d) \<mapsto> (KServer, sv))\<rparr>"

definition dht_pre :: "('c, 'x) dht_api_scheme \<Rightarrow> dht_builder \<Rightarrow> 'c \<Rightarrow> monitor \<Rightarrow> bool" where
  "dht_pre A d c m \<longleftrightarrow> usable m (KServer, dh_server d) \<and>
     fresh_ptr KDht (c_dht_attach A (dh_server d) (dh_bootstraps d) (dh_initial_seq d)) c m"

lemma dht_owns_usable: "dht_owns sv d m m' \<Longrightarrow> usable m' (KDht, dht_raw d)"
  by (simp add: dht_owns_def usable_def)

lemma dht_run_preserves: "usable m (KDht, dht_raw d) \<Longrightarrow> preserves m (dht_run A d op)"
  by (cases op) (auto simp: dht_join_def dht_announce_def dht_start_lookup_def dht_lookup_result_def
      dht_tick_def dht_next_timeout_def dht_metrics_get_def intro!: keep_rules)

lemma dht_attach_outcome:
  assumes "coherent w m" and "dht_pre A d (lib w) m" and "run_state (dht_attach A d) w = (r, w')"
  shows "case r of Inl e \<Rightarrow> coherent w' m
    | Inr h \<Rightarrow> \<exists>m'. dht_owns (dh_server d) h m m' \<and> coherent w' m'"
proof (cases "dh_bootstraps d = []")
  case True
  then show ?thesis using assms(1,3) by (auto simp: dht_attach_def)
next
  case False
  obtain rc raw c where a: "c_dht_attach A (dh_server d) (dh_bootstraps d) (dh_initial_seq d) (lib w) = ((rc, raw), c)"
    by (metis prod.collapse)
  have u: "usable m (KServer, dh_server d)" "(KServer, dh_server d) \<in> live m"
    using assms(2) by (auto simp: dht_pre_def usable_def)
  show ?thesis
  proof (cases "rc < 0")
    case True
    then show ?thesis
      using assms(1,3) False a u by (auto simp: dht_attach_def error_check_def coherent_def)
  next
    case ok: False
    have f: "(KDht, raw) \<notin> live m" "regs m (KDht, raw) = None" "borrows m (KDht, raw) = None"
      using assms(2) a ok by (auto simp: dht_pre_def fresh_ptr_def)
    let ?m' = "m\<lparr>live := insert (KDht, raw) (live m),
      borrows := (borrows m)((KDht, raw) \<mapsto> (KServer, dh_server d))\<rparr>"
    have "r = Inr (Dht raw)" and "coherent w' ?m'"
      using assms(1,3) False a u ok by (auto simp: dht_attach_def error_check_def coherent_def)
    then show ?thesis using f u by (auto simp: dht_owns_def)
  qed
qed

lemma dht_drop_outcome:
  assumes "dht_owns sv d m m'" and "coherent w m'"
  shows "coherent (snd (run_state (dht_drop A d) w)) m"
  using assms dht_owns_usable [OF assms(1)]
  by (auto simp: dht_owns_def coherent_def dht_drop_def fun_upd_idem)

interpretation dht_life: owned_handle "dht_attach A d" "dht_drop A"
  "\<lambda>h. range (dht_run A h)" "dht_owns (dh_server d)" "dht_pre A d" for A d
proof (unfold_locales, goal_cases)
  case (1 w m e w')
  then show ?case using dht_attach_outcome by fastforce
next
  case (2 w m h w')
  then show ?case using dht_attach_outcome by fastforce
next
  case (3 h m m' u)
  then show ?case by (auto intro: dht_run_preserves dht_owns_usable)
next
  case (4 h m m' w)
  then show ?case by (rule dht_drop_outcome)
qed

definition sample_dht_api :: "'c dht_api" where
  "sample_dht_api = \<lparr>
     c_dht_parse_bootstrap = (\<lambda>s. (0, \<lparr>bs_node = [1], bs_addr = [2]\<rparr>)),
     c_dht_attach = (\<lambda>sv bs n c. ((0, 40), c)),
     c_dht_bootstrap = (\<lambda>p now c. (0, c)), c_dht_announce = (\<lambda>p a now c. (0, c)),
     c_dht_start_lookup = (\<lambda>p t now c. (0, c)),
     c_dht_lookup_result = (\<lambda>p t c. ((0, \<lparr>dr_node = t, dr_addr = [2], dr_pubkey = [3], dr_seq = 1, dr_timestamp = 2\<rparr>), c)),
     c_dht_tick = (\<lambda>p now c. (0, c)), c_dht_next_timeout_ms = (\<lambda>p now c. (- 1, c)),
     c_dht_metrics_get = (\<lambda>p m c. (0, m)), c_dht_close = (\<lambda>p c. c)\<rparr>"

section \<open>Properties\<close>

text \<open>
  A dht never outlives its server: within the life of a live server, attach a dht (or fail to),
  run any of its operations in any order, and drop it; every use happens while the server is live,
  and afterwards the server's handle is as it was, ready to be closed. Without a contact, attaching
  fails with \<^verbatim>\<open>ConfigMissing\<close> before any call.
\<close>

lemma dht_inside_server_life:
  assumes "coherent w m" and "dht_pre A d (lib w) m"
  shows "coherent (snd (run_state (lifecycle (dht_attach A d) (dht_drop A) (\<lambda>h. map (dht_run A h) ops)) w)) m \<and>
    run_state (dht_attach A (dht_builder sv)) v = (Inl ConfigMissing, v)"
proof -
  have "coherent (snd (run_state (lifecycle (dht_attach A d) (dht_drop A) (\<lambda>h. map (dht_run A h) ops)) w)) m"
    by (rule dht_life.lifecycle_clean [OF assms]) auto
  then show ?thesis by (simp add: dht_attach_def dht_builder_def)
qed

end
