(* ===== verification/TrustLog.thy ===== *)
theory TrustLog
  imports Identity
begin

text \<open>
  \<^verbatim>\<open>nwep/src/log.rs\<close>: the types of trust-log entries, the decoded views, the producers of signed
  entries (which borrow private keys), and the merkle \<^verbatim>\<open>Log\<close>. The revocation reasons interpret the
  code table of the theory of errors.
\<close>

section \<open>State and library\<close>

datatype entry_type = EtKeyBinding | EtKeyRotation | EtRevocation | EtAnchorChange

datatype revocation_reason = RrCompromised | RrRotation | RrDecommission

record key_binding_entry =
  kb_node :: node_id
  kb_pubkey :: bytes
  kb_commitment :: bytes
  kb_timestamp :: u64

record key_rotation_entry =
  kr_node :: node_id
  kr_old :: bytes
  kr_new :: bytes
  kr_timestamp :: u64
  kr_overlap :: u64

record revocation_entry =
  rv_node :: node_id
  rv_pubkey :: bytes
  rv_recovery :: bytes
  rv_reason :: "revocation_reason option"
  rv_timestamp :: u64

datatype log = Log (log_raw: ptr)

text \<open>
  The decoders fill plain structs: node id, keys, and numbers. The producers take the private keys
  they sign with.
\<close>

text \<open>The entries as the library lays them out, and the codes of their types (\<^verbatim>\<open>nwep-sys/src/lib.rs\<close>).\<close>

record nwep_keybinding =
  nkb_node_id :: bytes
  nkb_pubkey :: bytes
  nkb_recovery_commitment :: bytes
  nkb_timestamp :: u64
  nkb_signature :: bytes

record nwep_keyrotation =
  nkr_node_id :: bytes
  nkr_old_pubkey :: bytes
  nkr_new_pubkey :: bytes
  nkr_timestamp :: u64
  nkr_overlap_expiry :: u64
  nkr_sig_old :: bytes
  nkr_sig_new :: bytes

record nwep_revocation =
  nrv_node_id :: bytes
  nrv_revoked_pubkey :: bytes
  nrv_recovery_pubkey :: bytes
  nrv_reason :: u8
  nrv_timestamp :: u64
  nrv_signature :: bytes

definition nwep_entry_key_binding :: int where
  [simp]: "nwep_entry_key_binding = 1"

definition nwep_entry_key_rotation :: int where
  [simp]: "nwep_entry_key_rotation = 2"

definition nwep_entry_revocation :: int where
  [simp]: "nwep_entry_revocation = 3"

definition nwep_entry_anchor_change :: int where
  [simp]: "nwep_entry_anchor_change = 4"

record 'c log_api =
  c_log_entry_type :: "bytes \<Rightarrow> int"
  c_keybinding_decode :: "bytes \<Rightarrow> int \<times> nwep_keybinding"
  c_keyrotation_decode :: "bytes \<Rightarrow> int \<times> nwep_keyrotation"
  c_revocation_decode :: "bytes \<Rightarrow> int \<times> nwep_revocation"
  c_keybinding_create :: "bytes \<Rightarrow> bytes \<Rightarrow> u64 \<Rightarrow> bytes \<Rightarrow> 'c producer"
  c_keyrotation_create :: "bytes \<Rightarrow> bytes \<Rightarrow> bytes \<Rightarrow> u64 \<Rightarrow> u64 \<Rightarrow> bytes \<Rightarrow> bytes \<Rightarrow> 'c producer"
  c_revocation_create :: "bytes \<Rightarrow> bytes \<Rightarrow> bytes \<Rightarrow> u8 \<Rightarrow> u64 \<Rightarrow> bytes \<Rightarrow> 'c producer"
  c_log_create :: "'c \<Rightarrow> ptr \<times> 'c"
  c_log_append :: "ptr \<Rightarrow> bytes \<Rightarrow> 'c \<Rightarrow> int \<times> 'c"
  c_log_size :: "ptr \<Rightarrow> 'c \<Rightarrow> u64"
  c_log_root :: "ptr \<Rightarrow> 'c \<Rightarrow> (int \<times> bytes) \<times> 'c"
  c_log_free :: "ptr \<Rightarrow> 'c \<Rightarrow> 'c"

section \<open>Entry types and reasons\<close>

definition entry_type_of :: "('c, 'x) log_api_scheme \<Rightarrow> bytes \<Rightarrow> error + entry_type" where
  "entry_type_of A bs =
     (let rc = c_log_entry_type A bs in
      if rc = nwep_entry_key_binding then Inr EtKeyBinding
      else if rc = nwep_entry_key_rotation then Inr EtKeyRotation
      else if rc = nwep_entry_revocation then Inr EtRevocation
      else if rc = nwep_entry_anchor_change then Inr EtAnchorChange
      else Inl (error_from_code rc))"

fun reason_code :: "revocation_reason \<Rightarrow> u8" where
  "reason_code RrCompromised = 1"
| "reason_code RrRotation = 2"
| "reason_code RrDecommission = 3"

definition reason_from_code :: "u8 \<Rightarrow> revocation_reason option" where
  "reason_from_code c =
     (if c = 1 then Some RrCompromised
      else if c = 2 then Some RrRotation
      else if c = 3 then Some RrDecommission
      else None)"

interpretation reason_table: code_table reason_code reason_from_code "\<lambda>_. True"
proof unfold_locales
  fix x :: revocation_reason
  show "reason_from_code (reason_code x) = Some x"
    by (cases x) (simp_all add: reason_from_code_def)
next
  fix c and x :: revocation_reason
  assume "reason_from_code c = Some x"
  then show "True \<and> reason_code x = c"
    by (auto simp: reason_from_code_def split: if_splits)
qed

section \<open>Decoding\<close>

definition key_binding_decode :: "('c, 'x) log_api_scheme \<Rightarrow> bytes \<Rightarrow> error + key_binding_entry" where
  "key_binding_decode A bs =
     (case c_keybinding_decode A bs of (rc, kb) \<Rightarrow>
        and_then (error_check rc) (\<lambda>_.
          Inr \<lparr>kb_node = node_id_from_bytes (nkb_node_id kb), kb_pubkey = nkb_pubkey kb,
               kb_commitment = nkb_recovery_commitment kb, kb_timestamp = nkb_timestamp kb\<rparr>))"

definition key_rotation_decode :: "('c, 'x) log_api_scheme \<Rightarrow> bytes \<Rightarrow> error + key_rotation_entry" where
  "key_rotation_decode A bs =
     (case c_keyrotation_decode A bs of (rc, kr) \<Rightarrow>
        and_then (error_check rc) (\<lambda>_.
          Inr \<lparr>kr_node = node_id_from_bytes (nkr_node_id kr), kr_old = nkr_old_pubkey kr, kr_new = nkr_new_pubkey kr,
               kr_timestamp = nkr_timestamp kr, kr_overlap = nkr_overlap_expiry kr\<rparr>))"

definition revocation_decode :: "('c, 'x) log_api_scheme \<Rightarrow> bytes \<Rightarrow> error + revocation_entry" where
  "revocation_decode A bs =
     (case c_revocation_decode A bs of (rc, rv) \<Rightarrow>
        and_then (error_check rc) (\<lambda>_.
          Inr \<lparr>rv_node = node_id_from_bytes (nrv_node_id rv), rv_pubkey = nrv_revoked_pubkey rv,
               rv_recovery = nrv_recovery_pubkey rv, rv_reason = reason_from_code (nrv_reason rv),
               rv_timestamp = nrv_timestamp rv\<rparr>))"

section \<open>Creation\<close>

definition produce :: "'c producer \<Rightarrow> ('c, bytes) io_result" where
  "produce f = two_call f"

definition key_binding ::
  "'c identity_api \<Rightarrow> ('c, 'x) log_api_scheme \<Rightarrow> identity \<Rightarrow> bytes \<Rightarrow> u64 \<Rightarrow> ('c, bytes) io_result" where
  "key_binding I A ident commitment ts =
     with_raw_keys I ident (\<lambda>pk sk. produce (c_keybinding_create A pk commitment ts sk))"

definition key_rotation ::
  "'c identity_api \<Rightarrow> ('c, 'x) log_api_scheme \<Rightarrow> node_id \<Rightarrow> identity \<Rightarrow> identity \<Rightarrow> u64 \<Rightarrow> u64 \<Rightarrow>
   ('c, bytes) io_result" where
  "key_rotation I A n old new ts overlap = do {
     let nid = node_id_raw n;
     with_raw_keys I old (\<lambda>old_pk old_sk.
       with_raw_keys I new (\<lambda>new_pk new_sk.
         produce (c_keyrotation_create A nid old_pk new_pk ts overlap old_sk new_sk)))
   }"

definition revocation ::
  "'c identity_api \<Rightarrow> ('c, 'x) log_api_scheme \<Rightarrow> node_id \<Rightarrow> bytes \<Rightarrow> identity \<Rightarrow> revocation_reason \<Rightarrow> u64 \<Rightarrow>
   ('c, bytes) io_result" where
  "revocation I A n revoked recovery reason ts = do {
     let nid = node_id_raw n;
     with_raw_keys I recovery (\<lambda>rec_pk rec_sk.
       produce (c_revocation_create A nid revoked rec_pk (reason_code reason) ts rec_sk))
   }"

section \<open>Log\<close>

definition log_new :: "('c, 'x) log_api_scheme \<Rightarrow> ('c, log) io_result" where
  "log_new A = do {
     raw \<leftarrow> call (c_log_create A);
     (if raw = null_ptr then ret_err InternalAlloc
      else do { emit (Acquire KLog raw); ret_ok (Log raw) })
   }"

definition log_append :: "('c, 'x) log_api_scheme \<Rightarrow> log \<Rightarrow> bytes \<Rightarrow> ('c, u64) io_result" where
  "log_append A l entry = do {
     rc \<leftarrow> call_on KLog (log_raw l) (c_log_append A (log_raw l) entry);
     (if rc < 0 then ret_err (error_from_code (as_c_int rc)) else ret_ok (as_u64 rc))
   }"

definition log_len :: "('c, 'x) log_api_scheme \<Rightarrow> log \<Rightarrow> ('c, u64) io" where
  "log_len A l = peek_on KLog (log_raw l) (c_log_size A (log_raw l))"

definition log_is_empty :: "('c, 'x) log_api_scheme \<Rightarrow> log \<Rightarrow> ('c, bool) io" where
  "log_is_empty A l = do { n \<leftarrow> log_len A l; State_Monad.return (n = 0) }"

definition log_root :: "('c, 'x) log_api_scheme \<Rightarrow> log \<Rightarrow> ('c, bytes) io_result" where
  "log_root A l =
     try_ok (checked_out (call_on KLog (log_raw l) (c_log_root A (log_raw l))))
       (\<lambda>out. ret_ok (overwrite out (zeros 32)))"

definition log_as_ptr :: "log \<Rightarrow> ptr" where
  "log_as_ptr l = log_raw l"

definition log_drop :: "('c, 'x) log_api_scheme \<Rightarrow> log \<Rightarrow> ('c, unit) io" where
  "log_drop A l = release KLog (log_raw l) (c_log_free A (log_raw l))"

section \<open>Ownership\<close>

definition log_create_status :: "('c, 'x) log_api_scheme \<Rightarrow> 'c \<Rightarrow> (int \<times> ptr) \<times> 'c" where
  "log_create_status A c =
     (case c_log_create A c of (p, c') \<Rightarrow>
        ((if p = null_ptr then error_code InternalAlloc else 0, p), c'))"

lemma log_new_opened: "log_new A = opened KLog (log_create_status A) Log"
proof (rule State_Monad.state.expand, rule ext)
  fix w
  show "run_state (log_new A) w = run_state (opened KLog (log_create_status A) Log) w"
    by (simp add: log_new_def opened_def log_create_status_def error_check_def error_from_code_def
        case_prod_beta)
qed

datatype log_op = LgAppend bytes | LgLen | LgIsEmpty | LgRoot

fun log_run :: "('c, 'x) log_api_scheme \<Rightarrow> log \<Rightarrow> log_op \<Rightarrow> ('c, unit) io" where
  "log_run A l (LgAppend e) = discard (log_append A l e)"
| "log_run A l LgLen = discard (log_len A l)"
| "log_run A l LgIsEmpty = discard (log_is_empty A l)"
| "log_run A l LgRoot = discard (log_root A l)"

lemma log_run_preserves: "usable m (KLog, log_raw l) \<Longrightarrow> preserves m (log_run A l op)"
  by (cases op) (auto simp: log_append_def log_len_def log_is_empty_def log_root_def intro!: keep_rules)

interpretation log_handle: plain_handle KLog "log_create_status A" "c_log_free A" Log log_raw
  "\<lambda>l. range (log_run A l)" for A
  by unfold_locales (auto intro: log_run_preserves)

section \<open>Lemmas\<close>

lemma produce_lends_safely: "lends_safely (produce f)"
  unfolding produce_def by (rule lends_safely_cells) simp

lemma with_raw_keys_lends_safely:
  assumes "wipes I" and "\<And>p s. lends_safely (f p s)"
  shows "lends_safely (with_raw_keys I ident f)"
proof -
  have "keeps w (snd (run_state (with_raw_keys I ident f) w)) \<and>
      residue w (snd (run_state (with_raw_keys I ident f) w)) = {}" for w
    by (rule with_raw_keys_residue [OF assms(1) assms(2)])
  then show ?thesis by (simp add: lends_safely_def)
qed

lemma with_raw_keys_result:
  "fst (run_state (with_raw_keys I ident f) w) =
     fst (run_state (f (id_pub ident) (cell_at w (id_priv ident)))
       (w\<lparr>cells := cells w @ [cell_at w (id_priv ident)]\<rparr>))"
  by (simp add: run_with_raw_keys Let_def)

definition sample_log_api :: "'c log_api" where
  "sample_log_api = \<lparr>
     c_log_entry_type = (\<lambda>bs. int (length bs)),
     c_keybinding_decode = (\<lambda>bs. (0, nwep_keybinding.make [1] (take 1 bs) (drop 1 bs) 0 [])),
     c_keyrotation_decode = (\<lambda>bs. (0, nwep_keyrotation.make [1] (take 1 bs) (drop 1 bs) 0 0 [] [])),
     c_revocation_decode = (\<lambda>bs. (0, nwep_revocation.make [1] (take 1 bs) [2] (hd (drop 1 bs)) 9 [])),
     c_keybinding_create = (\<lambda>pk co ts sk buf c. ((0, if buf = None then [] else pk @ co, length (pk @ co)), c)),
     c_keyrotation_create = (\<lambda>n op np ts ov os ns buf c. ((0, if buf = None then [] else op @ np, length (op @ np)), c)),
     c_revocation_create = (\<lambda>n rev rp rs ts sk buf c. ((0, if buf = None then [] else rev @ [rs], length (rev @ [rs])), c)),
     c_log_create = (\<lambda>c. (50, c)),
     c_log_append = (\<lambda>p e c. (4, c)),
     c_log_size = (\<lambda>p c. 4),
     c_log_root = (\<lambda>p c. ((0, replicate 32 1), c)),
     c_log_free = (\<lambda>p c. c)\<rparr>"

section \<open>Properties\<close>

text \<open>
  Producing an entry leaves no key behind: a key binding, a rotation (which borrows the old and
  the new private key at once) and a revocation wipe every copy of the keys they lend, on success and
  on error, and leave the identities' own keys as they were.
\<close>

lemma entries_leave_no_keys:
  assumes "wipes I"
  shows "residue w (snd (run_state (key_binding I A ident commitment ts) w)) = {} \<and>
    keeps w (snd (run_state (key_binding I A ident commitment ts) w)) \<and>
    residue w (snd (run_state (key_rotation I A n ident new ts overlap) w)) = {} \<and>
    keeps w (snd (run_state (key_rotation I A n ident new ts overlap) w)) \<and>
    residue w (snd (run_state (revocation I A n revoked ident reason ts) w)) = {} \<and>
    keeps w (snd (run_state (revocation I A n revoked ident reason ts) w))"
  unfolding key_binding_def key_rotation_def revocation_def Let_def
  using with_raw_keys_residue [OF assms produce_lends_safely]
    with_raw_keys_residue [OF assms with_raw_keys_lends_safely [OF assms produce_lends_safely]]
  by auto

text \<open>
  C38. A revocation says what it was made to say: when the library's producer follows the sizing
  contract and its decoder inverts it, decoding the entry made for a node, a key, a recovery identity,
  a reason and a time gives exactly those back, the reason included; and a reason code outside the
  table decodes as no reason rather than a wrong one.
\<close>

theorem revocation_roundtrip:
  assumes "\<And>v. sized (c_revocation_create A (node_bytes n) revoked (id_pub ident) (reason_code reason) ts
      (cell_at w (id_priv ident))) v entry"
    and "c_revocation_decode A entry = (0, nwep_revocation.make (node_bytes n) revoked (id_pub ident) (reason_code reason) ts sig)"
    and "c_revocation_decode A stray = (0, other)" and "3 < nrv_reason other"
  shows "and_then (fst (run_state (revocation I A n revoked ident reason ts) w)) (revocation_decode A) =
      Inr \<lparr>rv_node = n, rv_pubkey = revoked, rv_recovery = id_pub ident, rv_reason = Some reason,
           rv_timestamp = ts\<rparr> \<and>
    map_ok rv_reason (revocation_decode A stray) = Inr None"
proof -
  have "fst (run_state (revocation I A n revoked ident reason ts) w) = Inr entry"
    by (simp add: revocation_def Let_def with_raw_keys_result produce_def node_id_raw_def
        two_call_sized assms(1))
  moreover have "reason_from_code (nrv_reason other) = None"
    using assms(4) by (auto simp: reason_from_code_def)
  ultimately show ?thesis
    using assms(2,3) reason_table.dec_enc [of reason]
    by (simp add: revocation_decode_def node_id_from_bytes_def error_check_def nwep_revocation.defs)
qed

theorem revocation_roundtrip_witness:
  "and_then (fst (run_state (revocation sample_identity_api sample_log_api (NodeId [1]) [8]
       \<lparr>id_node = NodeId [1], id_pub = [2], id_priv = 0\<rparr> RrRotation 9) ((world_init ())\<lparr>cells := [[5]]\<rparr>)))
     (revocation_decode (sample_log_api :: unit log_api)) =
   Inr \<lparr>rv_node = NodeId [1], rv_pubkey = [8], rv_recovery = [2], rv_reason = Some RrRotation, rv_timestamp = 9\<rparr>"
proof -
  let ?id = "\<lparr>id_node = NodeId [1], id_pub = [2], id_priv = 0\<rparr>"
  have s: "sized (c_revocation_create sample_log_api (node_bytes (NodeId [1])) [8] (id_pub ?id) (reason_code RrRotation) 9
      (cell_at ((world_init ())\<lparr>cells := [[5]]\<rparr>) (id_priv ?id))) v [8, 2]" for v :: unit
    by (simp add: sized_def sample_log_api_def)
  have d: "c_revocation_decode (sample_log_api :: unit log_api) [8, 2] =
      (0, nwep_revocation.make (node_bytes (NodeId [1])) [8] (id_pub ?id) (reason_code RrRotation) 9 [])"
    and o: "c_revocation_decode (sample_log_api :: unit log_api) [7, 200] = (0, nwep_revocation.make [1] [7] [2] 200 9 [])"
    by (simp_all add: sample_log_api_def)
  show ?thesis using revocation_roundtrip [OF s d o] by (simp add: nwep_revocation.defs)
qed

text \<open>
  The log's answers decode exactly: the type of an entry is known only for the four codes of the
  table and any other code is the error of that code; an append returns the index the library gave
  (any index below 2^63) or the error of its code, for every code of a \<^verbatim>\<open>c_int\<close>; a log is empty
  exactly when its length is 0. The log itself is freed exactly once.
\<close>

lemma log_answers_exact:
  assumes "c_log_append A (log_raw l) entry (lib w) = (rc, c)" and "- (2 ^ 31) \<le> rc" and "rc < 2 ^ 63"
    and "coherent v m" and "fresh_ptr KLog (log_create_status A) (lib v) m"
  shows "(case fst (run_state (log_append A l entry) w) of
       Inl e \<Rightarrow> rc < 0 \<and> e = error_from_code rc
     | Inr i \<Rightarrow> 0 \<le> rc \<and> uint i = rc) \<and>
    (\<forall>bs t. entry_type_of A bs = Inr t \<longleftrightarrow>
       (c_log_entry_type A bs, t) \<in> {(1, EtKeyBinding), (2, EtKeyRotation), (3, EtRevocation), (4, EtAnchorChange)}) \<and>
    (\<forall>bs e. entry_type_of A bs = Inl e \<longrightarrow> e = error_from_code (c_log_entry_type A bs)) \<and>
    (fst (run_state (log_is_empty A l) w) \<longleftrightarrow> uint (fst (run_state (log_len A l) w)) = 0) \<and>
    coherent (snd (run_state (lifecycle (log_new A) (log_drop A) (\<lambda>l. map (log_run A l) ops)) v)) m"
proof -
  have "uint (as_u64 rc) = rc" if "0 \<le> rc"
    using that assms(3) by (simp add: as_u64_def uint_word_of_int_eq take_bit_int_eq_self)
  moreover have "as_c_int rc = rc" if "rc < 0"
    using that assms(2) by (simp add: as_c_int_id)
  moreover have "coherent (snd (run_state (lifecycle (log_new A) (log_drop A) (\<lambda>l. map (log_run A l) ops)) v)) m"
    unfolding log_new_opened log_drop_def
    by (rule log_handle.owned.lifecycle_clean [OF assms(4,5)]) auto
  ultimately show ?thesis
    using assms(1)
    by (auto simp: log_append_def entry_type_of_def Let_def log_is_empty_def log_len_def uint_0_iff)
qed

end
