(* ===== verification/LogServer.thy ===== *)
theory LogServer
  imports TrustLog Handler
begin

text \<open>
  \<^verbatim>\<open>nwep/src/logserver.rs\<close>: the \<^verbatim>\<open>/log/*\<close> endpoints behind a server handler, the hook on accepted
  entries and its C callback, and the \<^verbatim>\<open>Drop\<close> of a log server, which owns its log.
\<close>

section \<open>State and library\<close>

type_synonym 'c append_hook = "bytes \<Rightarrow> u64 \<Rightarrow> ('c, unit option) io"

record 'c append_box =
  ab_id :: nat
  ab_f :: "'c append_hook"

record 'c log_server =
  ls_raw :: ptr
  ls_hook :: "'c append_box option"
  ls_log :: log

datatype dispatch_outcome = Handled reply | NotMine responder

text \<open>An accepted entry the library reports: the bytes (\<open>None\<close> for null), their length, the index.\<close>

type_synonym accepted = "bytes option \<times> nat \<times> u64"

record 'c log_server_api = "'c log_api" +
  c_log_server_create :: "bytes \<times> bytes \<Rightarrow> ptr \<Rightarrow> 'c \<Rightarrow> ptr \<times> 'c"
  c_log_server_set_on_append :: "ptr \<Rightarrow> nat option \<Rightarrow> 'c \<Rightarrow> unit \<times> 'c"
  c_log_server_dispatch :: "ptr \<Rightarrow> u64 \<Rightarrow> ptr \<Rightarrow> ptr \<Rightarrow> int \<Rightarrow> 'c \<Rightarrow> ('c, accepted, unit, int) session"
  c_log_server_free :: "ptr \<Rightarrow> 'c \<Rightarrow> 'c"

section \<open>Operations\<close>

text \<open>On failure the log, taken by value, is dropped with the scope.\<close>

definition log_server_new ::
  "'c identity_api \<Rightarrow> ('c, 'x) log_server_api_scheme \<Rightarrow> identity \<Rightarrow> log \<Rightarrow> ('c, 'c log_server) io_result" where
  "log_server_new I A ident l = do {
     raw \<leftarrow> with_keypair I ident (\<lambda>kp. do {
       emit (Use KLog (log_as_ptr l));
       call (c_log_server_create A kp (log_as_ptr l))
     });
     (if raw = null_ptr then do { log_drop A l; ret_err InternalAlloc }
      else do {
        emit (Acquire KLogServer raw);
        emit (Borrow KLogServer raw (Some (KLog, log_raw l)));
        ret_ok \<lparr>ls_raw = raw, ls_hook = None, ls_log = l\<rparr>
      })
   }"

definition log_server_clear_hook ::
  "('c, 'x) log_server_api_scheme \<Rightarrow> 'c log_server \<Rightarrow> ('c, 'c log_server) io" where
  "log_server_clear_hook A ls =
     (case ls_hook ls of
        None \<Rightarrow> State_Monad.return ls
      | Some b \<Rightarrow> do {
          call_on KLogServer (ls_raw ls) (c_log_server_set_on_append A (ls_raw ls) None);
          emit (Unregister KLogServer (ls_raw ls));
          box_drop (ab_id b);
          State_Monad.return (ls\<lparr>ls_hook := None\<rparr>)
        })"

definition log_server_on_append ::
  "('c, 'x) log_server_api_scheme \<Rightarrow> 'c log_server \<Rightarrow> 'c append_hook \<Rightarrow> ('c, 'c log_server) io" where
  "log_server_on_append A ls hook = do {
     ls' \<leftarrow> log_server_clear_hook A ls;
     boxed \<leftarrow> box_new;
     call_on KLogServer (ls_raw ls') (c_log_server_set_on_append A (ls_raw ls') (Some boxed));
     emit (Register KLogServer (ls_raw ls') boxed);
     State_Monad.return (ls'\<lparr>ls_hook := Some \<lparr>ab_id = boxed, ab_f = hook\<rparr>\<rparr>)
   }"

definition append_trampoline :: "'c append_box \<Rightarrow> accepted \<Rightarrow> ('c, unit) io" where
  "append_trampoline b q =
     (case q of (entry, len, index) \<Rightarrow> do {
        let bs = (case entry of None \<Rightarrow> [] | Some e \<Rightarrow> if len = 0 then [] else e);
        emit (Enter (ab_id b));
        _ \<leftarrow> ab_f b bs index;
        emit (Leave (ab_id b))
      })"

text \<open>Without a hook the library has no callback to run.\<close>

definition log_server_callback :: "'c log_server \<Rightarrow> accepted \<Rightarrow> ('c, unit) io" where
  "log_server_callback ls q =
     (case ls_hook ls of None \<Rightarrow> State_Monad.return () | Some b \<Rightarrow> append_trampoline b q)"

definition log_server_dispatch ::
  "('c, 'x) log_server_api_scheme \<Rightarrow> 'c log_server \<Rightarrow> request \<Rightarrow> responder \<Rightarrow> int \<Rightarrow> ('c, dispatch_outcome) io"
where
  "log_server_dispatch A ls req res now_secs = do {
     rc \<leftarrow> drive KLogServer (ls_raw ls) (log_server_callback ls)
       (c_log_server_dispatch A (ls_raw ls) (request_conn_id req) (request_raw_msg req)
         (responder_raw_buf res) now_secs);
     (if rc = 1 then State_Monad.return (NotMine res)
      else do { r \<leftarrow> responder_finish res rc; State_Monad.return (Handled r) })
   }"

definition log_server_as_ptr :: "'c log_server \<Rightarrow> ptr" where
  "log_server_as_ptr ls = ls_raw ls"

text \<open>\<^verbatim>\<open>Drop for LogServer\<close>: the body, then the field that owns the log.\<close>

definition log_server_drop :: "('c, 'x) log_server_api_scheme \<Rightarrow> 'c log_server \<Rightarrow> ('c, unit) io" where
  "log_server_drop A ls = do {
     release KLogServer (ls_raw ls) (c_log_server_free A (ls_raw ls));
     ls' \<leftarrow> log_server_clear_hook A ls;
     log_drop A (ls_log ls')
   }"

section \<open>A handler in front of the application\<close>

text \<open>The documented use: try the log routes first, answer the rest with a terminal.\<close>

definition log_route_handler ::
  "('c, 'x) log_server_api_scheme \<Rightarrow> ('c, 'y) handler_api_scheme \<Rightarrow> 'c log_server \<Rightarrow> int \<Rightarrow> terminal \<Rightarrow> 'c handler"
where
  "log_route_handler A H ls now t = (\<lambda>req res. do {
     out \<leftarrow> log_server_dispatch A ls req res now;
     (case out of
        Handled r \<Rightarrow> State_Monad.return (Some r)
      | NotMine res' \<Rightarrow> do { r \<leftarrow> respond H res' t; State_Monad.return (Some r) })
   })"

section \<open>Ownership\<close>

definition harmless :: "'c append_hook \<Rightarrow> bool" where
  "harmless f \<longleftrightarrow> (\<forall>bs i m. preserves m (f bs i))"

definition log_server_owns :: "'c log_server \<Rightarrow> monitor \<Rightarrow> monitor \<Rightarrow> bool" where
  "log_server_owns ls m m' \<longleftrightarrow>
     (KLogServer, ls_raw ls) \<notin> live m \<and> regs m (KLogServer, ls_raw ls) = None \<and>
     borrows m (KLogServer, ls_raw ls) = None \<and>
     (KLog, log_raw (ls_log ls)) \<notin> live m \<and> regs m (KLog, log_raw (ls_log ls)) = None \<and>
     borrows m (KLog, log_raw (ls_log ls)) = None \<and>
     (case ls_hook ls of
        None \<Rightarrow> m' = m\<lparr>live := {(KLogServer, ls_raw ls), (KLog, log_raw (ls_log ls))} \<union> live m,
          borrows := (borrows m)((KLogServer, ls_raw ls) \<mapsto> (KLog, log_raw (ls_log ls)))\<rparr>
      | Some b \<Rightarrow> harmless (ab_f b) \<and> ab_id b \<notin> boxes m \<and> ab_id b \<notin> set (running m) \<and>
          m' = m\<lparr>live := {(KLogServer, ls_raw ls), (KLog, log_raw (ls_log ls))} \<union> live m,
            boxes := insert (ab_id b) (boxes m),
            regs := (regs m)((KLogServer, ls_raw ls) \<mapsto> ab_id b),
            borrows := (borrows m)((KLogServer, ls_raw ls) \<mapsto> (KLog, log_raw (ls_log ls)))\<rparr>)"

lemma log_server_usable: "log_server_owns ls m m' \<Longrightarrow> usable m' (KLogServer, ls_raw ls)"
  by (auto simp: log_server_owns_def usable_def split: option.splits)

lemma log_server_reg: "log_server_owns ls m m' \<Longrightarrow> reg_alive m' (KLogServer, ls_raw ls)"
  by (auto simp: log_server_owns_def reg_alive_def split: option.splits)

lemma append_trampoline_preserves:
  fixes b :: "'c append_box"
  assumes "harmless (ab_f b)" and "ab_id b \<in> boxes m"
  shows "preserves m (append_trampoline b q)"
proof (rule preservesI)
  fix w :: "'c world"
  assume coh: "coherent w m"
  obtain entry len index where q: "q = (entry, len, index)" by (cases q) auto
  let ?bs = "case entry of None \<Rightarrow> [] | Some e \<Rightarrow> if len = 0 then [] else e"
  let ?w1 = "w\<lparr>history := history w @ [Enter (ab_id b)]\<rparr>"
  let ?m1 = "m\<lparr>running := ab_id b # running m\<rparr>"
  let ?w2 = "snd (run_state (ab_f b ?bs index) ?w1)"
  have "coherent ?w1 ?m1" using coh assms(2) by (simp add: coherent_def)
  moreover have "preserves ?m1 (ab_f b ?bs index)" using assms(1) by (simp add: harmless_def)
  ultimately have w2: "coherent ?w2 ?m1" and s: "strong ?w2 = strong w"
    by (auto simp: preserves_def)
  then have "coherent (?w2\<lparr>history := history ?w2 @ [Leave (ab_id b)]\<rparr>) m"
    by (simp add: coherent_def)
  then show "coherent (snd (run_state (append_trampoline b q) w)) m \<and>
      strong (snd (run_state (append_trampoline b q) w)) = strong w"
    using s unfolding append_trampoline_def q prod.case Let_def by (simp add: case_prod_beta)
qed

lemma log_server_callback_preserves:
  assumes "log_server_owns ls m m'"
  shows "preserves m' (log_server_callback ls q)"
proof (cases "ls_hook ls")
  case None
  then show ?thesis by (simp add: log_server_callback_def preserves_return)
next
  case (Some b)
  then show ?thesis
    using assms by (auto simp: log_server_owns_def log_server_callback_def intro!: append_trampoline_preserves)
qed

lemma log_server_dispatch_preserves:
  assumes "log_server_owns ls m m'" and "(KFrame, rs_rc res) \<in> live m'"
  shows "preserves m' (log_server_dispatch A ls req res now)"
  unfolding log_server_dispatch_def responder_finish_def
  by (intro keep_rules log_server_usable [OF assms(1)] log_server_reg [OF assms(1)]
      log_server_callback_preserves [OF assms(1)] assms(2))

lemma log_server_new_owns:
  assumes "coherent w m1" and "owns_handle KLog (log_raw l) m m1"
    and "\<And>kp. fresh_ptr KLogServer (\<lambda>c. case c_log_server_create A kp (log_raw l) c of (p, c') \<Rightarrow>
        ((if p = null_ptr then - 1 else 0, p), c')) (lib w) m"
    and "run_state (log_server_new I A ident l) w = (r, w')"
  shows "case r of Inl e \<Rightarrow> coherent w' m | Inr ls \<Rightarrow> ls_hook ls = None \<and> (\<exists>m'. log_server_owns ls m m' \<and> coherent w' m')"
proof -
  define secret where "secret = cell_at w (id_priv ident)"
  obtain p c where cr: "c_log_server_create A (id_pub ident, secret) (log_raw l) (lib w) = (p, c)"
    by (metis prod.collapse)
  have u: "usable m1 (KLog, log_raw l)" using owns_usable [OF assms(2)] .
  show ?thesis
  proof (cases "p = null_ptr")
    case True
    then have r: "r = Inl InternalAlloc"
      and h: "history w' = history w @ [Use KLog (log_raw l), Release KLog (log_raw l)]"
      and s: "slots w' = slots w" "next_box w' = next_box w"
      using assms(4) cr by (auto simp: log_server_new_def run_with_keypair Let_def secret_def log_as_ptr_def
          log_drop_def case_prod_beta)
    have "coherent w' m"
      using assms(1,2) h s u by (auto simp: coherent_def owns_handle_def fun_upd_idem)
    then show ?thesis using r by simp
  next
    case False
    then have r: "r = Inr \<lparr>ls_raw = p, ls_hook = None, ls_log = l\<rparr>"
      and h: "history w' = history w @ [Use KLog (log_raw l), Acquire KLogServer p,
        Borrow KLogServer p (Some (KLog, log_raw l))]"
      and s: "slots w' = slots w" "next_box w' = next_box w"
      using assms(4) cr by (auto simp: log_server_new_def run_with_keypair Let_def secret_def log_as_ptr_def
          case_prod_beta)
    have f: "(KLogServer, p) \<notin> live m" "regs m (KLogServer, p) = None" "borrows m (KLogServer, p) = None"
      using assms(3) [of "(id_pub ident, secret)"] cr False by (auto simp: fresh_ptr_def)
    let ?m' = "m\<lparr>live := {(KLogServer, p), (KLog, log_raw l)} \<union> live m,
      borrows := (borrows m)((KLogServer, p) \<mapsto> (KLog, log_raw l))\<rparr>"
    have "coherent w' ?m'"
      using assms(1,2) h s u by (auto simp: coherent_def owns_handle_def)
    then show ?thesis
      using r f assms(2) by (auto simp: log_server_owns_def owns_handle_def)
  qed
qed

lemma log_server_drop_clean:
  assumes "log_server_owns ls m m'" and "coherent w m'" and "ls_hook ls = None"
  shows "coherent (snd (run_state (log_server_drop A ls) w)) m"
proof -
  let ?s = "(KLogServer, ls_raw ls)" and ?l = "(KLog, log_raw (ls_log ls))"
  have o: "?s \<notin> live m" "regs m ?s = None" "borrows m ?s = None" "?l \<notin> live m" "regs m ?l = None"
    "borrows m ?l = None" "m' = m\<lparr>live := {?s, ?l} \<union> live m, borrows := (borrows m)(?s \<mapsto> ?l)\<rparr>"
    using assms(1,3) by (auto simp: log_server_owns_def)
  have "insert ?s (insert ?l (live m)) - {?s} - {?l} = live m"
    using o by auto
  then show ?thesis
    using assms(2,3) o
    by (auto simp: coherent_def log_server_drop_def log_server_clear_hook_def log_drop_def usable_def fun_upd_idem)
qed

section \<open>A log server's life\<close>

text \<open>
  A request served through the log server, inside the frame its responder points to, and the
  registration of another hook.
\<close>

definition serve_log ::
  "('c, 'x) log_server_api_scheme \<Rightarrow> 'c log_server \<Rightarrow> request \<Rightarrow> responder \<Rightarrow> int \<Rightarrow> ('c, dispatch_outcome) io"
where
  "serve_log A ls req res now =
     in_frame (\<lambda>slot. log_server_dispatch A ls req (res\<lparr>rs_rc := slot\<rparr>) now)"

inductive log_server_step ::
  "('c, 'x) log_server_api_scheme \<Rightarrow> 'c log_server \<times> 'c world \<Rightarrow> 'c log_server \<times> 'c world \<Rightarrow> bool"
  for A :: "('c, 'x) log_server_api_scheme"
where
  serve: "log_server_step A (ls, w) (ls, snd (run_state (serve_log A ls req res now) w))"
| hook: "harmless f \<Longrightarrow> log_server_step A (ls, w) (run_state (log_server_on_append A ls f) w)"

definition log_server_inv :: "monitor \<Rightarrow> 'c log_server \<times> 'c world \<Rightarrow> bool" where
  "log_server_inv m s \<longleftrightarrow> (\<exists>m'. log_server_owns (fst s) m m' \<and> coherent (snd s) m')"

lemma owns_with_frame:
  assumes "log_server_owns ls m m'"
  shows "log_server_owns ls (m\<lparr>live := insert (KFrame, i) (live m)\<rparr>) (m'\<lparr>live := insert (KFrame, i) (live m')\<rparr>)"
  using assms by (auto simp: log_server_owns_def insert_commute split: option.splits)

lemma serve_log_inv:
  assumes "log_server_owns ls m m'" and "coherent w m'"
  shows "coherent (snd (run_state (serve_log A ls req res now) w)) m'"
  unfolding serve_log_def
  by (rule preservesD [OF preserves_in_frame assms(2)], rule log_server_dispatch_preserves)
    (use owns_with_frame [OF assms(1)] in auto)

lemma on_append_inv:
  assumes "log_server_owns ls m m'" and "coherent w m'" and "harmless f"
  shows "log_server_inv m (run_state (log_server_on_append A ls f) w)"
proof -
  let ?s = "(KLogServer, ls_raw ls)" and ?l = "(KLog, log_raw (ls_log ls))" and ?b = "next_box w"
  let ?w' = "snd (run_state (log_server_on_append A ls f) w)"
  let ?evs = "(case ls_hook ls of None \<Rightarrow> [] | Some b \<Rightarrow>
      [Use KLogServer (ls_raw ls), Unregister KLogServer (ls_raw ls), BoxDrop (ab_id b)]) @
    [BoxNew ?b, Use KLogServer (ls_raw ls), Register KLogServer (ls_raw ls) ?b]"
  let ?m' = "m\<lparr>live := {?s, ?l} \<union> live m, boxes := insert ?b (boxes m), regs := (regs m)(?s \<mapsto> ?b),
    borrows := (borrows m)(?s \<mapsto> ?l)\<rparr>"
  have o: "?s \<notin> live m" "regs m ?s = None" "borrows m ?s = None" "?l \<notin> live m" "regs m ?l = None"
    "borrows m ?l = None" and run: "running m' = running m" and sub: "boxes m \<subseteq> boxes m'"
    using assms(1) by (auto simp: log_server_owns_def split: option.splits)
  have fresh: "?b \<notin> boxes m" "?b \<notin> set (running m)"
    using coherent_fresh(2) [OF assms(2)] assms(2) run sub by (auto simp: coherent_def)
  have ev: "mon_run ?evs m' = Some ?m'"
    using assms(1) o run
    by (cases "ls_hook ls") (auto simp: log_server_owns_def usable_def fun_upd_idem)
  have h: "history ?w' = history w @ ?evs" "slots ?w' = slots w" "next_box ?w' = Suc ?b"
    and ls': "fst (run_state (log_server_on_append A ls f) w) =
      ls\<lparr>ls_hook := Some \<lparr>ab_id = ?b, ab_f = f\<rparr>\<rparr>"
    by (cases "ls_hook ls"; simp add: log_server_on_append_def log_server_clear_hook_def)+
  have "judged ?w' = Some ?m'"
    unfolding h using assms(2) ev by (simp add: coherent_def del: mon_run.simps)
  moreover have "set (running m) \<subseteq> boxes m"
    using assms(1,2) by (auto simp: coherent_def log_server_owns_def split: option.splits)
  ultimately have "coherent ?w' ?m'"
    using assms(1,2) h
    by (auto simp: coherent_def log_server_owns_def less_Suc_eq split: option.splits)
  moreover have "log_server_owns (ls\<lparr>ls_hook := Some \<lparr>ab_id = ?b, ab_f = f\<rparr>\<rparr>) m ?m'"
    using o fresh assms(3) by (simp add: log_server_owns_def)
  ultimately show ?thesis
    unfolding log_server_inv_def ls' by blast
qed

lemma log_server_step_inv: "log_server_step A s s' \<Longrightarrow> log_server_inv m s \<Longrightarrow> log_server_inv m s'"
proof (induction rule: log_server_step.induct)
  case (serve ls w req res now)
  then show ?case using serve_log_inv by (fastforce simp: log_server_inv_def)
next
  case (hook f ls w)
  then obtain m' where "log_server_owns ls m m'" and "coherent w m'"
    by (auto simp: log_server_inv_def)
  then show ?case using on_append_inv hook(1) by blast
qed

interpretation log_server_run: step_invariant "log_server_step A" "log_server_inv m"
  for A :: "('c, 'x) log_server_api_scheme" and m
  by unfold_locales (rule log_server_step_inv)

lemmas log_server_reach_inv = log_server_run.reach_keeps

lemma log_server_drop_hooked:
  assumes "judged w = Some m" and "ls_hook ls = Some b"
  shows "judged (snd (run_state (log_server_drop A ls) w)) = None"
proof -
  let ?evs = "[Release KLogServer (ls_raw ls), Use KLogServer (ls_raw ls), Unregister KLogServer (ls_raw ls),
    BoxDrop (ab_id b), Release KLog (log_raw (ls_log ls))]"
  have "history (snd (run_state (log_server_drop A ls) w)) = history w @ ?evs"
    using assms(2) by (simp add: log_server_drop_def log_server_clear_hook_def log_drop_def)
  moreover have "mon_run ?evs m = None"
    by (simp add: usable_def)
  ultimately show ?thesis
    using assms(1) by (simp add: mon_run_append)
qed

lemma quiet_session:
  assumes "ls_hook ls = None"
  shows "slots (snd (run_state (run_session (log_server_callback ls) s) w)) = slots w \<and>
    history (snd (run_state (run_session (log_server_callback ls) s) w)) = history w"
  by (rule session_inv [where P = "\<lambda>v. slots v = slots w \<and> history v = history w" and Q = "\<lambda>_. True"])
    (use assms in \<open>simp_all add: log_server_callback_def\<close>)

lemma run_log_route_handler:
  assumes "run_state (drive KLogServer (ls_raw ls) (log_server_callback ls)
      (c_log_server_dispatch A (ls_raw ls) (rq_conn req) (rq_msg req) (rs_buf res) now)) w = (rc, w')"
  shows "run_state (log_route_handler A H ls now t req res) w =
    (Some Reply, if rc = 1 then answered (rs_rc res) (terminal_uses res t) (terminal_call H res t (lib w')) w'
      else answered (rs_rc res) [] (rc, lib w') w')"
  using assms
  by (simp add: log_route_handler_def log_server_dispatch_def run_respond answered_def request_conn_id_def
      request_raw_msg_def responder_raw_buf_def responder_finish_def del: run_drive)

definition sample_log_server_api :: "'c log_server_api" where
  "sample_log_server_api = log_api.extend sample_log_api (log_server_api.fields
     (\<lambda>kp l c. (60, c))
     (\<lambda>p b c. ((), c))
     (\<lambda>p conn msg buf now c. if msg = 3 then Callback (Some [9], 1, 0) c (\<lambda>_ c. Finish 0 c) else Finish 1 c)
     (\<lambda>p c. c))"

lemmas sample_log_server_simps = sample_log_server_api_def sample_log_api_def log_api.defs log_server_api.defs

section \<open>Properties\<close>

text \<open>
  C8. A log server with a hook cannot be dropped safely, and one without can. From its construction
  over a log, through any requests it serves and any hooks registered, every step is accepted by the
  monitor, hooks are replaced without a leak, and the log stays live under the server; a drop is
  then accepted, and frees the server and the log once, exactly when no hook is registered: with a hook,
  \<^verbatim>\<open>Drop\<close> frees the server and then calls \<^verbatim>\<open>clear_hook\<close>, which passes the freed pointer back to the
  library. A failed construction drops the log.
\<close>

theorem log_server_drop_exact:
  assumes "coherent w m1" and "owns_handle KLog (log_raw l) m m1"
    and "\<And>kp. fresh_ptr KLogServer (\<lambda>c. case c_log_server_create A kp (log_raw l) c of (p, c') \<Rightarrow>
        ((if p = null_ptr then - 1 else 0, p), c')) (lib w) m"
    and "run_state (log_server_new I A ident l) w = (r, w1)"
    and "\<And>ls. r = Inr ls \<Longrightarrow> (log_server_step A)\<^sup>*\<^sup>* (ls, w1) (ls', w2)"
  shows "case r of
      Inl e \<Rightarrow> e = InternalAlloc \<and> judged w1 = Some m
    | Inr ls \<Rightarrow> judged w2 \<noteq> None \<and>
        judged (snd (run_state (log_server_drop A ls') w2)) = (if ls_hook ls' = None then Some m else None)"
proof -
  have o: "case r of Inl e \<Rightarrow> coherent w1 m | Inr ls \<Rightarrow> log_server_inv m (ls, w1)"
    using log_server_new_owns [OF assms(1-4)] by (auto simp: log_server_inv_def split: sum.splits)
  show ?thesis
  proof (cases r)
    case (Inl e)
    then have "e = InternalAlloc"
      using assms(4) by (auto simp: log_server_new_def run_with_keypair Let_def case_prod_beta log_drop_def
          split: if_splits)
    with Inl o show ?thesis by (simp add: coherent_def)
  next
    case (Inr ls)
    then obtain m' where m': "log_server_owns ls' m m'" "coherent w2 m'"
      using o assms(5) log_server_reach_inv by (fastforce simp: log_server_inv_def)
    then have "judged w2 = Some m'" by (simp add: coherent_def)
    with Inr m' show ?thesis
      using log_server_drop_clean [OF m'] log_server_drop_hooked by (auto simp: coherent_def)
  qed
qed

theorem log_server_drop_exact_witness:
  "\<exists>w1. run_state (log_server_new sample_identity_api sample_log_server_api
       \<lparr>id_node = NodeId [1], id_pub = [2], id_priv = 0\<rparr> (Log 50))
       ((world_init ())\<lparr>history := [Acquire KLog 50]\<rparr>) = (Inr \<lparr>ls_raw = 60, ls_hook = None, ls_log = Log 50\<rparr>, w1) \<and>
     judged (snd (run_state (log_server_drop sample_log_server_api \<lparr>ls_raw = 60, ls_hook = None, ls_log = Log 50\<rparr>) w1))
       = Some mon_init \<and>
     (case run_state (log_server_on_append sample_log_server_api \<lparr>ls_raw = 60, ls_hook = None, ls_log = Log 50\<rparr>
         (\<lambda>bs i. State_Monad.return (Some ()))) w1 of (ls', w2) \<Rightarrow>
        judged (snd (run_state (log_server_drop sample_log_server_api ls') w2)) = None)"
proof -
  let ?w = "(world_init ())\<lparr>history := [Acquire KLog 50]\<rparr>"
  let ?ls = "\<lparr>ls_raw = 60, ls_hook = None, ls_log = Log 50\<rparr> :: unit log_server"
  let ?f = "\<lambda>bs i. State_Monad.return (Some ()) :: (unit, unit option) io"
  let ?m1 = "mon_init\<lparr>live := {(KLog, 50)}\<rparr>"
  have c: "coherent ?w ?m1" by (simp add: coherent_def world_init_def mon_init_def)
  have o: "owns_handle KLog (log_raw (Log 50)) mon_init ?m1" by (simp add: owns_handle_def mon_init_def)
  have f: "fresh_ptr KLogServer (\<lambda>c. case c_log_server_create sample_log_server_api kp (log_raw (Log 50)) c of
      (p, c') \<Rightarrow> ((if p = null_ptr then - 1 else 0, p), c')) (lib ?w) mon_init" for kp
    by (simp add: fresh_ptr_def mon_init_def sample_log_server_simps)
  obtain w1 where n: "run_state (log_server_new sample_identity_api sample_log_server_api
      \<lparr>id_node = NodeId [1], id_pub = [2], id_priv = 0\<rparr> (Log 50)) ?w = (Inr ?ls, w1)"
    by (simp add: log_server_new_def run_with_keypair Let_def log_as_ptr_def sample_log_server_simps)
  have hf: "harmless ?f" by (simp add: harmless_def preserves_return)
  have st: "(log_server_step sample_log_server_api)\<^sup>*\<^sup>* (?ls, w1)
      (run_state (log_server_on_append sample_log_server_api ?ls ?f) w1)"
    by (rule r_into_rtranclp, rule log_server_step.hook [OF hf])
  obtain ls' w2 where h: "run_state (log_server_on_append sample_log_server_api ?ls ?f) w1 = (ls', w2)"
    by (metis prod.collapse)
  then have "ls_hook ls' \<noteq> None"
    by (auto simp: log_server_on_append_def log_server_clear_hook_def)
  then show ?thesis
    using n h log_server_drop_exact [OF c o f n, of ?ls w1]
      log_server_drop_exact [OF c o f n, of ls' w2] st
    by auto
qed



end
