(* ===== verification/Trust.thy ===== *)
theory Trust
  imports LogServer Client
begin

text \<open>
  \<^verbatim>\<open>nwep/src/trust/\<close>: the BLS keypair and the free functions on signatures (\<^verbatim>\<open>bls.rs\<close>), the decoded
  checkpoint and the genesis ceremony (\<^verbatim>\<open>checkpoint.rs\<close>), the anchor node, its partial signatures and
  the assembly of a checkpoint (\<^verbatim>\<open>anchor.rs\<close>), the trust store (\<^verbatim>\<open>store.rs\<close>) and the acceptance of a
  rotated key (\<^verbatim>\<open>key.rs\<close>). The secret of a BLS keypair is a cell, like an identity's private key.
\<close>

section \<open>State and library\<close>

definition bls_seckey_size :: nat where
  "bls_seckey_size = 32"

definition bls_pubkey_size :: nat where
  "bls_pubkey_size = 48"

definition bls_signature_size :: nat where
  "bls_signature_size = 96"

datatype bls_signature = BlsSignature (bls_bytes: bytes)

record bls_keypair =
  bk_secret :: nat
  bk_public :: bytes

datatype checkpoint_status = CpFresh | CpWarning | CpStale

datatype checkpoint = Checkpoint (cp_raw: ptr)

record partial_sig =
  ps_index :: u8
  ps_sig :: bytes

datatype anchor_node = AnchorNode (an_raw: ptr)

datatype trust_store = TrustStore (ts_raw: ptr)

datatype key_status = KeyNotRevoked | KeyRevoked

record 'c trust_api =
  c_bls_keygen :: "'c \<Rightarrow> (int \<times> bytes \<times> bytes) \<times> 'c"
  c_bls_sign :: "bytes \<Rightarrow> bytes \<Rightarrow> int \<times> bytes"
  c_bls_verify :: "bytes \<Rightarrow> bytes \<Rightarrow> bytes \<Rightarrow> int"
  c_bls_aggregate :: "bytes \<Rightarrow> nat \<Rightarrow> int \<times> bytes"
  c_bls_verify_aggregate :: "bytes \<Rightarrow> bytes \<Rightarrow> nat \<Rightarrow> bytes \<Rightarrow> int"
  c_checkpoint_decode :: "bytes \<Rightarrow> 'c \<Rightarrow> (int \<times> ptr) \<times> 'c"
  c_checkpoint_staleness :: "ptr \<Rightarrow> int \<Rightarrow> 'c \<Rightarrow> int"
  c_checkpoint_free :: "ptr \<Rightarrow> 'c \<Rightarrow> 'c"
  c_genesis_checkpoint_create :: "bytes \<Rightarrow> bytes \<Rightarrow> bytes \<Rightarrow> nat \<Rightarrow> nat \<Rightarrow> 'c producer"
  c_anchor_node_create :: "bytes \<Rightarrow> bytes \<Rightarrow> bytes \<Rightarrow> bytes \<Rightarrow> u64 \<Rightarrow> u64 \<Rightarrow> 'c \<Rightarrow> ptr \<times> 'c"
  c_anchor_collect_log_root :: "ptr \<Rightarrow> u64 \<Rightarrow> bytes \<Rightarrow> u64 \<Rightarrow> bytes \<Rightarrow> 'c \<Rightarrow> int \<times> 'c"
  c_anchor_produce_partial_sig :: "ptr \<Rightarrow> u64 \<Rightarrow> bytes \<Rightarrow> u64 \<Rightarrow> 'c \<Rightarrow> (int \<times> u8 \<times> bytes) \<times> 'c"
  c_anchor_dispatch :: "ptr \<Rightarrow> bytes \<Rightarrow> bytes \<Rightarrow> nat \<Rightarrow> ptr \<Rightarrow> ptr \<Rightarrow> int \<Rightarrow> 'c \<Rightarrow> int \<times> 'c"
  c_anchor_request_partial_sig ::
    "ptr \<Rightarrow> u64 \<Rightarrow> bytes \<Rightarrow> u64 \<Rightarrow> bytes \<Rightarrow> 'c \<Rightarrow> (int \<times> u8 \<times> bytes) \<times> 'c"
  c_anchor_node_free :: "ptr \<Rightarrow> 'c \<Rightarrow> 'c"
  c_anchor_finish_checkpoint ::
    "u64 \<Rightarrow> bytes \<Rightarrow> u64 \<Rightarrow> bytes \<Rightarrow> bytes \<Rightarrow> nat \<Rightarrow> bytes \<Rightarrow> nat \<Rightarrow> 'c producer"
  c_trust_store_create :: "'c \<Rightarrow> ptr \<times> 'c"
  c_trust_store_load_genesis_anchors :: "ptr \<Rightarrow> bytes \<Rightarrow> nat \<Rightarrow> 'c \<Rightarrow> int \<times> 'c"
  c_trust_store_update_checkpoint :: "ptr \<Rightarrow> bytes \<Rightarrow> int \<Rightarrow> 'c \<Rightarrow> int \<times> 'c"
  c_checkpoint_verify :: "ptr \<Rightarrow> bytes \<Rightarrow> int \<Rightarrow> 'c \<Rightarrow> int"
  c_trust_store_observe_log_size :: "ptr \<Rightarrow> u64 \<Rightarrow> 'c \<Rightarrow> int \<times> 'c"
  c_trust_store_max_log_size :: "ptr \<Rightarrow> 'c \<Rightarrow> u64"
  c_trust_store_save :: "ptr \<Rightarrow> 'c producer"
  c_trust_store_load :: "ptr \<Rightarrow> bytes \<Rightarrow> 'c \<Rightarrow> int \<times> 'c"
  c_trust_store_verify_key :: "ptr \<Rightarrow> ptr \<Rightarrow> bytes \<Rightarrow> bytes option \<Rightarrow> int \<Rightarrow> 'c \<Rightarrow> int \<times> 'c"
  c_trust_store_verify_key_binding :: "ptr \<Rightarrow> bytes \<Rightarrow> bytes \<Rightarrow> bytes \<Rightarrow> int \<Rightarrow> 'c \<Rightarrow> int"
  c_trust_store_apply_anchor_change :: "ptr \<Rightarrow> bytes \<Rightarrow> u64 \<Rightarrow> 'c \<Rightarrow> int \<times> 'c"
  c_trust_store_evaluate_key_rotation :: "bytes \<Rightarrow> bytes \<Rightarrow> int \<Rightarrow> int"
  c_trust_store_free :: "ptr \<Rightarrow> 'c \<Rightarrow> 'c"
  c_trust_version :: "bytes"

section \<open>BLS signatures\<close>

definition bls_signature_as_bytes :: "bls_signature \<Rightarrow> bytes" where
  "bls_signature_as_bytes s = bls_bytes s"

definition bls_signature_from_bytes :: "bytes \<Rightarrow> bls_signature" where
  "bls_signature_from_bytes bs = BlsSignature bs"

text \<open>The \<^verbatim>\<open>Debug\<close> texts of signatures and keypairs name no byte of them.\<close>

definition bls_signature_debug :: "bls_signature \<Rightarrow> string" where
  "bls_signature_debug s = ''BlsSignature(96 bytes)''"

definition bls_keypair_debug :: "bls_keypair \<Rightarrow> string" where
  "bls_keypair_debug kp = ''BlsKeypair { .. }''"


definition bls_generate :: "('c, 'x) trust_api_scheme \<Rightarrow> ('c, bls_keypair) io_result" where
  "bls_generate A = do {
     secret \<leftarrow> cell_new (zeros bls_seckey_size);
     (rc, sk, pk) \<leftarrow> call (c_bls_keygen A);
     cell_write secret (overwrite sk (zeros bls_seckey_size));
     try_ok (lift_res (error_check rc)) (\<lambda>_. do {
       moved \<leftarrow> cell_read secret;
       own \<leftarrow> cell_new moved;
       ret_ok \<lparr>bk_secret = own, bk_public = overwrite pk (zeros bls_pubkey_size)\<rparr>
     })
   }"

definition bls_sign :: "('c, 'x) trust_api_scheme \<Rightarrow> bls_keypair \<Rightarrow> bytes \<Rightarrow> ('c, bls_signature) io_result" where
  "bls_sign A kp msg = do {
     sk \<leftarrow> cell_read (bk_secret kp);
     let (rc, sig) = c_bls_sign A sk msg;
     try_ok (lift_res (error_check rc)) (\<lambda>_. ret_ok (BlsSignature (overwrite sig (zeros bls_signature_size))))
   }"

definition bls_public_key :: "bls_keypair \<Rightarrow> bytes" where
  "bls_public_key kp = bk_public kp"

definition bls_secret :: "bls_keypair \<Rightarrow> ('c, bytes) io" where
  "bls_secret kp = cell_read (bk_secret kp)"

definition bls_drop :: "'c identity_api \<Rightarrow> bls_keypair \<Rightarrow> ('c, unit) io" where
  "bls_drop I kp = zeroize I (bk_secret kp)"

definition bls_verify :: "('c, 'x) trust_api_scheme \<Rightarrow> bls_signature \<Rightarrow> bytes \<Rightarrow> bytes \<Rightarrow> bool" where
  "bls_verify A sig pk msg \<longleftrightarrow> c_bls_verify A (bls_bytes sig) pk msg = 0"

definition bls_aggregate :: "('c, 'x) trust_api_scheme \<Rightarrow> bls_signature list \<Rightarrow> error + bls_signature" where
  "bls_aggregate A sigs =
     (if sigs = [] then Inl ConfigInvalid
      else (case c_bls_aggregate A (concat (map bls_bytes sigs)) (length sigs) of (rc, out) \<Rightarrow>
        and_then (error_check rc) (\<lambda>_. Inr (BlsSignature (overwrite out (zeros bls_signature_size))))))"

definition bls_verify_aggregate ::
  "('c, 'x) trust_api_scheme \<Rightarrow> bls_signature \<Rightarrow> bytes list \<Rightarrow> bytes \<Rightarrow> bool" where
  "bls_verify_aggregate A agg pks msg \<longleftrightarrow>
     (if pks = [] then False
      else c_bls_verify_aggregate A (bls_bytes agg) (concat pks) (length pks) msg = 0)"

section \<open>Checkpoints\<close>

definition nwep_checkpoint_fresh :: int where
  [simp]: "nwep_checkpoint_fresh = 0"

definition nwep_checkpoint_warning :: int where
  [simp]: "nwep_checkpoint_warning = 1"

definition checkpoint_status_from_code :: "int \<Rightarrow> checkpoint_status" where
  "checkpoint_status_from_code c = (if c = nwep_checkpoint_fresh then CpFresh
      else if c = nwep_checkpoint_warning then CpWarning else CpStale)"

definition checkpoint_decode :: "('c, 'x) trust_api_scheme \<Rightarrow> bytes \<Rightarrow> ('c, checkpoint) io_result" where
  "checkpoint_decode A bs = opened KCheckpoint (c_checkpoint_decode A bs) Checkpoint"

definition checkpoint_staleness ::
  "('c, 'x) trust_api_scheme \<Rightarrow> checkpoint \<Rightarrow> int \<Rightarrow> ('c, checkpoint_status) io_result" where
  "checkpoint_staleness A cp now = do {
     rc \<leftarrow> peek_on KCheckpoint (cp_raw cp) (c_checkpoint_staleness A (cp_raw cp) now);
     (if rc < 0 then ret_err (error_from_code rc) else ret_ok (checkpoint_status_from_code rc))
   }"

definition checkpoint_as_ptr :: "checkpoint \<Rightarrow> ptr" where
  "checkpoint_as_ptr cp = cp_raw cp"

definition checkpoint_drop :: "('c, 'x) trust_api_scheme \<Rightarrow> checkpoint \<Rightarrow> ('c, unit) io" where
  "checkpoint_drop A cp = release KCheckpoint (cp_raw cp) (c_checkpoint_free A (cp_raw cp))"

text \<open>\<^verbatim>\<open>buf[off..off + src.len()].copy_from_slice(src)\<close>.\<close>

definition splice :: "nat \<Rightarrow> bytes \<Rightarrow> bytes \<Rightarrow> bytes" where
  "splice off src buf = take off buf @ src @ drop (off + length src) buf"

text \<open>The loop of the ceremony: the founder \<open>i\<close> fills the \<open>i\<close>-th slot of the three buffers.\<close>

fun pack_founders ::
  "nat \<Rightarrow> nat \<Rightarrow> (bls_keypair \<times> u8) list \<Rightarrow> bytes \<Rightarrow> bytes \<Rightarrow> ('c, bytes \<times> bytes) io" where
  "pack_founders secrets i [] pubkeys indices = State_Monad.return (pubkeys, indices)"
| "pack_founders secrets i ((kp, index) # founders) pubkeys indices = do {
     sk \<leftarrow> bls_secret kp;
     buf \<leftarrow> cell_read secrets;
     cell_write secrets (splice (i * bls_seckey_size) sk buf);
     pack_founders secrets (Suc i) founders
       (splice (i * bls_pubkey_size) (bls_public_key kp) pubkeys) (indices[i := index])
   }"

definition genesis_checkpoint ::
  "'c identity_api \<Rightarrow> ('c, 'x) trust_api_scheme \<Rightarrow> (bls_keypair \<times> u8) list \<Rightarrow> nat \<Rightarrow> ('c, bytes) io_result"
where
  "genesis_checkpoint I A founders threshold =
     (if founders = [] \<or> threshold = 0 \<or> length founders < threshold then ret_err ConfigInvalid
      else do {
        let n = length founders;
        secrets \<leftarrow> cell_new (zeros (n * bls_seckey_size));
        (pubkeys, indices) \<leftarrow> pack_founders secrets 0 founders (zeros (n * bls_pubkey_size)) (zeros n);
        sks \<leftarrow> cell_read secrets;
        (size_rc, _, len) \<leftarrow> call (c_genesis_checkpoint_create A sks pubkeys indices n threshold None);
        (case error_check size_rc of
           Inl e \<Rightarrow> do { zeroize I secrets; ret_err e }
         | Inr _ \<Rightarrow> do {
             (rc, written, len') \<leftarrow> call (c_genesis_checkpoint_create A sks pubkeys indices n threshold
               (Some (zeros len)));
             zeroize I secrets;
             try_ok (lift_res (error_check rc)) (\<lambda>_.
               ret_ok (take len' (overwrite written (zeros len))))
           })
      })"

section \<open>Anchors\<close>

definition partial_sig_index :: "partial_sig \<Rightarrow> u8" where
  "partial_sig_index p = ps_index p"

definition partial_sig_signature :: "partial_sig \<Rightarrow> bytes" where
  "partial_sig_signature p = ps_sig p"

definition clamp_u64 :: "nat \<Rightarrow> u64" where
  "clamp_u64 millis = as_u64 (int (min millis (2 ^ 64 - 1)))"

definition anchor_new ::
  "'c identity_api \<Rightarrow> ('c, 'x) trust_api_scheme \<Rightarrow> identity \<Rightarrow> bls_keypair \<Rightarrow> u8 \<Rightarrow> nat \<Rightarrow>
   ('c, anchor_node) io_result" where
  "anchor_new I A ident bls share_index millis = do {
     let window_ms = clamp_u64 millis;
     raw \<leftarrow> with_raw_keys I ident (\<lambda>pk sk. do {
       bsk \<leftarrow> bls_secret bls;
       call (c_anchor_node_create A pk sk bsk (bls_public_key bls) (ucast share_index) window_ms)
     });
     (if raw = null_ptr then ret_err ConfigInvalid
      else do { emit (Acquire KAnchor raw); ret_ok (AnchorNode raw) })
   }"

definition anchor_collect_log_root ::
  "('c, 'x) trust_api_scheme \<Rightarrow> anchor_node \<Rightarrow> u64 \<Rightarrow> bytes \<Rightarrow> u64 \<Rightarrow> bytes \<Rightarrow> ('c, unit) io_result" where
  "anchor_collect_log_root A a epoch server_root log_size local_root =
     checked (call_on KAnchor (an_raw a)
       (c_anchor_collect_log_root A (an_raw a) epoch server_root log_size local_root))"

definition anchor_produce_partial_sig ::
  "('c, 'x) trust_api_scheme \<Rightarrow> anchor_node \<Rightarrow> u64 \<Rightarrow> bytes \<Rightarrow> u64 \<Rightarrow> ('c, partial_sig) io_result" where
  "anchor_produce_partial_sig A a epoch root log_size =
     try_ok (checked_out (call_on KAnchor (an_raw a)
         (c_anchor_produce_partial_sig A (an_raw a) epoch root log_size)))
       (\<lambda>(index, sig). ret_ok \<lparr>ps_index = index, ps_sig = overwrite sig (zeros bls_signature_size)\<rparr>)"

definition anchor_dispatch ::
  "('c, 'x) trust_api_scheme \<Rightarrow> anchor_node \<Rightarrow> node_id \<Rightarrow> node_id list \<Rightarrow> request \<Rightarrow> responder \<Rightarrow> int \<Rightarrow>
   ('c, dispatch_outcome) io" where
  "anchor_dispatch A a requester anchors req res now = do {
     let ids = concat (map node_id_as_bytes anchors);
     rc \<leftarrow> call_on KAnchor (an_raw a) (c_anchor_dispatch A (an_raw a) (node_id_raw requester) ids
       (length anchors) (request_raw_msg req) (responder_raw_buf res) now);
     (if rc = 1 then State_Monad.return (NotMine res)
      else do { r \<leftarrow> responder_finish res rc; State_Monad.return (Handled r) })
   }"

definition anchor_as_ptr :: "anchor_node \<Rightarrow> ptr" where
  "anchor_as_ptr a = an_raw a"

definition anchor_drop :: "('c, 'x) trust_api_scheme \<Rightarrow> anchor_node \<Rightarrow> ('c, unit) io" where
  "anchor_drop A a = release KAnchor (an_raw a) (c_anchor_node_free A (an_raw a))"

definition request_partial_sig ::
  "('c, 'x) trust_api_scheme \<Rightarrow> 'c client \<Rightarrow> u64 \<Rightarrow> bytes \<Rightarrow> u64 \<Rightarrow> bytes \<Rightarrow> ('c, partial_sig) io_result" where
  "request_partial_sig A cl epoch root log_size peer =
     try_ok (checked_out (call_on KClient (cl_raw cl)
         (c_anchor_request_partial_sig A (cl_raw cl) epoch root log_size peer)))
       (\<lambda>(index, sig). ret_ok \<lparr>ps_index = index, ps_sig = overwrite sig (zeros bls_signature_size)\<rparr>)"

text \<open>The loop that gathers the indices and the signatures of the partials side by side.\<close>

fun gather_partials :: "partial_sig list \<Rightarrow> bytes \<Rightarrow> bytes \<Rightarrow> bytes \<times> bytes" where
  "gather_partials [] indices sigs = (indices, sigs)"
| "gather_partials (p # ps) indices sigs = gather_partials ps (indices @ [ps_index p]) (sigs @ ps_sig p)"

definition finish_checkpoint ::
  "('c, 'x) trust_api_scheme \<Rightarrow> u64 \<Rightarrow> bytes \<Rightarrow> u64 \<Rightarrow> partial_sig list \<Rightarrow> bytes list \<Rightarrow> ('c, bytes) io_result"
where
  "finish_checkpoint A epoch root log_size partials keys =
     (if partials = [] \<or> keys = [] then ret_err ConfigInvalid
      else (case gather_partials partials [] [] of (indices, sigs) \<Rightarrow>
        two_call (c_anchor_finish_checkpoint A epoch root log_size indices sigs (length partials)
          (concat keys) (length keys))))"

section \<open>Trust store\<close>

definition store_new :: "('c, 'x) trust_api_scheme \<Rightarrow> ('c, trust_store) io_result" where
  "store_new A = do {
     raw \<leftarrow> call (c_trust_store_create A);
     (if raw = null_ptr then ret_err InternalAlloc
      else do { emit (Acquire KTrustStore raw); ret_ok (TrustStore raw) })
   }"

definition store_load_genesis_anchors ::
  "('c, 'x) trust_api_scheme \<Rightarrow> trust_store \<Rightarrow> bytes list \<Rightarrow> ('c, unit) io_result" where
  "store_load_genesis_anchors A s keys =
     checked (call_on KTrustStore (ts_raw s)
       (c_trust_store_load_genesis_anchors A (ts_raw s) (concat keys) (length keys)))"

definition store_update_checkpoint ::
  "('c, 'x) trust_api_scheme \<Rightarrow> trust_store \<Rightarrow> bytes \<Rightarrow> int \<Rightarrow> ('c, checkpoint_status) io_result" where
  "store_update_checkpoint A s cp now = do {
     rc \<leftarrow> call_on KTrustStore (ts_raw s) (c_trust_store_update_checkpoint A (ts_raw s) cp now);
     (if rc < 0 then ret_err (error_from_code rc) else ret_ok (checkpoint_status_from_code rc))
   }"

definition store_verify_checkpoint ::
  "('c, 'x) trust_api_scheme \<Rightarrow> trust_store \<Rightarrow> bytes \<Rightarrow> int \<Rightarrow> ('c, unit) io_result" where
  "store_verify_checkpoint A s cp now =
     checked (peek_on KTrustStore (ts_raw s) (c_checkpoint_verify A (ts_raw s) cp now))"

definition store_observe_log_size ::
  "('c, 'x) trust_api_scheme \<Rightarrow> trust_store \<Rightarrow> u64 \<Rightarrow> ('c, unit) io_result" where
  "store_observe_log_size A s n =
     checked (call_on KTrustStore (ts_raw s) (c_trust_store_observe_log_size A (ts_raw s) n))"

definition store_max_log_size :: "('c, 'x) trust_api_scheme \<Rightarrow> trust_store \<Rightarrow> ('c, u64) io" where
  "store_max_log_size A s = peek_on KTrustStore (ts_raw s) (c_trust_store_max_log_size A (ts_raw s))"

definition store_save :: "('c, 'x) trust_api_scheme \<Rightarrow> trust_store \<Rightarrow> ('c, bytes) io_result" where
  "store_save A s = do {
     emit (Use KTrustStore (ts_raw s));
     two_call (c_trust_store_save A (ts_raw s))
   }"

definition store_load :: "('c, 'x) trust_api_scheme \<Rightarrow> trust_store \<Rightarrow> bytes \<Rightarrow> ('c, unit) io_result" where
  "store_load A s bs = checked (call_on KTrustStore (ts_raw s) (c_trust_store_load A (ts_raw s) bs))"

definition store_verify_key ::
  "('c, 'x) trust_api_scheme \<Rightarrow> trust_store \<Rightarrow> 'c client \<Rightarrow> node_id \<Rightarrow> bytes option \<Rightarrow> int \<Rightarrow>
   ('c, key_status) io_result" where
  "store_verify_key A s cl n commitment now = do {
     emit (Use KTrustStore (ts_raw s));
     rc \<leftarrow> call_on KClient (cl_raw cl)
       (c_trust_store_verify_key A (ts_raw s) (cl_raw cl) (node_id_raw n) commitment now);
     (if rc = 0 then ret_ok KeyNotRevoked
      else if rc = 1 then ret_ok KeyRevoked
      else ret_err (error_from_code rc))
   }"

definition store_verify_key_binding ::
  "('c, 'x) trust_api_scheme \<Rightarrow> trust_store \<Rightarrow> node_id \<Rightarrow> bytes \<Rightarrow> bytes \<Rightarrow> int \<Rightarrow> ('c, unit) io_result" where
  "store_verify_key_binding A s n pk bundle now =
     checked (peek_on KTrustStore (ts_raw s)
       (c_trust_store_verify_key_binding A (ts_raw s) (node_id_raw n) pk bundle now))"

definition store_apply_anchor_change ::
  "('c, 'x) trust_api_scheme \<Rightarrow> trust_store \<Rightarrow> bytes \<Rightarrow> u64 \<Rightarrow> ('c, unit) io_result" where
  "store_apply_anchor_change A s entry epoch =
     checked (call_on KTrustStore (ts_raw s) (c_trust_store_apply_anchor_change A (ts_raw s) entry epoch))"

definition store_as_ptr :: "trust_store \<Rightarrow> ptr" where
  "store_as_ptr s = ts_raw s"

definition store_drop :: "('c, 'x) trust_api_scheme \<Rightarrow> trust_store \<Rightarrow> ('c, unit) io" where
  "store_drop A s = release KTrustStore (ts_raw s) (c_trust_store_free A (ts_raw s))"

definition evaluate_key_rotation :: "('c, 'x) trust_api_scheme \<Rightarrow> bytes \<Rightarrow> bytes \<Rightarrow> int \<Rightarrow> error + unit" where
  "evaluate_key_rotation A entry pk now = error_check (c_trust_store_evaluate_key_rotation A entry pk now)"

definition trust_version :: "('c, 'x) trust_api_scheme \<Rightarrow> string" where
  "trust_version A = opt_unwrap_or (from_utf8 (c_trust_version A)) ''unknown''"

section \<open>Packing and wiping\<close>

definition founder_ok :: "'c world \<Rightarrow> bls_keypair \<times> u8 \<Rightarrow> bool" where
  "founder_ok w f \<longleftrightarrow> bk_secret (fst f) < length (cells w) \<and>
     length (cell_at w (bk_secret (fst f))) = bls_seckey_size \<and> length (bk_public (fst f)) = bls_pubkey_size"

definition founder_secret :: "'c world \<Rightarrow> bls_keypair \<times> u8 \<Rightarrow> bytes" where
  "founder_secret w f = cell_at w (bk_secret (fst f))"

lemma splice_slot:
  assumes "length pre = off" and "length src = n"
  shows "splice off src (pre @ zeros (n + k)) = (pre @ src) @ zeros k"
  using assms by (simp add: splice_def zeros_def)

lemma list_update_slot: "(xs @ zeros (Suc k))[length xs := x] = (xs @ [x]) @ zeros k"
  by (simp add: zeros_def list_update_append)

lemma pack_founders_frame:
  "\<exists>buf r. run_state (pack_founders c i fs pks ids) w = (r, w\<lparr>cells := (cells w)[c := buf]\<rparr>)"
proof (induction fs arbitrary: i pks ids w)
  case Nil
  have "w = w\<lparr>cells := (cells w)[c := cells w ! c]\<rparr>" by simp
  then show ?case by (metis pack_founders.simps(1) run_state_return)
next
  case (Cons f fs)
  obtain kp x where f: "f = (kp, x)" by (cases f)
  let ?w = "w\<lparr>cells := (cells w)[c := splice (i * bls_seckey_size) (cell_at w (bk_secret kp)) (cell_at w c)]\<rparr>"
  obtain buf r where "run_state (pack_founders c (Suc i) fs (splice (i * bls_pubkey_size) (bk_public kp) pks)
      (ids[i := x])) ?w = (r, ?w\<lparr>cells := (cells ?w)[c := buf]\<rparr>)"
    using Cons.IH by blast
  then show ?case
    by (auto simp: f bls_secret_def bls_public_key_def)
qed

lemma pack_founders_result:
  assumes "c < length (cells w)" and "\<forall>f \<in> set fs. founder_ok w f \<and> bk_secret (fst f) \<noteq> c"
    and "cells w ! c = S @ zeros (length fs * bls_seckey_size)" and "length S = i * bls_seckey_size"
    and "length P = i * bls_pubkey_size" and "length X = i"
  shows "run_state (pack_founders c i fs (P @ zeros (length fs * bls_pubkey_size)) (X @ zeros (length fs))) w =
    ((P @ concat (map (bk_public \<circ> fst) fs), X @ map snd fs),
     w\<lparr>cells := (cells w)[c := S @ concat (map (founder_secret w) fs)]\<rparr>)"
  using assms
proof (induction fs arbitrary: i S P X w)
  case Nil
  then have "(cells w)[c := S] = cells w" by (simp add: zeros_def list_update_same_conv)
  then show ?case by (simp add: zeros_def)
next
  case (Cons f fs)
  obtain kp x where f: "f = (kp, x)" by (cases f)
  let ?sk = "cell_at w (bk_secret kp)"
  let ?w = "w\<lparr>cells := (cells w)[c := (S @ ?sk) @ zeros (length fs * bls_seckey_size)]\<rparr>"
  have k: "length ?sk = bls_seckey_size" "length (bk_public kp) = bls_pubkey_size"
    and c: "cell_at w c = S @ zeros (bls_seckey_size + length fs * bls_seckey_size)"
    using Cons.prems f by (auto simp: founder_ok_def cell_at_def)
  have same: "cell_at ?w (bk_secret (fst g)) = cell_at w (bk_secret (fst g))" if "g \<in> set fs" for g
    using Cons.prems(2) that by (auto simp: cell_at_def)
  have ok: "\<forall>g \<in> set fs. founder_ok ?w g \<and> bk_secret (fst g) \<noteq> c"
    using Cons.prems(2) same by (auto simp: founder_ok_def)
  have sec: "map (founder_secret ?w) fs = map (founder_secret w) fs"
    using same by (simp add: founder_secret_def del: cell_at_update)
  have a: "splice (i * bls_seckey_size) ?sk (cell_at w c) = (S @ ?sk) @ zeros (length fs * bls_seckey_size)"
    unfolding c by (rule splice_slot) (use Cons.prems k in auto)
  have b: "splice (i * bls_pubkey_size) (bk_public kp) (P @ zeros (length (f # fs) * bls_pubkey_size)) =
      (P @ bk_public kp) @ zeros (length fs * bls_pubkey_size)"
    using splice_slot [of P "i * bls_pubkey_size" "bk_public kp"] Cons.prems k by simp
  have d: "(X @ zeros (length (f # fs)))[i := x] = (X @ [x]) @ zeros (length fs)"
    using list_update_slot [of X "length fs" x] Cons.prems by simp
  have hd: "founder_secret w f = ?sk" by (simp add: founder_secret_def f)
  have step: "run_state (pack_founders c (Suc i) fs ((P @ bk_public kp) @ zeros (length fs * bls_pubkey_size))
      ((X @ [x]) @ zeros (length fs))) ?w =
    (((P @ bk_public kp) @ concat (map (bk_public \<circ> fst) fs), (X @ [x]) @ map snd fs),
     ?w\<lparr>cells := (cells ?w)[c := (S @ ?sk) @ concat (map (founder_secret ?w) fs)]\<rparr>)"
    by (rule Cons.IH [OF _ ok]) (use Cons.prems k in auto)
  have run: "run_state (pack_founders c i (f # fs) (P @ zeros (length (f # fs) * bls_pubkey_size))
      (X @ zeros (length (f # fs)))) w =
    run_state (pack_founders c (Suc i) fs ((P @ bk_public kp) @ zeros (length fs * bls_pubkey_size))
      ((X @ [x]) @ zeros (length fs))) ?w"
    unfolding f pack_founders.simps using a b d by (simp add: bls_secret_def bls_public_key_def f)
  show ?case
    unfolding run step sec using hd by (simp add: f comp_def)
qed

lemma gather_partials_all:
  "gather_partials ps ids sigs = (ids @ map ps_index ps, sigs @ concat (map ps_sig ps))"
  by (induction ps arbitrary: ids sigs) simp_all

lemma run_genesis:
  assumes "founders \<noteq> []" and "0 < threshold" and "threshold \<le> length founders"
  obtains buf pks ids where
    "run_state (pack_founders (length (cells w)) 0 founders (zeros (length founders * bls_pubkey_size))
       (zeros (length founders))) (w\<lparr>cells := cells w @ [zeros (length founders * bls_seckey_size)]\<rparr>) =
     ((pks, ids), w\<lparr>cells := cells w @ [buf]\<rparr>)"
    and "fst (run_state (genesis_checkpoint I A founders threshold) w) =
      fst (run_state (two_call (c_genesis_checkpoint_create A buf pks ids (length founders) threshold))
        (w\<lparr>cells := cells w @ [buf]\<rparr>))"
    and "cells (snd (run_state (genesis_checkpoint I A founders threshold) w)) = cells w @ [c_zeroize I buf]"
proof -
  let ?w = "w\<lparr>cells := cells w @ [zeros (length founders * bls_seckey_size)]\<rparr>"
  obtain buf r where p: "run_state (pack_founders (length (cells w)) 0 founders
      (zeros (length founders * bls_pubkey_size)) (zeros (length founders))) ?w =
      (r, w\<lparr>cells := cells w @ [buf]\<rparr>)"
    using pack_founders_frame [of "length (cells w)" 0 founders "zeros (length founders * bls_pubkey_size)"
        "zeros (length founders)" ?w] by auto
  obtain pks ids where r: "r = (pks, ids)" by (cases r)
  have "founders = [] \<or> threshold = 0 \<or> length founders < threshold \<longleftrightarrow> False" using assms by auto
  then show ?thesis
    by (intro that [OF p [unfolded r]])
      (auto simp: genesis_checkpoint_def Let_def p r two_call_def list_update_append
        split: prod.splits sum.splits)
qed

lemma genesis_buffers:
  assumes "\<forall>f \<in> set founders. founder_ok w f"
  shows "run_state (pack_founders (length (cells w)) 0 founders (zeros (length founders * bls_pubkey_size))
       (zeros (length founders))) (w\<lparr>cells := cells w @ [zeros (length founders * bls_seckey_size)]\<rparr>) =
    ((concat (map (bk_public \<circ> fst) founders), map snd founders),
     w\<lparr>cells := cells w @ [concat (map (founder_secret w) founders)]\<rparr>)"
proof -
  let ?w = "w\<lparr>cells := cells w @ [zeros (length founders * bls_seckey_size)]\<rparr>"
  have same: "cell_at ?w (bk_secret (fst f)) = cell_at w (bk_secret (fst f))" if "f \<in> set founders" for f
    using assms that by (auto simp: founder_ok_def cell_at_def nth_append)
  have ok: "\<forall>f \<in> set founders. founder_ok ?w f \<and> bk_secret (fst f) \<noteq> length (cells w)"
    using assms same by (auto simp: founder_ok_def)
  have sec: "map (founder_secret ?w) founders = map (founder_secret w) founders"
    using same by (simp add: founder_secret_def del: cell_at_update)
  show ?thesis
    using pack_founders_result [OF _ ok, of "[]" 0 "[]" "[]"] by (simp add: sec)
qed

section \<open>Handles\<close>

definition store_create_status :: "('c, 'x) trust_api_scheme \<Rightarrow> 'c \<Rightarrow> (int \<times> ptr) \<times> 'c" where
  "store_create_status A c =
     (case c_trust_store_create A c of (p, c') \<Rightarrow>
        ((if p = null_ptr then error_code InternalAlloc else 0, p), c'))"

lemma store_new_opened: "store_new A = opened KTrustStore (store_create_status A) TrustStore"
proof (rule State_Monad.state.expand, rule ext)
  fix w
  show "run_state (store_new A) w = run_state (opened KTrustStore (store_create_status A) TrustStore) w"
    by (simp add: store_new_def opened_def store_create_status_def error_check_def error_from_code_def
        case_prod_beta)
qed

datatype store_op =
    SoGenesis "bytes list" | SoUpdate bytes int | SoVerify bytes int | SoObserve u64 | SoMax | SoSave
  | SoLoad bytes | SoBinding node_id bytes bytes int | SoAnchor bytes u64

fun store_run :: "('c, 'x) trust_api_scheme \<Rightarrow> trust_store \<Rightarrow> store_op \<Rightarrow> ('c, unit) io" where
  "store_run A s (SoGenesis ks) = discard (store_load_genesis_anchors A s ks)"
| "store_run A s (SoUpdate cp n) = discard (store_update_checkpoint A s cp n)"
| "store_run A s (SoVerify cp n) = discard (store_verify_checkpoint A s cp n)"
| "store_run A s (SoObserve n) = discard (store_observe_log_size A s n)"
| "store_run A s SoMax = discard (store_max_log_size A s)"
| "store_run A s SoSave = discard (store_save A s)"
| "store_run A s (SoLoad bs) = discard (store_load A s bs)"
| "store_run A s (SoBinding n k b t) = discard (store_verify_key_binding A s n k b t)"
| "store_run A s (SoAnchor e n) = discard (store_apply_anchor_change A s e n)"

lemma store_run_preserves: "usable m (KTrustStore, ts_raw s) \<Longrightarrow> preserves m (store_run A s op)"
  by (cases op) (auto simp: store_load_genesis_anchors_def store_update_checkpoint_def
      store_verify_checkpoint_def store_observe_log_size_def store_max_log_size_def store_save_def
      store_load_def store_verify_key_binding_def store_apply_anchor_change_def intro!: keep_rules)

interpretation store_handle: plain_handle KTrustStore "store_create_status A" "c_trust_store_free A" TrustStore ts_raw
  "\<lambda>s. range (store_run A s)" for A
  by unfold_locales (auto intro: store_run_preserves)

lemma checkpoint_staleness_preserves:
  "usable m (KCheckpoint, cp_raw cp) \<Longrightarrow> preserves m (checkpoint_staleness A cp now)"
  by (auto simp: checkpoint_staleness_def intro!: keep_rules)

interpretation checkpoint_handle: plain_handle KCheckpoint "c_checkpoint_decode A bs" "c_checkpoint_free A"
  Checkpoint cp_raw "\<lambda>cp. range (\<lambda>now. discard (checkpoint_staleness A cp now))" for A bs
  by unfold_locales (auto intro!: preserves_discard checkpoint_staleness_preserves)

text \<open>An anchor's operations, a dispatch inside the frame its responder points to among them.\<close>

datatype anchor_op =
    AnCollect u64 bytes u64 bytes | AnPartial u64 bytes u64
  | AnDispatch node_id "node_id list" request responder int

fun anchor_run :: "('c, 'x) trust_api_scheme \<Rightarrow> anchor_node \<Rightarrow> anchor_op \<Rightarrow> ('c, unit) io" where
  "anchor_run A a (AnCollect e r n l) = discard (anchor_collect_log_root A a e r n l)"
| "anchor_run A a (AnPartial e r n) = discard (anchor_produce_partial_sig A a e r n)"
| "anchor_run A a (AnDispatch peer ids req res now) =
     discard (in_frame (\<lambda>slot. anchor_dispatch A a peer ids req (res\<lparr>rs_rc := slot\<rparr>) now))"

lemma anchor_dispatch_preserves:
  assumes "usable m (KAnchor, an_raw a)" and "(KFrame, rs_rc res) \<in> live m"
  shows "preserves m (anchor_dispatch A a peer ids req res now)"
  unfolding anchor_dispatch_def responder_finish_def by (intro keep_rules assms)

lemma anchor_run_preserves:
  assumes "usable m (KAnchor, an_raw a)"
  shows "preserves m (anchor_run A a op)"
proof (cases op)
  case (AnDispatch peer ids req res now)
  then show ?thesis
    using usable_insert [OF assms]
    by (auto intro!: preserves_discard preserves_in_frame anchor_dispatch_preserves)
qed (use assms in \<open>auto simp: anchor_collect_log_root_def anchor_produce_partial_sig_def intro!: keep_rules\<close>)

definition anchor_fresh ::
  "('c, 'x) trust_api_scheme \<Rightarrow> u8 \<Rightarrow> nat \<Rightarrow> 'c \<Rightarrow> monitor \<Rightarrow> bool" where
  "anchor_fresh A i millis c m \<longleftrightarrow> (\<forall>pk sk bsk bpk.
     fresh_ptr KAnchor (\<lambda>c. case c_anchor_node_create A pk sk bsk bpk (ucast i) (clamp_u64 millis) c of
       (p, c') \<Rightarrow> ((if p = null_ptr then - 1 else 0, p), c')) c m)"

lemma anchor_new_outcome:
  assumes "coherent w m" and "anchor_fresh A i millis (lib w) m"
    and "run_state (anchor_new I A ident bls i millis) w = (r, w')"
  shows "case r of Inl e \<Rightarrow> e = ConfigInvalid \<and> coherent w' m
    | Inr a \<Rightarrow> \<exists>m'. owns_handle KAnchor (an_raw a) m m' \<and> coherent w' m'"
proof -
  define secret where "secret = cell_at w (id_priv ident)"
  define bsk where "bsk = cell_at (w\<lparr>cells := cells w @ [secret]\<rparr>) (bk_secret bls)"
  obtain p c where cr: "c_anchor_node_create A (id_pub ident) secret bsk (bk_public bls) (ucast i)
      (clamp_u64 millis) (lib w) = (p, c)" by (metis prod.collapse)
  have h: "history w' = history w @ (if p = null_ptr then [] else [Acquire KAnchor p])"
    and s: "slots w' = slots w" "next_box w' = next_box w"
    and r: "r = (if p = null_ptr then Inl ConfigInvalid else Inr (AnchorNode p))"
    using assms(3) cr
    by (auto simp: anchor_new_def run_with_raw_keys Let_def secret_def bsk_def bls_secret_def bls_public_key_def
        case_prod_beta split: if_splits)
  show ?thesis
  proof (cases "p = null_ptr")
    case True
    then show ?thesis using r coherent_same [OF assms(1), of w'] h s by simp
  next
    case False
    have f: "(KAnchor, p) \<notin> live m" "regs m (KAnchor, p) = None" "borrows m (KAnchor, p) = None"
      using assms(2) [unfolded anchor_fresh_def, rule_format, of "id_pub ident" secret bsk "bk_public bls"] cr False
      by (simp_all add: fresh_ptr_def)
    let ?m' = "m\<lparr>live := insert (KAnchor, p) (live m)\<rparr>"
    have "coherent w' ?m'" using assms(1) h s False by (auto simp: coherent_def)
    then show ?thesis using r False f by (auto simp: owns_handle_def)
  qed
qed

interpretation anchor_life: owned_handle "anchor_new I A ident bls i millis" "anchor_drop A"
  "\<lambda>a. range (anchor_run A a)" "\<lambda>a. owns_handle KAnchor (an_raw a)" "anchor_fresh A i millis"
  for I :: "'c identity_api" and A :: "('c, 'x) trust_api_scheme" and ident bls i millis
proof (unfold_locales, goal_cases)
  case (1 w m e w')
  then show ?case using anchor_new_outcome by fastforce
next
  case (2 w m a w')
  then show ?case using anchor_new_outcome by fastforce
next
  case (3 a m m' u)
  then show ?case by (auto intro: anchor_run_preserves owns_usable)
next
  case (4 a m m' w)
  then show ?case unfolding anchor_drop_def by (rule owns_release)
qed

lemma produced_sig_length:
  assumes "fst (run_state (anchor_produce_partial_sig A a e r n) v) = Inr p"
  shows "length (ps_sig p) = bls_signature_size"
proof -
  obtain rc i s c where "c_anchor_produce_partial_sig A (an_raw a) e r n (lib v) = ((rc, i, s), c)"
    by (metis prod.collapse)
  then show ?thesis
    using assms by (cases "error_check rc") (auto simp: anchor_produce_partial_sig_def)
qed

lemma requested_sig_length:
  assumes "fst (run_state (request_partial_sig A cl e r n k) v) = Inr p"
  shows "length (ps_sig p) = bls_signature_size"
proof -
  obtain rc i s c where "c_anchor_request_partial_sig A (cl_raw cl) e r n k (lib v) = ((rc, i, s), c)"
    by (metis prod.collapse)
  then show ?thesis
    using assms by (cases "error_check rc") (auto simp: request_partial_sig_def)
qed

definition sample_trust_api :: "'c trust_api" where
  "sample_trust_api = \<lparr>
     c_bls_keygen = (\<lambda>c. ((0, replicate 32 7, replicate 48 8), c)),
     c_bls_sign = (\<lambda>sk msg. (0, sk @ msg)),
     c_bls_verify = (\<lambda>s p m. 0),
     c_bls_aggregate = (\<lambda>s n. (0, take 96 s)),
     c_bls_verify_aggregate = (\<lambda>s p n m. if n = 1 then 0 else - 1),
     c_checkpoint_decode = (\<lambda>bs c. ((0, 70), c)),
     c_checkpoint_staleness = (\<lambda>p n c. 1),
     c_checkpoint_free = (\<lambda>p c. c),
     c_genesis_checkpoint_create = (\<lambda>sks pks ids n t buf c. ((0, if buf = None then [] else pks @ ids, length (pks @ ids)), c)),
     c_anchor_node_create = (\<lambda>pk sk b p i m c. (80, c)),
     c_anchor_collect_log_root = (\<lambda>p e r n l c. (0, c)),
     c_anchor_produce_partial_sig = (\<lambda>p e r n c. ((0, 1, [4]), c)),
     c_anchor_dispatch = (\<lambda>p r ids n msg buf now c. (1, c)),
     c_anchor_request_partial_sig = (\<lambda>p e r n k c. ((0, 2, [5]), c)),
     c_anchor_node_free = (\<lambda>p c. c),
     c_anchor_finish_checkpoint = (\<lambda>e r n ids sigs k keys kn buf c. ((0, if buf = None then [] else ids @ sigs, length (ids @ sigs)), c)),
     c_trust_store_create = (\<lambda>c. (90, c)),
     c_trust_store_load_genesis_anchors = (\<lambda>p k n c. (0, c)),
     c_trust_store_update_checkpoint = (\<lambda>p cp n c. (7, c)),
     c_checkpoint_verify = (\<lambda>p cp n c. 0),
     c_trust_store_observe_log_size = (\<lambda>p n c. (0, c)),
     c_trust_store_max_log_size = (\<lambda>p c. 3),
     c_trust_store_save = (\<lambda>p buf c. ((0, if buf = None then [] else [1], 1), c)),
     c_trust_store_load = (\<lambda>p bs c. (0, c)),
     c_trust_store_verify_key = (\<lambda>p q n k t c. (2, c)),
     c_trust_store_verify_key_binding = (\<lambda>p n k b t c. 0),
     c_trust_store_apply_anchor_change = (\<lambda>p e n c. (0, c)),
     c_trust_store_evaluate_key_rotation = (\<lambda>e p n. 0),
     c_trust_store_free = (\<lambda>p c. c),
     c_trust_version = [49]\<rparr>"

section \<open>Properties\<close>

text \<open>
  C10. The genesis ceremony hands the library the founders' keys in order and forgets them: on every
  path (bad threshold, failed sizing, failed signing, success) the buffer with the founding secrets is
  zero at the end and every founder's own key is as it was; and for founders with keys of the fixed
  sizes and a threshold between 1 and their number, the result is what the library makes of the
  secrets, the public keys and the indices, each concatenated in the founders' order, whenever its producer
  follows the sizing contract.
\<close>

theorem genesis_packs_and_wipes:
  assumes "wipes I"
  shows "residue w (snd (run_state (genesis_checkpoint I A founders threshold) w)) = {} \<and>
    keeps w (snd (run_state (genesis_checkpoint I A founders threshold) w)) \<and>
    (threshold = 0 \<or> length founders < threshold \<longrightarrow>
      run_state (genesis_checkpoint I A founders threshold) w = (Inl ConfigInvalid, w)) \<and>
    ((\<forall>f \<in> set founders. founder_ok w f) \<longrightarrow> 0 < threshold \<longrightarrow> threshold \<le> length founders \<longrightarrow>
      sized (c_genesis_checkpoint_create A (concat (map (founder_secret w) founders))
        (concat (map (bk_public \<circ> fst) founders)) (map snd founders) (length founders) threshold) (lib w) out \<longrightarrow>
      fst (run_state (genesis_checkpoint I A founders threshold) w) = Inr out)"
proof (cases "founders = [] \<or> threshold = 0 \<or> length founders < threshold")
  case True
  then have "run_state (genesis_checkpoint I A founders threshold) w = (Inl ConfigInvalid, w)"
    by (simp add: genesis_checkpoint_def)
  with True show ?thesis by (auto simp: residue_def)
next
  case False
  then obtain buf pks ids where b: "run_state (pack_founders (length (cells w)) 0 founders
      (zeros (length founders * bls_pubkey_size)) (zeros (length founders)))
      (w\<lparr>cells := cells w @ [zeros (length founders * bls_seckey_size)]\<rparr>) =
      ((pks, ids), w\<lparr>cells := cells w @ [buf]\<rparr>)"
    and r: "fst (run_state (genesis_checkpoint I A founders threshold) w) =
      fst (run_state (two_call (c_genesis_checkpoint_create A buf pks ids (length founders) threshold))
        (w\<lparr>cells := cells w @ [buf]\<rparr>))"
    and c: "cells (snd (run_state (genesis_checkpoint I A founders threshold) w)) = cells w @ [c_zeroize I buf]"
    using run_genesis [of founders threshold w I A thesis] by (metis linorder_not_less neq0_conv)
  have "residue w (snd (run_state (genesis_checkpoint I A founders threshold) w)) = {}"
    and "keeps w (snd (run_state (genesis_checkpoint I A founders threshold) w))"
    using assms by (auto simp: residue_def keeps_def cell_at_def c nth_append less_Suc_eq)
  moreover have "fst (run_state (genesis_checkpoint I A founders threshold) w) = Inr out"
    if "\<forall>f \<in> set founders. founder_ok w f"
      and "sized (c_genesis_checkpoint_create A (concat (map (founder_secret w) founders))
        (concat (map (bk_public \<circ> fst) founders)) (map snd founders) (length founders) threshold) (lib w) out"
  proof -
    have "cells w @ [buf] = cells w @ [concat (map (founder_secret w) founders)]"
      and "pks = concat (map (bk_public \<circ> fst) founders)" and "ids = map snd founders"
      using b genesis_buffers [OF that(1)] by (auto dest: arg_cong [where f = cells])
    then show ?thesis using that(2) r by (simp add: two_call_sized)
  qed
  ultimately show ?thesis using False by blast
qed

theorem genesis_packs_and_wipes_witness:
  "fst (run_state (genesis_checkpoint sample_identity_api sample_trust_api
      [(\<lparr>bk_secret = 0, bk_public = replicate 48 1\<rparr>, 1), (\<lparr>bk_secret = 1, bk_public = replicate 48 2\<rparr>, 2)] 2)
      ((world_init ())\<lparr>cells := [replicate 32 5, replicate 32 6]\<rparr>)) =
    Inr (replicate 48 1 @ replicate 48 2 @ [1, 2])"
proof -
  let ?fs = "[(\<lparr>bk_secret = 0, bk_public = replicate 48 1\<rparr>, 1), (\<lparr>bk_secret = 1, bk_public = replicate 48 2\<rparr>, 2)]"
  let ?w = "(world_init ())\<lparr>cells := [replicate 32 5, replicate 32 6]\<rparr>"
  have ok: "\<forall>f \<in> set ?fs. founder_ok ?w f"
    by (simp add: founder_ok_def bls_seckey_size_def bls_pubkey_size_def)
  have s: "sized (c_genesis_checkpoint_create sample_trust_api (concat (map (founder_secret ?w) ?fs))
      (concat (map (bk_public \<circ> fst) ?fs)) (map snd ?fs) (length ?fs) 2) (lib ?w)
      (replicate 48 1 @ replicate 48 2 @ [1, 2])"
    by (simp add: sized_def sample_trust_api_def)
  show ?thesis
    using genesis_packs_and_wipes [OF sample_wipes, of ?w sample_trust_api ?fs 2 "replicate 48 1 @ replicate 48 2 @ [1, 2]"]
      ok s by simp
qed

text \<open>
  C19. A quorum's partials become the checkpoint the library makes of them: every partial signature an
  anchor produces or a peer returns is 96 bytes long with the library's index, and
  \<^verbatim>\<open>finish_checkpoint\<close> hands the library the indices and the signatures side by side, so that the
  signature at position \<open>i\<close> of the packed buffer belongs to the index at position \<open>i\<close>; without partials or
  without anchor keys it refuses before any call.
\<close>

theorem quorum_checkpoint_assembled:
  assumes "\<And>p. p \<in> set partials \<Longrightarrow>
      (\<exists>v a e r n. fst (run_state (anchor_produce_partial_sig A a e r n) v) = Inr p) \<or>
      (\<exists>v cl e r n k. fst (run_state (request_partial_sig A (cl :: 'c client) e r n k) v) = Inr p)"
  shows "chunks bls_signature_size (concat (map ps_sig partials)) = map ps_sig partials \<and>
    (partials = [] \<or> keys = [] \<longrightarrow>
      run_state (finish_checkpoint A epoch root log_size partials keys) w = (Inl ConfigInvalid, w)) \<and>
    (partials \<noteq> [] \<longrightarrow> keys \<noteq> [] \<longrightarrow>
      sized (c_anchor_finish_checkpoint A epoch root log_size (map ps_index partials)
        (concat (map ps_sig partials)) (length partials) (concat keys) (length keys)) (lib w) out \<longrightarrow>
      fst (run_state (finish_checkpoint A epoch root log_size partials keys) w) = Inr out)"
proof -
  have "length (ps_sig p) = bls_signature_size" if "p \<in> set partials" for p
    using assms [OF that] produced_sig_length requested_sig_length by metis
  then have "chunks bls_signature_size (concat (map ps_sig partials)) = map ps_sig partials"
    by (intro chunks_concat) (auto simp: bls_signature_size_def)
  then show ?thesis
    by (simp add: finish_checkpoint_def gather_partials_all two_call_sized)
qed

theorem quorum_checkpoint_assembled_witness:
  "fst (run_state (finish_checkpoint sample_trust_api 7 [1] 9
     [\<lparr>ps_index = 1, ps_sig = 4 # zeros 95\<rparr>, \<lparr>ps_index = 2, ps_sig = 5 # zeros 95\<rparr>] [[3]]) (world_init ())) =
   Inr ([1, 2, 4] @ zeros 95 @ [5] @ zeros 95)"
proof -
  let ?ps = "[\<lparr>ps_index = 1, ps_sig = 4 # zeros 95\<rparr>, \<lparr>ps_index = 2, ps_sig = 5 # zeros 95\<rparr>]"
  have z: "overwrite [b] (zeros 96) = b # zeros 95" for b
    by (simp add: overwrite_def zeros_def)
  have a: "fst (run_state (anchor_produce_partial_sig sample_trust_api (AnchorNode 80) 7 [1] 9) (world_init ())) =
      Inr \<lparr>ps_index = 1, ps_sig = 4 # zeros 95\<rparr>"
    by (simp add: anchor_produce_partial_sig_def sample_trust_api_def error_check_def bls_signature_size_def z)
  have b: "fst (run_state (request_partial_sig sample_trust_api (client_wrap 5) 7 [1] 9 [3]) (world_init ())) =
      Inr \<lparr>ps_index = 2, ps_sig = 5 # zeros 95\<rparr>"
    by (simp add: request_partial_sig_def sample_trust_api_def error_check_def bls_signature_size_def z)
  have p: "(\<exists>v a e r n. fst (run_state (anchor_produce_partial_sig (sample_trust_api :: unit trust_api) a e r n) v) = Inr p) \<or>
      (\<exists>v cl e r n k. fst (run_state (request_partial_sig sample_trust_api (cl :: unit client) e r n k) v) = Inr p)"
    if "p \<in> set ?ps" for p
    using that a b by auto
  have s: "sized (c_anchor_finish_checkpoint sample_trust_api 7 [1] 9 (map ps_index ?ps)
        (concat (map ps_sig ?ps)) (length ?ps) (concat [[3]]) (length [[3 :: u8]])) (lib (world_init ()))
      ([1, 2, 4] @ zeros 95 @ [5] @ zeros 95)"
    by (simp add: sized_def sample_trust_api_def)
  show ?thesis
    using quorum_checkpoint_assembled [where partials = ?ps and keys = "[[3]]" and epoch = 7 and root = "[1]"
        and log_size = 9 and w = "world_init ()" and A = sample_trust_api, OF p] s by simp
qed

text \<open>
  C21. Trust answers fail safe. A key is reported current or revoked only on the library's codes 0 and
  1 and is an error on every other one, positive ones included; a checkpoint is fresh only on the
  band 0, and a band outside the table reads as stale, both when a store installs it and when it is
  inspected; an aggregate over no signers never verifies and no signatures never aggregate.
\<close>

theorem trust_fails_safe:
  assumes "c_trust_store_verify_key A (ts_raw s) (cl_raw cl) (node_id_raw n) commitment now (lib w) = (rc, c)"
    and "c_trust_store_update_checkpoint A (ts_raw s) cp now (lib w) = (band, c')"
  defines "verdict \<equiv> fst (run_state (store_verify_key A s cl n commitment now) w)"
  shows "(verdict = Inr KeyNotRevoked \<longleftrightarrow> rc = 0) \<and> (verdict = Inr KeyRevoked \<longleftrightarrow> rc = 1) \<and>
    (rc \<noteq> 0 \<longrightarrow> rc \<noteq> 1 \<longrightarrow> verdict = Inl (error_from_code rc)) \<and>
    fst (run_state (store_update_checkpoint A s cp now) w) =
      (if band < 0 then Inl (error_from_code band)
       else Inr (if band = 0 then CpFresh else if band = 1 then CpWarning else CpStale)) \<and>
    (fst (run_state (checkpoint_staleness A k now) w) = Inr CpFresh \<longleftrightarrow>
      c_checkpoint_staleness A (cp_raw k) now (lib w) = 0) \<and>
    \<not> bls_verify_aggregate A agg [] msg \<and> bls_aggregate A [] = Inl ConfigInvalid \<and>
    (bls_verify_aggregate A agg keys msg \<longleftrightarrow>
      keys \<noteq> [] \<and> c_bls_verify_aggregate A (bls_bytes agg) (concat keys) (length keys) msg = 0)"
  using assms(1,2) unfolding verdict_def
  by (simp add: store_verify_key_def store_update_checkpoint_def checkpoint_staleness_def
      checkpoint_status_from_code_def bls_verify_aggregate_def bls_aggregate_def)

theorem trust_fails_safe_witness:
  "fst (run_state (store_verify_key sample_trust_api (TrustStore 90) (client_wrap 5) (NodeId [1]) None 4)
      (world_init ())) = Inl (error_from_code 2) \<and>
   fst (run_state (store_update_checkpoint sample_trust_api (TrustStore 90) [1] 4) (world_init ())) = Inr CpStale"
proof -
  have k: "c_trust_store_verify_key sample_trust_api (ts_raw (TrustStore 90)) (cl_raw (client_wrap 5 :: unit client))
      (node_id_raw (NodeId [1])) None 4 (lib (world_init ())) = (2, ())"
    and b: "c_trust_store_update_checkpoint sample_trust_api (ts_raw (TrustStore 90)) [1] 4 (lib (world_init ())) = (7, ())"
    by (simp_all add: sample_trust_api_def)
  show ?thesis
    using trust_fails_safe [OF k b] by simp
qed

text \<open>
  The handles of the trust layer are freed once: a store, a decoded checkpoint and an anchor node,
  each opened, used any number of times (an anchor also to answer requests inside a handler's frame) and
  dropped, leave the monitor where it was; a constructor that fails leaves nothing; and making an anchor
  wipes the identity key it borrows.
\<close>

lemma trust_handles_clean:
  assumes "coherent w m" and "fresh_ptr KTrustStore (store_create_status A) (lib w) m"
    and "fresh_ptr KCheckpoint (c_checkpoint_decode A bs) (lib w) m"
    and "anchor_fresh A i millis (lib w) m" and "wipes I"
  shows "coherent (snd (run_state (lifecycle (store_new A) (store_drop A) (\<lambda>s. map (store_run A s) sops)) w)) m \<and>
    coherent (snd (run_state (lifecycle (checkpoint_decode A bs) (checkpoint_drop A)
      (\<lambda>cp. map (\<lambda>now. discard (checkpoint_staleness A cp now)) nows)) w)) m \<and>
    coherent (snd (run_state (lifecycle (anchor_new I A ident bls i millis) (anchor_drop A)
      (\<lambda>a. map (anchor_run A a) aops)) w)) m \<and>
    residue w (snd (run_state (anchor_new I A ident bls i millis) w)) = {}"
proof -
  have "coherent (snd (run_state (lifecycle (store_new A) (store_drop A) (\<lambda>s. map (store_run A s) sops)) w)) m"
    unfolding store_new_opened store_drop_def
    by (rule store_handle.owned.lifecycle_clean [OF assms(1,2)]) auto
  moreover have "coherent (snd (run_state (lifecycle (checkpoint_decode A bs) (checkpoint_drop A)
      (\<lambda>cp. map (\<lambda>now. discard (checkpoint_staleness A cp now)) nows)) w)) m"
    unfolding checkpoint_decode_def checkpoint_drop_def
    by (rule checkpoint_handle.owned.lifecycle_clean [OF assms(1,3)]) auto
  moreover have "coherent (snd (run_state (lifecycle (anchor_new I A ident bls i millis) (anchor_drop A)
      (\<lambda>a. map (anchor_run A a) aops)) w)) m"
    by (rule anchor_life.lifecycle_clean [OF assms(1,4)]) auto
  moreover have "residue w (snd (run_state (anchor_new I A ident bls i millis) w)) = {}"
  proof -
    let ?f = "\<lambda>pk sk. do {
       bsk \<leftarrow> bls_secret bls;
       call (c_anchor_node_create A pk sk bsk (bls_public_key bls) (ucast i) (clamp_u64 millis))
     }"
    have "lends_safely (?f pk sk)" for pk sk
      by (rule lends_safely_cells) (simp add: bls_secret_def)
    then have "residue w (snd (run_state (with_raw_keys I ident ?f) w)) = {}"
      using with_raw_keys_residue [where f = ?f and w = w and ident = ident, OF assms(5)] by simp
    then show ?thesis
      by (simp add: anchor_new_def Let_def residue_def case_prod_beta)
  qed
  ultimately show ?thesis by blast
qed

text \<open>
  C40. Generating a BLS keypair leaves one copy too many: the keypair owns the secret the library made, and
  dropping it wipes that copy, but the local array the library wrote is copied into the keypair and not
  wiped, so the secret survives the drop in the generator's own buffer (and, when generation fails,
  whatever the library had written stays there too).
\<close>

theorem bls_secret_outlives_drop:
  assumes "wipes I" and "c_bls_keygen A (lib w) = ((rc, sk, pk), c)" and "length sk = bls_seckey_size"
    and "0 \<le> rc" and "b \<in> set sk" and "b \<noteq> 0"
    and "run_state (bls_generate A) w = (Inr kp, w1)"
  shows "cell_at w1 (bk_secret kp) = sk \<and>
    cell_at (snd (run_state (bls_drop I kp) w1)) (bk_secret kp) = zeros bls_seckey_size \<and>
    residue w (snd (run_state (bls_drop I kp) w1)) = {length (cells w)} \<and>
    cell_at (snd (run_state (bls_drop I kp) w1)) (length (cells w)) = sk"
proof -
  have sk: "overwrite sk (zeros bls_seckey_size) = sk" using assms(3) by (simp add: overwrite_full)
  have ok: "error_check rc = Inr ()" using assms(4) by simp
  have kp: "bk_secret kp = Suc (length (cells w))" and w1: "cells w1 = cells w @ [sk, sk]"
    using assms(2,7) ok by (auto simp: bls_generate_def sk nth_append)
  have "cells (snd (run_state (bls_drop I kp) w1)) = cells w @ [sk, zeros bls_seckey_size]"
    using assms(1,3) by (simp add: bls_drop_def kp w1 cell_at_def nth_append list_update_append)
  then show ?thesis
    using assms(5,6) by (auto simp: cell_at_def kp w1 nth_append residue_def less_Suc_eq)
qed

theorem bls_secret_outlives_drop_witness:
  "\<exists>kp w1. run_state (bls_generate sample_trust_api) (world_init ()) = (Inr kp, w1) \<and>
    residue (world_init ()) (snd (run_state (bls_drop sample_identity_api kp) w1)) = {0}"
proof -
  obtain kp w1 where g: "run_state (bls_generate sample_trust_api) (world_init ()) = (Inr kp, w1)"
    by (simp add: bls_generate_def sample_trust_api_def)
  have k: "c_bls_keygen sample_trust_api (lib (world_init ())) = ((0, replicate 32 7, replicate 48 8), ())"
    by (simp add: sample_trust_api_def)
  have "residue (world_init ()) (snd (run_state (bls_drop sample_identity_api kp) w1)) = {length (cells (world_init ()))}"
    using bls_secret_outlives_drop [OF sample_wipes k _ _ _ _ g, of 7]
    by (simp add: bls_seckey_size_def)
  then show ?thesis using g by (simp add: world_init_def)
qed

end
