(* ===== verification/Poll.thy ===== *)
theory Poll
  imports Boundary
begin

text \<open>
  \<^verbatim>\<open>nwep/src/poll.rs\<close>: the waker a caller signals to end the owner loop's sleep, on unix an eventfd and on
  Windows a loopback socket connected to itself, and the arguments of the readiness wait. The operating
  system is a parameter; what the code opens and closes of it is a log, judged by \<open>sock_run\<close>.
\<close>

section \<open>Wake and drain\<close>

text \<open>
  A waker object as the code uses it: \<^verbatim>\<open>write\<close> or \<^verbatim>\<open>send\<close> to signal, \<^verbatim>\<open>read\<close> or \<^verbatim>\<open>recv\<close> to take, and how much is
  there to take. It is readable when there is anything.
\<close>

record 'e waker_api =
  wk_write :: "'e \<Rightarrow> 'e"
  wk_read :: "'e \<Rightarrow> int \<times> 'e"
  wk_level :: "'e \<Rightarrow> nat"

definition wk_ready :: "'e waker_api \<Rightarrow> 'e \<Rightarrow> bool" where
  "wk_ready E e \<longleftrightarrow> 0 < wk_level E e"

definition waker_wake :: "'e waker_api \<Rightarrow> 'e \<Rightarrow> 'e" where
  "waker_wake E e = wk_write E e"

text \<open>\<^verbatim>\<open>while read(..) > 0 {}\<close>: whether it ends is up to the object.\<close>

partial_function (option) waker_drain :: "'e waker_api \<Rightarrow> 'e \<Rightarrow> 'e option" where
  "waker_drain E e = (case wk_read E e of (n, e') \<Rightarrow> if 0 < n then waker_drain E e' else Some e')"

text \<open>
  The documented behaviour both share: a signal makes it readable, a read of a readable object takes
  something, and a read of an empty one fails without blocking and changes nothing.
\<close>

definition waker_contract :: "'e waker_api \<Rightarrow> bool" where
  "waker_contract E \<longleftrightarrow> (\<forall>e. wk_ready E (wk_write E e)) \<and>
     (\<forall>e. wk_ready E e \<longrightarrow> 0 < fst (wk_read E e) \<and> wk_level E (snd (wk_read E e)) < wk_level E e) \<and>
     (\<forall>e. \<not> wk_ready E e \<longrightarrow> fst (wk_read E e) \<le> 0 \<and> snd (wk_read E e) = e)"

lemma waker_drain_empties:
  assumes "waker_contract E"
  shows "\<exists>e'. waker_drain E e = Some e' \<and> \<not> wk_ready E e'"
proof (induction "wk_level E e" arbitrary: e rule: less_induct)
  case less
  obtain n e1 where r: "wk_read E e = (n, e1)" by (metis prod.collapse)
  show ?case
  proof (cases "wk_ready E e")
    case True
    then have "0 < n" and "wk_level E e1 < wk_level E e"
      using assms r unfolding waker_contract_def by (metis fst_conv snd_conv)+
    then show ?thesis using less r by (simp add: waker_drain.simps [of E e])
  next
    case False
    then have "n \<le> 0" and "e1 = e"
      using assms r unfolding waker_contract_def by (metis fst_conv snd_conv)+
    then show ?thesis using False r by (simp add: waker_drain.simps [of E e])
  qed
qed

lemma waker_drain_total:
  assumes "waker_contract E"
  obtains e' where "waker_drain E e = Some e'" and "\<not> wk_ready E e'"
  using waker_drain_empties [OF assms] by blast

text \<open>A kernel eventfd: its counter, taken whole.\<close>

definition counter_eventfd :: "nat waker_api" where
  "counter_eventfd = \<lparr>wk_write = Suc, wk_read = (\<lambda>n. if n = 0 then (-1, 0) else (8, 0)), wk_level = id\<rparr>"

text \<open>The loopback socket: one datagram of one byte per signal, dropped when \<open>room\<close> of them are queued.\<close>

definition datagram_socket :: "nat \<Rightarrow> nat waker_api" where
  "datagram_socket room = \<lparr>wk_write = (\<lambda>n. if n < room then Suc n else n),
     wk_read = (\<lambda>n. if n = 0 then (-1, 0) else (1, n - 1)), wk_level = id\<rparr>"

lemma counter_eventfd_contract: "waker_contract counter_eventfd"
  by (simp add: waker_contract_def wk_ready_def counter_eventfd_def)

lemma datagram_socket_contract: "0 < room \<Longrightarrow> waker_contract (datagram_socket room)"
  by (simp add: waker_contract_def wk_ready_def datagram_socket_def)

section \<open>Opening and closing\<close>

text \<open>What the code does with a socket or descriptor, and the judge of a log of it.\<close>

datatype 'h sock_event = Opened 'h | Touched 'h | Closed 'h

fun sock_step :: "'h sock_event \<Rightarrow> 'h set \<Rightarrow> 'h set option" where
  "sock_step (Opened s) S = (if s \<in> S then None else Some (insert s S))"
| "sock_step (Touched s) S = (if s \<in> S then Some S else None)"
| "sock_step (Closed s) S = (if s \<in> S then Some (S - {s}) else None)"

fun sock_run :: "'h sock_event list \<Rightarrow> 'h set \<Rightarrow> 'h set option" where
  "sock_run [] S = Some S"
| "sock_run (e # es) S = (case sock_step e S of None \<Rightarrow> None | Some S' \<Rightarrow> sock_run es S')"

lemma sock_run_append [simp]:
  "sock_run (es @ fs) S = (case sock_run es S of None \<Rightarrow> None | Some S' \<Rightarrow> sock_run fs S')"
  by (induction es arbitrary: S) (auto split: option.split)

record ('o, 'h) sys =
  sy_os :: 'o
  sy_started :: bool
  sy_log :: "'h sock_event list"

type_synonym ('o, 'h, 'a) sysio = "(('o, 'h) sys, 'a) state"

definition os_call :: "('o \<Rightarrow> 'a \<times> 'o) \<Rightarrow> ('o, 'h, 'a) sysio" where
  "os_call f = State (\<lambda>w. case f (sy_os w) of (r, o') \<Rightarrow> (r, w\<lparr>sy_os := o'\<rparr>))"

definition sock_note :: "'h sock_event \<Rightarrow> ('o, 'h, unit) sysio" where
  "sock_note e = State (\<lambda>w. ((), w\<lparr>sy_log := sy_log w @ [e]\<rparr>))"

lemma run_os_call [simp]:
  "run_state (os_call f) w = (fst (f (sy_os w)), w\<lparr>sy_os := snd (f (sy_os w))\<rparr>)"
  by (simp add: os_call_def case_prod_beta)

lemma run_sock_note [simp]: "run_state (sock_note e) w = ((), w\<lparr>sy_log := sy_log w @ [e]\<rparr>)"
  by (simp add: sock_note_def)

subsection \<open>Unix\<close>

record 'o unix_api =
  u_eventfd :: "'o \<Rightarrow> int \<times> 'o"
  u_last_error :: "'o \<Rightarrow> int \<times> 'o"
  u_close :: "int \<Rightarrow> 'o \<Rightarrow> unit \<times> 'o"

definition unix_waker_new :: "'o unix_api \<Rightarrow> ('o, int, int + int) sysio" where
  "unix_waker_new U = do {
     fd \<leftarrow> os_call (u_eventfd U);
     (if fd < 0 then do { e \<leftarrow> os_call (u_last_error U); State_Monad.return (Inl e) }
      else do { sock_note (Opened fd); State_Monad.return (Inr fd) })
   }"

definition unix_waker_drop :: "'o unix_api \<Rightarrow> int \<Rightarrow> ('o, int, unit) sysio" where
  "unix_waker_drop U fd = do { sock_note (Closed fd); os_call (u_close U fd) }"

text \<open>The poll set and the timeout handed to \<^verbatim>\<open>poll\<close>, a \<^verbatim>\<open>c_int\<close>.\<close>

definition pollin :: int where
  "pollin = 1"

definition unix_wait_readable :: "int \<Rightarrow> u32 \<Rightarrow> (int \<times> int) list \<times> int" where
  "unix_wait_readable fd timeout_ms = ([(fd, pollin)], as_c_int (uint timeout_ms))"

definition unix_wait_readable2 :: "int \<Rightarrow> int \<Rightarrow> u32 \<Rightarrow> (int \<times> int) list \<times> int" where
  "unix_wait_readable2 a b timeout_ms = ([(a, pollin), (b, pollin)], as_c_int (uint timeout_ms))"

definition unix_waker_raw :: "int \<Rightarrow> int" where
  "unix_waker_raw fd = fd"

subsection \<open>Windows\<close>

record sockaddr_in =
  sa_family :: u16
  sa_port :: u16
  sa_addr :: bytes

definition invalid_socket :: u64 where
  "invalid_socket = -1"

record 'o win_api =
  w_startup :: "u16 \<Rightarrow> 'o \<Rightarrow> unit \<times> 'o"
  w_socket :: "'o \<Rightarrow> u64 \<times> 'o"
  w_bind :: "u64 \<Rightarrow> sockaddr_in \<Rightarrow> 'o \<Rightarrow> int \<times> 'o"
  w_getsockname :: "u64 \<Rightarrow> sockaddr_in \<Rightarrow> 'o \<Rightarrow> (int \<times> sockaddr_in) \<times> 'o"
  w_connect :: "u64 \<Rightarrow> sockaddr_in \<Rightarrow> 'o \<Rightarrow> int \<times> 'o"
  w_set_nonblocking :: "u64 \<Rightarrow> 'o \<Rightarrow> int \<times> 'o"
  w_last_error :: "'o \<Rightarrow> int \<times> 'o"
  w_closesocket :: "u64 \<Rightarrow> 'o \<Rightarrow> int \<times> 'o"

definition winsock_version :: u16 where
  "winsock_version = 0x0202"

text \<open>\<^verbatim>\<open>Once::call_once\<close>.\<close>

definition ensure_winsock :: "'o win_api \<Rightarrow> ('o, u64, unit) sysio" where
  "ensure_winsock W = State (\<lambda>w. if sy_started w then ((), w)
     else ((), w\<lparr>sy_started := True, sy_os := snd (w_startup W winsock_version (sy_os w))\<rparr>))"

definition loopback_any_port :: sockaddr_in where
  "loopback_any_port = \<lparr>sa_family = 2, sa_port = 0, sa_addr = [127, 0, 0, 1]\<rparr>"

definition win_close :: "'o win_api \<Rightarrow> u64 \<Rightarrow> ('o, u64, unit) sysio" where
  "win_close W s = do {
     sock_note (Closed s);
     _ \<leftarrow> os_call (w_closesocket W s);
     State_Monad.return ()
   }"

text \<open>An early return: the error is read before the socket is closed.\<close>

definition win_fail :: "'o win_api \<Rightarrow> u64 \<Rightarrow> ('o, u64, int + u64) sysio" where
  "win_fail W s = do {
     e \<leftarrow> os_call (w_last_error W);
     win_close W s;
     State_Monad.return (Inl e)
   }"

definition win_waker_new :: "'o win_api \<Rightarrow> ('o, u64, int + u64) sysio" where
  "win_waker_new W = do {
     ensure_winsock W;
     s \<leftarrow> os_call (w_socket W);
     (if s = invalid_socket then do { e \<leftarrow> os_call (w_last_error W); State_Monad.return (Inl e) }
      else do {
        sock_note (Opened s);
        sock_note (Touched s);
        bound \<leftarrow> os_call (w_bind W s loopback_any_port);
        (if bound \<noteq> 0 then win_fail W s
         else do {
           sock_note (Touched s);
           (named, addr) \<leftarrow> os_call (w_getsockname W s loopback_any_port);
           failed \<leftarrow> (if named \<noteq> 0 then State_Monad.return True
             else do {
               sock_note (Touched s);
               connected \<leftarrow> os_call (w_connect W s addr);
               State_Monad.return (connected \<noteq> 0)
             });
           (if failed then win_fail W s
            else do {
              sock_note (Touched s);
              _ \<leftarrow> os_call (w_set_nonblocking W s);
              State_Monad.return (Inr s)
            })
         })
      })
   }"

definition win_waker_drop :: "'o win_api \<Rightarrow> u64 \<Rightarrow> ('o, u64, unit) sysio" where
  "win_waker_drop W s = win_close W s"

text \<open>The raw socket of a waker and the poll set of \<^verbatim>\<open>WSAPoll\<close>; the sockets are 64-bit handles.\<close>

definition win_waker_raw :: "u64 \<Rightarrow> u64" where
  "win_waker_raw s = s"

definition pollrdnorm :: int where
  "pollrdnorm = 0x0100"

definition win_wait_readable :: "u64 \<Rightarrow> u32 \<Rightarrow> (u64 \<times> int) list \<times> int" where
  "win_wait_readable fd timeout_ms = ([(fd, pollrdnorm)], as_c_int (uint timeout_ms))"

definition win_wait_readable2 :: "u64 \<Rightarrow> u64 \<Rightarrow> u32 \<Rightarrow> (u64 \<times> int) list \<times> int" where
  "win_wait_readable2 a b timeout_ms = ([(a, pollrdnorm), (b, pollrdnorm)], as_c_int (uint timeout_ms))"

section \<open>Properties\<close>

text \<open>
  C25. Making a waker leaks no descriptor: on every path, an eventfd that cannot be made, a socket that cannot be
  made, bound, named or connected, and success, each call is on an open socket; a failure leaves exactly
  the descriptors that were open before, a success one more, which the drop closes.
\<close>

theorem wakers_leak_nothing:
  assumes "sock_run (sy_log w) {} = Some S" and "fst (w_socket W (sy_os (snd (run_state (ensure_winsock W) w)))) \<notin> S"
    and "sock_run (sy_log u) {} = Some F" and "fst (u_eventfd U (sy_os u)) \<notin> F"
  shows "(case run_state (win_waker_new W) w of
        (Inl e, w') \<Rightarrow> sock_run (sy_log w') {} = Some S
      | (Inr s, w') \<Rightarrow> sock_run (sy_log w') {} = Some (insert s S) \<and> s \<noteq> invalid_socket \<and>
          sock_run (sy_log (snd (run_state (win_waker_drop W s) w'))) {} = Some S) \<and>
    (case run_state (unix_waker_new U) u of
        (Inl e, u') \<Rightarrow> sock_run (sy_log u') {} = Some F
      | (Inr fd, u') \<Rightarrow> sock_run (sy_log u') {} = Some (insert fd F) \<and> 0 \<le> fd \<and>
          sock_run (sy_log (snd (run_state (unix_waker_drop U fd) u'))) {} = Some F)"
proof -
  have l: "sy_log (snd (run_state (ensure_winsock W) w)) = sy_log w"
    by (simp add: ensure_winsock_def)
  show ?thesis
    using assms l
    by (auto simp: win_waker_new_def win_fail_def win_close_def win_waker_drop_def unix_waker_new_def
        unix_waker_drop_def case_prod_beta)
qed

text \<open>An operating system whose sockets cannot be bound, with error 10048.\<close>

definition sample_win_api :: "unit win_api" where
  "sample_win_api = \<lparr>w_startup = (\<lambda>v c. ((), c)), w_socket = (\<lambda>c. (3, c)), w_bind = (\<lambda>s a c. (-1, c)),
     w_getsockname = (\<lambda>s a c. ((0, a\<lparr>sa_port := 9\<rparr>), c)), w_connect = (\<lambda>s a c. (0, c)),
     w_set_nonblocking = (\<lambda>s c. (0, c)), w_last_error = (\<lambda>c. (10048, c)), w_closesocket = (\<lambda>s c. (0, c))\<rparr>"

definition sample_unix_api :: "unit unix_api" where
  "sample_unix_api = \<lparr>u_eventfd = (\<lambda>c. (4, c)), u_last_error = (\<lambda>c. (24, c)), u_close = (\<lambda>fd c. ((), c))\<rparr>"

theorem wakers_leak_nothing_witness:
  "(case run_state (win_waker_new sample_win_api) \<lparr>sy_os = (), sy_started = False, sy_log = [Opened 1]\<rparr> of
      (r, w') \<Rightarrow> r = Inl 10048 \<and> sock_run (sy_log w') {} = Some {1}) \<and>
   (case run_state (unix_waker_new sample_unix_api) \<lparr>sy_os = (), sy_started = False, sy_log = [Opened 1]\<rparr> of
      (r, u') \<Rightarrow> r = Inr 4 \<and> sock_run (sy_log u') {} = Some {4, 1})"
proof -
  let ?w = "\<lparr>sy_os = (), sy_started = False, sy_log = [Opened (1 :: u64)]\<rparr>"
  let ?u = "\<lparr>sy_os = (), sy_started = False, sy_log = [Opened (1 :: int)]\<rparr>"
  have e: "fst (run_state (win_waker_new sample_win_api) ?w) = Inl 10048"
    "fst (run_state (unix_waker_new sample_unix_api) ?u) = Inr 4"
    by (simp_all add: win_waker_new_def ensure_winsock_def win_fail_def win_close_def unix_waker_new_def
        sample_win_api_def sample_unix_api_def invalid_socket_def)
  have "sock_run (sy_log ?w) {} = Some {1}"
    and "fst (w_socket sample_win_api (sy_os (snd (run_state (ensure_winsock sample_win_api) ?w)))) \<notin> {1}"
    and "sock_run (sy_log ?u) {} = Some {1}" and "fst (u_eventfd sample_unix_api (sy_os ?u)) \<notin> {1}"
    by (simp_all add: sample_win_api_def sample_unix_api_def)
  from wakers_leak_nothing [OF this] e show ?thesis by (auto split: prod.splits)
qed

end
