(* ===== verification/RuntimeClient.thy ===== *)
theory RuntimeClient
  imports ClientLife Poll
begin

text \<open>
  The managed client of \<^verbatim>\<open>nwep/src/runtime.rs\<close>, over the waker of \<^verbatim>\<open>nwep/src/poll.rs\<close>. The owner
  thread's loop is cut at its loop heads into steps (one received command, one tick, one polled request,
  one wait), each a translation of the code between two heads; the inductive relation \<open>rt_step\<close> interleaves
  them with what the async side does: enqueue a command, wake the owner, drop a future, drop the client.

  The channels are those of tokio, outside the repository: the outcome of a \<^verbatim>\<open>try_recv\<close> is an argument of
  the owner's step, and the rules of the relation state the channel's contract (first in first out,
  \<^verbatim>\<open>Disconnected\<close> only when empty and the sender is gone). The waker is the parameter \<open>'e waker_api\<close>.
\<close>

section \<open>State\<close>

text \<open>The reply channel of a command is a number, fresh for each dispatch.\<close>

datatype client_command =
  SendCommand request_method string "(string \<times> string) list" bytes (command_reply: nat)

datatype received = Received client_command | EmptyQueue | Disconnected

type_synonym answer = "error + response"

datatype phase = Draining | Ticking | Polling nat | Waiting | Woken | Leaving | Stopped

text \<open>
  The loop's local \<^verbatim>\<open>pending\<close>, where the loop is, the shared channel and eventfd, and a log of what became
  of each reply channel: \<open>ow_sent\<close> (received by the caller), \<open>ow_refused\<close> (the caller was gone and the value
  was dropped), \<open>ow_lost\<close> (the reply sender was dropped unused, which the caller sees as
  \<^verbatim>\<open>NetworkClosed\<close>). \<open>ow_owed\<close> counts the callers between their enqueue and their wake.
\<close>

record 'e owner =
  ow_pending :: "(u64 \<times> nat) list"
  ow_phase :: phase
  ow_queue :: "client_command list"
  ow_open :: bool
  ow_wake :: 'e
  ow_owed :: nat
  ow_gone :: "nat set"
  ow_issued :: "nat list"
  ow_sent :: "(nat \<times> answer) list"
  ow_refused :: "(nat \<times> answer) list"
  ow_lost :: "nat list"

definition poll_cap_ms :: u32 where
  "poll_cap_ms = 200"

text \<open>The bound of the command channel.\<close>

definition command_capacity :: nat where
  "command_capacity = 64"

section \<open>The owner loop\<close>

text \<open>\<^verbatim>\<open>let _ = reply.send(x)\<close>: a refused value is handed back and dropped.\<close>

definition deliver ::
  "('c, 'x) client_api_scheme \<Rightarrow> 'e owner \<Rightarrow> nat \<Rightarrow> answer \<Rightarrow> ('c, 'e owner) io" where
  "deliver A s r x =
     (if r \<in> ow_gone s then do {
        (case x of Inl e \<Rightarrow> State_Monad.return () | Inr resp \<Rightarrow> response_drop A resp);
        State_Monad.return (s\<lparr>ow_refused := ow_refused s @ [(r, x)]\<rparr>)
      }
      else State_Monad.return (s\<lparr>ow_sent := ow_sent s @ [(r, x)]\<rparr>))"

text \<open>\<^verbatim>\<open>for (_, reply) in pending.drain(..) { reply.send(Err(NetworkClosed)) }\<close>.\<close>

fun fail_replies ::
  "('c, 'x) client_api_scheme \<Rightarrow> 'e owner \<Rightarrow> (u64 \<times> nat) list \<Rightarrow> ('c, 'e owner) io" where
  "fail_replies A s [] = State_Monad.return s"
| "fail_replies A s ((_, r) # ps) = do {
     s' \<leftarrow> deliver A s r (Inl NetworkClosed);
     fail_replies A s' ps
   }"

definition fail_pending :: "('c, 'x) client_api_scheme \<Rightarrow> 'e owner \<Rightarrow> ('c, 'e owner) io" where
  "fail_pending A s = fail_replies A (s\<lparr>ow_pending := []\<rparr>) (ow_pending s)"

text \<open>Returning from the loop drops the receiver, and with it the commands still queued.\<close>

definition leave_loop :: "'e owner \<Rightarrow> 'e owner" where
  "leave_loop s = s\<lparr>ow_phase := Leaving, ow_queue := [],
     ow_lost := ow_lost s @ map command_reply (ow_queue s)\<rparr>"

definition drain_step ::
  "('c, 'x) client_api_scheme \<Rightarrow> 'c client \<Rightarrow> received \<Rightarrow> 'e owner \<Rightarrow> ('c, 'e owner) io" where
  "drain_step A cl out s =
     (case out of
        Received (SendCommand mt path hs body r) \<Rightarrow> do {
          res \<leftarrow> client_submit_request A cl mt path hs body;
          (case res of
             Inr ident \<Rightarrow> State_Monad.return (s\<lparr>ow_pending := ow_pending s @ [(ident, r)]\<rparr>)
           | Inl e \<Rightarrow> deliver A s r (Inl e))
        }
      | EmptyQueue \<Rightarrow> State_Monad.return (s\<lparr>ow_phase := Ticking\<rparr>)
      | Disconnected \<Rightarrow> do { s' \<leftarrow> fail_pending A s; State_Monad.return (leave_loop s') })"

definition tick_step ::
  "('c, 'x) client_api_scheme \<Rightarrow> 'c client \<Rightarrow> int \<Rightarrow> 'e owner \<Rightarrow> ('c, 'e owner) io" where
  "tick_step A cl now s = do {
     ticked \<leftarrow> client_tick A cl now;
     dead \<leftarrow> (case ticked of
         Inl e \<Rightarrow> State_Monad.return True
       | Inr _ \<Rightarrow> do { alive \<leftarrow> client_is_alive A cl; State_Monad.return (\<not> alive) });
     (if dead then do { s' \<leftarrow> fail_pending A s; State_Monad.return (leave_loop s') }
      else State_Monad.return (s\<lparr>ow_phase := Polling 0\<rparr>))
   }"

definition poll_step ::
  "('c, 'x) client_api_scheme \<Rightarrow> 'c client \<Rightarrow> nat \<Rightarrow> 'e owner \<Rightarrow> ('c, 'e owner) io" where
  "poll_step A cl i s =
     (if i < length (ow_pending s) then do {
        let (ident, r) = ow_pending s ! i;
        res \<leftarrow> client_poll_request A cl ident;
        (case res of
           Inr (Some resp) \<Rightarrow> deliver A (s\<lparr>ow_pending := swap_remove i (ow_pending s)\<rparr>) r (Inr resp)
         | Inr None \<Rightarrow> State_Monad.return (s\<lparr>ow_phase := Polling (Suc i)\<rparr>)
         | Inl e \<Rightarrow> deliver A (s\<lparr>ow_pending := swap_remove i (ow_pending s)\<rparr>) r (Inl e))
      }
      else State_Monad.return (s\<lparr>ow_phase := Waiting\<rparr>))"

text \<open>How long the loop may sleep.\<close>

definition wait_ms ::
  "('c, 'x) client_api_scheme \<Rightarrow> 'c client \<Rightarrow> int \<Rightarrow> 'e owner \<Rightarrow> ('c, u32) io" where
  "wait_ms A cl now s =
     (if ow_pending s = [] then State_Monad.return poll_cap_ms
      else do {
        t \<leftarrow> client_next_timeout A cl now;
        State_Monad.return (min (opt_unwrap_or t poll_cap_ms) poll_cap_ms)
      })"

definition wait_step ::
  "('c, 'x) client_api_scheme \<Rightarrow> 'c client \<Rightarrow> int \<Rightarrow> 'e owner \<Rightarrow> ('c, 'e owner) io" where
  "wait_step A cl now s = do { _ \<leftarrow> wait_ms A cl now s; State_Monad.return (s\<lparr>ow_phase := Woken\<rparr>) }"

definition owner_start :: "'e \<Rightarrow> 'e owner" where
  "owner_start e = \<lparr>ow_pending = [], ow_phase = Draining, ow_queue = [], ow_open = True, ow_wake = e,
     ow_owed = 0, ow_gone = {}, ow_issued = [], ow_sent = [], ow_refused = [], ow_lost = []\<rparr>"

section \<open>Owner and callers together\<close>

definition receiving :: "'e owner \<Rightarrow> bool" where
  "receiving s \<longleftrightarrow> ow_phase s \<noteq> Leaving \<and> ow_phase s \<noteq> Stopped"

text \<open>A message the library hands over is not one in use.\<close>

definition message_fresh :: "(int \<times> ptr) \<Rightarrow> monitor \<Rightarrow> bool" where
  "message_fresh r m \<longleftrightarrow> fst r = 0 \<longrightarrow> (KMessage, snd r) \<notin> live m"

text \<open>The owner thread's own steps. \<open>stop\<close> is the end of its closure, where the client drops.\<close>

inductive owner_step ::
  "'e waker_api \<Rightarrow> ('c, 'x) client_api_scheme \<Rightarrow> 'c client \<Rightarrow>
   'e owner \<times> 'c world \<Rightarrow> 'e owner \<times> 'c world \<Rightarrow> bool"
  for E :: "'e waker_api" and A :: "('c, 'x) client_api_scheme" and cl :: "'c client"
where
  receive: "ow_phase s = Draining \<Longrightarrow> ow_queue s = c # q \<Longrightarrow>
    owner_step E A cl (s, w) (run_state (drain_step A cl (Received c) (s\<lparr>ow_queue := q\<rparr>)) w)"
| drained: "ow_phase s = Draining \<Longrightarrow> ow_queue s = [] \<Longrightarrow> ow_open s \<Longrightarrow>
    owner_step E A cl (s, w) (run_state (drain_step A cl EmptyQueue s) w)"
| disconnect: "ow_phase s = Draining \<Longrightarrow> ow_queue s = [] \<Longrightarrow> \<not> ow_open s \<Longrightarrow>
    owner_step E A cl (s, w) (run_state (drain_step A cl Disconnected s) w)"
| tick: "ow_phase s = Ticking \<Longrightarrow> owner_step E A cl (s, w) (run_state (tick_step A cl now s) w)"
| poll: "ow_phase s = Polling i \<Longrightarrow>
    (i < length (ow_pending s) \<Longrightarrow> \<forall>m. judged w = Some m \<longrightarrow>
      message_fresh (fst (c_client_request_poll A (cl_raw cl) (fst (ow_pending s ! i)) (lib w))) m) \<Longrightarrow>
    owner_step E A cl (s, w) (run_state (poll_step A cl i s) w)"
| wait: "ow_phase s = Waiting \<Longrightarrow> owner_step E A cl (s, w) (run_state (wait_step A cl now s) w)"
| woken: "ow_phase s = Woken \<Longrightarrow> waker_drain E (ow_wake s) = Some e \<Longrightarrow>
    owner_step E A cl (s, w) (s\<lparr>ow_wake := e, ow_phase := Draining\<rparr>, w)"
| stop: "ow_phase s = Leaving \<Longrightarrow>
    owner_step E A cl (s, w) (s\<lparr>ow_phase := Stopped\<rparr>, snd (run_state (client_drop A cl) w))"

text \<open>
  What the async side does: \<^verbatim>\<open>dispatch\<close> enqueues a command with a fresh reply channel, or is turned away
  when the receiver is gone, and wakes the owner; a future is dropped; the \<^verbatim>\<open>AsyncClient\<close> is dropped.
\<close>

inductive caller_step :: "'e waker_api \<Rightarrow> 'e owner \<Rightarrow> 'e owner \<Rightarrow> bool"
  for E :: "'e waker_api"
where
  enqueue: "receiving s \<Longrightarrow> ow_open s \<Longrightarrow> length (ow_queue s) < command_capacity \<Longrightarrow>
    command_reply c \<notin> set (ow_issued s) \<Longrightarrow>
    caller_step E s (s\<lparr>ow_queue := ow_queue s @ [c], ow_issued := ow_issued s @ [command_reply c],
      ow_owed := Suc (ow_owed s)\<rparr>)"
| turned_away: "\<not> receiving s \<Longrightarrow> r \<notin> set (ow_issued s) \<Longrightarrow>
    caller_step E s (s\<lparr>ow_issued := ow_issued s @ [r], ow_lost := ow_lost s @ [r]\<rparr>)"
| wake: "ow_owed s = Suc n \<Longrightarrow>
    caller_step E s (s\<lparr>ow_wake := waker_wake E (ow_wake s), ow_owed := n\<rparr>)"
| forget: "caller_step E s (s\<lparr>ow_gone := insert r (ow_gone s)\<rparr>)"
| close: "ow_open s \<Longrightarrow> caller_step E s (s\<lparr>ow_open := False, ow_owed := Suc (ow_owed s)\<rparr>)"

inductive_cases owner_stepE: "owner_step E A cl (s, w) (s', w')"
inductive_cases caller_stepE: "caller_step E s s'"

inductive rt_step ::
  "'e waker_api \<Rightarrow> ('c, 'x) client_api_scheme \<Rightarrow> 'c client \<Rightarrow>
   'e owner \<times> 'c world \<Rightarrow> 'e owner \<times> 'c world \<Rightarrow> bool"
  for E :: "'e waker_api" and A :: "('c, 'x) client_api_scheme" and cl :: "'c client"
where
  owner: "owner_step E A cl (s, w) (s', w') \<Longrightarrow> rt_step E A cl (s, w) (s', w')"
| caller: "caller_step E s s' \<Longrightarrow> rt_step E A cl (s, w) (s', w)"

inductive_cases rt_stepE: "rt_step E A cl (s, w) (s', w')"

text \<open>What the await of a dispatch returns, once it returns.\<close>

definition caller_result :: "'e owner \<Rightarrow> nat \<Rightarrow> answer option" where
  "caller_result s r =
     (case map_of (ow_sent s) r of
        Some x \<Rightarrow> Some x
      | None \<Rightarrow> if r \<in> set (ow_lost s) then Some (Inl NetworkClosed) else None)"

section \<open>The steps in closed form\<close>

definition settle :: "'e owner \<Rightarrow> nat \<Rightarrow> answer \<Rightarrow> 'e owner" where
  "settle s r x =
     (if r \<in> ow_gone s then s\<lparr>ow_refused := ow_refused s @ [(r, x)]\<rparr>
      else s\<lparr>ow_sent := ow_sent s @ [(r, x)]\<rparr>)"

lemma settle_simps [simp]:
  "ow_pending (settle s r x) = ow_pending s" "ow_phase (settle s r x) = ow_phase s"
  "ow_queue (settle s r x) = ow_queue s" "ow_open (settle s r x) = ow_open s"
  "ow_wake (settle s r x) = ow_wake s" "ow_owed (settle s r x) = ow_owed s"
  "ow_gone (settle s r x) = ow_gone s" "ow_issued (settle s r x) = ow_issued s"
  "ow_lost (settle s r x) = ow_lost s"
  by (simp_all add: settle_def)

lemma run_deliver:
  "run_state (deliver A s r x) w =
     (settle s r x,
      case x of Inl e \<Rightarrow> w | Inr resp \<Rightarrow>
        if r \<in> ow_gone s then snd (run_state (response_drop A resp) w) else w)"
  by (simp add: deliver_def settle_def response_drop_def split: sum.split)

fun settle_all :: "'e owner \<Rightarrow> (u64 \<times> nat) list \<Rightarrow> 'e owner" where
  "settle_all s [] = s"
| "settle_all s (p # ps) = settle_all (settle s (snd p) (Inl NetworkClosed)) ps"

lemma run_fail_replies [simp]: "run_state (fail_replies A s ps) w = (settle_all s ps, w)"
proof (induction ps arbitrary: s)
  case Nil
  then show ?case by simp
next
  case (Cons p ps)
  then show ?case by (cases p) (simp add: run_deliver)
qed

lemma settle_all_simps [simp]:
  "ow_pending (settle_all s ps) = ow_pending s" "ow_phase (settle_all s ps) = ow_phase s"
  "ow_queue (settle_all s ps) = ow_queue s" "ow_open (settle_all s ps) = ow_open s"
  "ow_wake (settle_all s ps) = ow_wake s" "ow_owed (settle_all s ps) = ow_owed s"
  "ow_issued (settle_all s ps) = ow_issued s" "ow_lost (settle_all s ps) = ow_lost s"
  by (induction s ps rule: settle_all.induct) simp_all

lemma run_fail_pending [simp]:
  "run_state (fail_pending A s) w = (settle_all (s\<lparr>ow_pending := []\<rparr>) (ow_pending s), w)"
  by (simp add: fail_pending_def)

definition closed_down :: "'e owner \<Rightarrow> 'e owner" where
  "closed_down s = leave_loop (settle_all (s\<lparr>ow_pending := []\<rparr>) (ow_pending s))"

text \<open>What a received command, a tick and a poll make of the owner and the world.\<close>

lemma drain_step_received:
  assumes "run_state (client_submit_request A cl mt path hs body) w = (res, w')"
  shows "run_state (drain_step A cl (Received (SendCommand mt path hs body r)) s) w =
    (case res of Inr ident \<Rightarrow> s\<lparr>ow_pending := ow_pending s @ [(ident, r)]\<rparr> | Inl e \<Rightarrow> settle s r (Inl e), w')"
  using assms by (simp add: drain_step_def run_deliver split: sum.split)

lemma drain_step_empty: "run_state (drain_step A cl EmptyQueue s) w = (s\<lparr>ow_phase := Ticking\<rparr>, w)"
  and drain_step_disconnected: "run_state (drain_step A cl Disconnected s) w = (closed_down s, w)"
  by (simp_all add: drain_step_def closed_down_def)

definition survives_tick ::
  "('c, 'x) client_api_scheme \<Rightarrow> 'c client \<Rightarrow> int \<Rightarrow> ('c, bool) io" where
  "survives_tick A cl now = do {
     ticked \<leftarrow> client_tick A cl now;
     (case ticked of Inl e \<Rightarrow> State_Monad.return False | Inr _ \<Rightarrow> client_is_alive A cl)
   }"

lemma tick_step_cases:
  "run_state (tick_step A cl now s) w =
     (case run_state (survives_tick A cl now) w of (alive, w') \<Rightarrow>
        (if alive then s\<lparr>ow_phase := Polling 0\<rparr> else closed_down s, w'))"
  by (auto simp: tick_step_def survives_tick_def closed_down_def case_prod_beta split: sum.split)

lemma poll_step_cases:
  assumes "run_state (client_poll_request A cl (fst (ow_pending s ! i))) w = (res, w')"
  shows "run_state (poll_step A cl i s) w =
    (if i < length (ow_pending s) then
       (let r = snd (ow_pending s ! i); s1 = s\<lparr>ow_pending := swap_remove i (ow_pending s)\<rparr> in
        case res of
          Inr None \<Rightarrow> (s\<lparr>ow_phase := Polling (Suc i)\<rparr>, w')
        | Inl e \<Rightarrow> (settle s1 r (Inl e), w')
        | Inr (Some resp) \<Rightarrow> (settle s1 r (Inr resp),
            if r \<in> ow_gone s then snd (run_state (response_drop A resp) w') else w'))
     else (s\<lparr>ow_phase := Waiting\<rparr>, w))"
proof (cases "ow_pending s ! i")
  case (Pair ident r)
  with assms show ?thesis
    by (simp add: poll_step_def run_deliver Let_def split: sum.split option.split)
qed

lemma wait_step_phase: "fst (run_state (wait_step A cl now s) w) = s\<lparr>ow_phase := Woken\<rparr>"
  by (simp add: wait_step_def case_prod_beta)

section \<open>Every dispatch is answered once\<close>

definition settled :: "'e owner \<Rightarrow> nat multiset" where
  "settled s = mset (map fst (ow_sent s)) + mset (map fst (ow_refused s)) + mset (ow_lost s)"

definition accounted :: "'e owner \<Rightarrow> bool" where
  "accounted s \<longleftrightarrow>
     mset (ow_issued s) = mset (map command_reply (ow_queue s)) + mset (map snd (ow_pending s)) + settled s \<and>
     distinct (ow_issued s) \<and> (\<not> receiving s \<longrightarrow> ow_queue s = [] \<and> ow_pending s = [])"

lemma settled_settle [simp]: "settled (settle s r x) = add_mset r (settled s)"
  by (simp add: settled_def settle_def)

lemma settled_settle_all [simp]: "settled (settle_all s ps) = mset (map snd ps) + settled s"
  by (induction s ps rule: settle_all.induct) simp_all

lemma settled_updates [simp]:
  "settled (s\<lparr>ow_pending := ps\<rparr>) = settled s" "settled (s\<lparr>ow_phase := p\<rparr>) = settled s"
  "settled (s\<lparr>ow_queue := q\<rparr>) = settled s" "settled (s\<lparr>ow_open := b\<rparr>) = settled s"
  "settled (s\<lparr>ow_wake := e\<rparr>) = settled s" "settled (s\<lparr>ow_owed := n\<rparr>) = settled s"
  "settled (s\<lparr>ow_gone := g\<rparr>) = settled s" "settled (s\<lparr>ow_issued := l\<rparr>) = settled s"
  "settled (s\<lparr>ow_lost := ls\<rparr>) = mset (map fst (ow_sent s)) + mset (map fst (ow_refused s)) + mset ls"
  by (simp_all add: settled_def)

lemma accounted_closed_down: "accounted s \<Longrightarrow> accounted (closed_down s)"
  unfolding closed_down_def leave_loop_def
  using settled_settle_all [of "s\<lparr>ow_pending := []\<rparr>" "ow_pending s"]
  by (auto simp: accounted_def receiving_def settled_def ac_simps)

lemma map_swap_remove:
  assumes "i < length xs"
  shows "mset (map f xs) = add_mset (f (xs ! i)) (mset (map f (swap_remove i xs)))"
  using arg_cong [OF mset_swap_remove [OF assms], of "image_mset f"] by simp

text \<open>What an owner step can make of the owner, up to its answers: the cases of every proof below.\<close>

lemma owner_step_outcome:
  assumes "owner_step E A cl (s, w) (s', w')"
  obtains
    (submitted) c q ident where "ow_phase s = Draining" "ow_queue s = c # q"
      "s' = s\<lparr>ow_queue := q, ow_pending := ow_pending s @ [(ident, command_reply c)]\<rparr>"
  | (refused) c q e where "ow_phase s = Draining" "ow_queue s = c # q"
      "s' = settle (s\<lparr>ow_queue := q\<rparr>) (command_reply c) (Inl e)"
  | (drained) "ow_phase s = Draining" "ow_queue s = []" "ow_open s" "s' = s\<lparr>ow_phase := Ticking\<rparr>"
  | (closing) "ow_phase s = Ticking \<or> ow_phase s = Draining \<and> ow_queue s = []" "s' = closed_down s"
  | (ticked) "ow_phase s = Ticking" "s' = s\<lparr>ow_phase := Polling 0\<rparr>"
  | (completed) i x where "ow_phase s = Polling i" "i < length (ow_pending s)"
      "s' = settle (s\<lparr>ow_pending := swap_remove i (ow_pending s)\<rparr>) (snd (ow_pending s ! i)) x"
  | (in_flight) i where "ow_phase s = Polling i" "i < length (ow_pending s)"
      "s' = s\<lparr>ow_phase := Polling (Suc i)\<rparr>"
  | (polled) i where "ow_phase s = Polling i" "length (ow_pending s) \<le> i" "s' = s\<lparr>ow_phase := Waiting\<rparr>"
  | (waited) "ow_phase s = Waiting" "s' = s\<lparr>ow_phase := Woken\<rparr>"
  | (woken) e where "ow_phase s = Woken" "waker_drain E (ow_wake s) = Some e"
      "s' = s\<lparr>ow_wake := e, ow_phase := Draining\<rparr>"
  | (stopped) "ow_phase s = Leaving" "s' = s\<lparr>ow_phase := Stopped\<rparr>"
  using assms
proof (cases rule: owner_step.cases)
  case (receive c q)
  obtain mt path hs body r where c: "c = SendCommand mt path hs body r" by (cases c)
  obtain res v where run: "run_state (client_submit_request A cl mt path hs body) w = (res, v)"
    by (metis prod.collapse)
  note out = receive(1) [unfolded c drain_step_received [OF run]]
  show ?thesis
  proof (cases res)
    case (Inl e)
    then show ?thesis using refused [OF receive(2,3), of e] out c by simp
  next
    case (Inr ident)
    then show ?thesis using submitted [OF receive(2,3), of ident] out c by simp
  qed
next
  case drained
  then show ?thesis using that(3) by (simp add: drain_step_empty)
next
  case disconnect
  then show ?thesis using closing by (simp add: drain_step_disconnected)
next
  case (tick now)
  obtain b v where "run_state (survives_tick A cl now) w = (b, v)" by (metis prod.collapse)
  with tick show ?thesis using ticked closing by (cases b) (simp_all add: tick_step_cases)
next
  case (poll i)
  obtain res v where run: "run_state (client_poll_request A cl (fst (ow_pending s ! i))) w = (res, v)"
    by (metis prod.collapse)
  note out = poll(1) [unfolded poll_step_cases [OF run] Let_def]
  show ?thesis
  proof (cases "i < length (ow_pending s)")
    case True
    note done_case = completed [OF poll(2) True]
    consider e where "res = Inl e" | "res = Inr None" | resp where "res = Inr (Some resp)"
      by (metis not_None_eq sum.exhaust)
    then show ?thesis
    proof cases
      case (1 e)
      then show ?thesis using done_case [of "Inl e"] out True by simp
    next
      case 2
      then show ?thesis using in_flight [OF poll(2) True] out True by simp
    next
      case (3 resp)
      then show ?thesis using done_case [of "Inr resp"] out True by simp
    qed
  next
    case False
    then show ?thesis using polled [OF poll(2)] out by simp
  qed
next
  case (wait now)
  then have "s' = s\<lparr>ow_phase := Woken\<rparr>" by (metis wait_step_phase fst_conv)
  with wait show ?thesis using waited by simp
next
  case (woken e)
  then show ?thesis using that(10) by simp
next
  case stop
  then show ?thesis using stopped by simp
qed

lemma accounted_owner_step:
  assumes "owner_step E A cl (s, w) (s', w')" and "accounted s"
  shows "accounted s'"
  using assms(1)
proof (cases rule: owner_step_outcome)
  case closing
  then show ?thesis using assms(2) accounted_closed_down by simp
next
  case (completed i x)
  then show ?thesis
    using assms(2) map_swap_remove [of i "ow_pending s" snd] by (auto simp: accounted_def receiving_def)
qed (use assms(2) in \<open>auto simp: accounted_def receiving_def\<close>)

lemma accounted_caller_step: "caller_step E s s' \<Longrightarrow> accounted s \<Longrightarrow> accounted s'"
  by (induction rule: caller_step.induct) (auto simp: accounted_def receiving_def settled_def)

lemma accounted_step: "rt_step E A cl x y \<Longrightarrow> accounted (fst x) \<Longrightarrow> accounted (fst y)"
  by (induction rule: rt_step.induct) (auto intro: accounted_owner_step accounted_caller_step)

lemma accounted_start: "accounted (owner_start e)"
  by (simp add: accounted_def owner_start_def settled_def)

interpretation accounting: step_invariant "rt_step E A cl" "\<lambda>x. accounted (fst x)"
  for E :: "'e waker_api" and A :: "('c, 'x) client_api_scheme" and cl
  by unfold_locales (rule accounted_step)

section \<open>The service the callers see\<close>

text \<open>
  The abstract contract of the managed client: a dispatch waits until it is answered, once, with an
  answer that stays.
\<close>

record service =
  sv_waiting :: "nat set"
  sv_answers :: "nat \<Rightarrow> answer option"

definition service_start :: service where
  "service_start = \<lparr>sv_waiting = {}, sv_answers = (\<lambda>_. None)\<rparr>"

inductive service_step :: "service \<Rightarrow> service \<Rightarrow> bool" where
  issue: "r \<notin> sv_waiting v \<Longrightarrow> sv_answers v r = None \<Longrightarrow>
    service_step v (v\<lparr>sv_waiting := insert r (sv_waiting v)\<rparr>)"
| answer: "r \<in> sv_waiting v \<Longrightarrow>
    service_step v (v\<lparr>sv_waiting := sv_waiting v - {r}, sv_answers := (sv_answers v)(r \<mapsto> x)\<rparr>)"

definition waiting_of :: "'e owner \<Rightarrow> nat set" where
  "waiting_of s = command_reply ` set (ow_queue s) \<union> snd ` set (ow_pending s)"

definition answers_of :: "'e owner \<Rightarrow> nat \<Rightarrow> answer option" where
  "answers_of s = map_of (ow_sent s @ ow_refused s @ map (\<lambda>r. (r, Inl NetworkClosed)) (ow_lost s))"

definition service_of :: "'e owner \<Rightarrow> service" where
  "service_of s = \<lparr>sv_waiting = waiting_of s, sv_answers = answers_of s\<rparr>"

lemma map_of_const: "map_of (map (\<lambda>r. (r, x)) rs) = (\<lambda>r. if r \<in> set rs then Some x else None)"
  by (induction rs) (auto simp: fun_eq_iff)

lemma dom_answers: "dom (answers_of s) = set_mset (settled s)"
  by (auto simp: answers_of_def settled_def dom_map_of_conv_image_fst image_image)

lemma answers_of_updates [simp]:
  "answers_of (s\<lparr>ow_pending := ps\<rparr>) = answers_of s" "answers_of (s\<lparr>ow_phase := p\<rparr>) = answers_of s"
  "answers_of (s\<lparr>ow_queue := q\<rparr>) = answers_of s" "answers_of (s\<lparr>ow_wake := e\<rparr>) = answers_of s"
  by (simp_all add: answers_of_def)

lemma answers_settle:
  assumes "answers_of s r = None"
  shows "answers_of (settle s r x) = (answers_of s)(r \<mapsto> x)"
  using assms
  by (auto simp: answers_of_def settle_def map_add_def fun_eq_iff split: option.splits)

lemma answers_settle_all:
  assumes "distinct (map snd ps)" and "\<forall>p \<in> set ps. answers_of s (snd p) = None"
  shows "answers_of (settle_all s ps) = (\<lambda>r. if r \<in> snd ` set ps then Some (Inl NetworkClosed) else answers_of s r)"
  using assms
proof (induction ps arbitrary: s)
  case Nil
  then show ?case by simp
next
  case (Cons p ps)
  have "answers_of (settle s (snd p) (Inl NetworkClosed)) = (answers_of s)(snd p \<mapsto> Inl NetworkClosed)"
    using Cons.prems by (simp add: answers_settle)
  moreover have "answers_of (settle_all (settle s (snd p) (Inl NetworkClosed)) ps) =
      (\<lambda>r. if r \<in> snd ` set ps then Some (Inl NetworkClosed)
        else answers_of (settle s (snd p) (Inl NetworkClosed)) r)"
    by (rule Cons.IH) (use Cons.prems calculation in \<open>auto intro: rev_image_eqI\<close>)
  ultimately show ?case by (auto simp: fun_eq_iff)
qed

lemma answers_leave:
  assumes "\<forall>c \<in> set (ow_queue s). answers_of s (command_reply c) = None"
  shows "answers_of (leave_loop s) =
    (\<lambda>r. if r \<in> command_reply ` set (ow_queue s) then Some (Inl NetworkClosed) else answers_of s r)"
proof
  fix r
  show "answers_of (leave_loop s) r =
      (if r \<in> command_reply ` set (ow_queue s) then Some (Inl NetworkClosed) else answers_of s r)"
    using assms
    by (auto simp: answers_of_def leave_loop_def map_add_def map_of_const simp del: map_map
        split: option.splits if_splits)
qed

text \<open>Nothing waiting is answered, and nothing waits twice.\<close>

lemma accounted_parts:
  assumes "accounted s"
  shows "distinct (map command_reply (ow_queue s) @ map snd (ow_pending s))"
    and "r \<in> waiting_of s \<Longrightarrow> answers_of s r = None"
    and "set (ow_issued s) = waiting_of s \<union> dom (answers_of s)"
proof -
  let ?all = "map command_reply (ow_queue s) @ map snd (ow_pending s) @ map fst (ow_sent s) @
    map fst (ow_refused s) @ ow_lost s"
  have m: "mset (ow_issued s) = mset ?all"
    using assms by (simp add: accounted_def settled_def ac_simps)
  then have d: "distinct ?all"
    using assms by (metis accounted_def mset_eq_imp_distinct_iff)
  then show "distinct (map command_reply (ow_queue s) @ map snd (ow_pending s))" by auto
  show "set (ow_issued s) = waiting_of s \<union> dom (answers_of s)"
    using mset_eq_setD [OF m] unfolding dom_answers by (auto simp: waiting_of_def settled_def)
  show "answers_of s r = None" if "r \<in> waiting_of s"
  proof -
    have "r \<notin> set_mset (settled s)"
      using d that by (auto simp: waiting_of_def settled_def)
    then show ?thesis using dom_answers by blast
  qed
qed

lemma answers_closed_down:
  assumes "accounted s"
  shows "service_of (closed_down s) = \<lparr>sv_waiting = {},
    sv_answers = (\<lambda>r. if r \<in> waiting_of s then Some (Inl NetworkClosed) else answers_of s r)\<rparr>"
proof -
  let ?t = "settle_all (s\<lparr>ow_pending := []\<rparr>) (ow_pending s)"
  have d: "distinct (map snd (ow_pending s))" and n: "\<forall>p \<in> set (ow_pending s). answers_of s (snd p) = None"
    using accounted_parts [OF assms] by (auto simp: waiting_of_def)
  have t: "answers_of ?t = (\<lambda>r. if r \<in> snd ` set (ow_pending s) then Some (Inl NetworkClosed) else answers_of s r)"
    by (subst answers_settle_all) (auto simp: d n)
  have "\<forall>c \<in> set (ow_queue ?t). answers_of ?t (command_reply c) = None"
    using accounted_parts [OF assms] by (auto simp: t waiting_of_def)
  from answers_leave [OF this] t show ?thesis
    by (auto simp: service_of_def closed_down_def waiting_of_def leave_loop_def fun_eq_iff)
qed

lemma service_close:
  assumes "finite W" and "W \<subseteq> sv_waiting v"
  shows "service_step\<^sup>*\<^sup>* v (v\<lparr>sv_waiting := sv_waiting v - W,
    sv_answers := (\<lambda>r. if r \<in> W then Some x else sv_answers v r)\<rparr>)"
  using assms
proof (induction W)
  case empty
  then show ?case by simp
next
  case (insert r W)
  let ?v = "v\<lparr>sv_waiting := sv_waiting v - W, sv_answers := (\<lambda>r. if r \<in> W then Some x else sv_answers v r)\<rparr>"
  have "service_step ?v (?v\<lparr>sv_waiting := sv_waiting ?v - {r}, sv_answers := (sv_answers ?v)(r \<mapsto> x)\<rparr>)"
    by (rule service_step.answer) (use insert in auto)
  moreover have "?v\<lparr>sv_waiting := sv_waiting ?v - {r}, sv_answers := (sv_answers ?v)(r \<mapsto> x)\<rparr> =
    v\<lparr>sv_waiting := sv_waiting v - insert r W,
      sv_answers := (\<lambda>k. if k \<in> insert r W then Some x else sv_answers v k)\<rparr>"
    by (rule service.equality) (auto simp: fun_eq_iff)
  ultimately show ?case
    using insert by (metis (no_types, lifting) insert_subset rtranclp.rtrancl_into_rtrancl)
qed

text \<open>Each step of the owner and of the callers is some steps of the service.\<close>

lemma settle_answers_service:
  assumes "accounted s" and "r \<in> waiting_of s" and "waiting_of t = waiting_of s - {r}" and "answers_of t = answers_of s"
  shows "service_step (service_of s) (service_of (settle t r x))"
proof -
  have "answers_of t r = None" using accounted_parts(2) [OF assms(1,2)] assms(4) by simp
  then have "service_of (settle t r x) = (service_of s)\<lparr>sv_waiting := sv_waiting (service_of s) - {r},
      sv_answers := (sv_answers (service_of s))(r \<mapsto> x)\<rparr>"
    using assms(3,4) by (simp add: service_of_def answers_settle) (simp add: waiting_of_def)
  then show ?thesis using service_step.answer [of r "service_of s" x] assms(2) by (simp add: service_of_def)
qed

lemma owner_step_simulated:
  assumes "owner_step E A cl (s, w) (s', w')" and "accounted s"
  shows "service_step\<^sup>*\<^sup>* (service_of s) (service_of s')"
  using assms(1)
proof (cases rule: owner_step_outcome)
  case (submitted c q ident)
  then have "service_of s' = service_of s" by (auto simp: service_of_def waiting_of_def)
  then show ?thesis by simp
next
  case (refused c q e)
  have "service_step (service_of s) (service_of s')"
    unfolding refused(3)
    by (rule settle_answers_service [OF assms(2)])
      (use refused accounted_parts(1) [OF assms(2)] in \<open>auto simp: waiting_of_def image_iff\<close>)
  then show ?thesis by simp
next
  case closing
  have "service_step\<^sup>*\<^sup>* (service_of s) ((service_of s)\<lparr>sv_waiting := sv_waiting (service_of s) - waiting_of s,
      sv_answers := (\<lambda>r. if r \<in> waiting_of s then Some (Inl NetworkClosed) else sv_answers (service_of s) r)\<rparr>)"
    by (rule service_close) (auto simp: waiting_of_def service_of_def)
  then show ?thesis
    unfolding closing(2) answers_closed_down [OF assms(2)] by (simp add: service_of_def cong: if_cong)
next
  case (completed i x)
  let ?ps = "ow_pending s"
  have m: "mset (map snd ?ps) = add_mset (snd (?ps ! i)) (mset (map snd (swap_remove i ?ps)))"
    by (rule map_swap_remove) fact
  have d: "distinct (map snd ?ps)" "\<forall>c \<in> set (ow_queue s). command_reply c \<notin> snd ` set ?ps"
    using accounted_parts(1) [OF assms(2)] by auto
  have "distinct (snd (?ps ! i) # map snd (swap_remove i ?ps))"
    using d(1) m by (metis mset.simps(2) mset_eq_imp_distinct_iff)
  moreover have "snd ` set ?ps = insert (snd (?ps ! i)) (snd ` set (swap_remove i ?ps))"
    using arg_cong [OF m, of set_mset] by simp
  ultimately have w: "waiting_of (s\<lparr>ow_pending := swap_remove i ?ps\<rparr>) = waiting_of s - {snd (?ps ! i)}"
    using d(2) by (auto simp: waiting_of_def)
  have "service_step (service_of s) (service_of s')"
    unfolding completed(3)
    by (rule settle_answers_service [OF assms(2) _ w]) (use completed(2) in \<open>auto simp: waiting_of_def\<close>)
  then show ?thesis by simp
qed (simp_all add: service_of_def waiting_of_def)

lemma caller_step_simulated:
  assumes "caller_step E s s'" and "accounted s"
  shows "service_step\<^sup>*\<^sup>* (service_of s) (service_of s')"
  using assms
proof (induction rule: caller_step.induct)
  case (enqueue s c)
  have "answers_of s (command_reply c) = None" and "command_reply c \<notin> waiting_of s"
    using accounted_parts(3) [OF enqueue(5)] enqueue(4) by auto
  then have "service_step (service_of s) ((service_of s)\<lparr>sv_waiting := insert (command_reply c) (waiting_of s)\<rparr>)"
    using service_step.issue [of "command_reply c" "service_of s"] by (simp add: service_of_def)
  then show ?case by (auto simp: service_of_def waiting_of_def answers_of_def)
next
  case (turned_away s r)
  let ?v = "service_of s"
  have n: "answers_of s r = None" "r \<notin> waiting_of s"
    using accounted_parts(3) [OF turned_away(3)] turned_away(2) by auto
  have "service_step ?v (?v\<lparr>sv_waiting := insert r (sv_waiting ?v)\<rparr>)"
    by (rule service_step.issue) (use n in \<open>simp_all add: service_of_def\<close>)
  moreover have "service_step (?v\<lparr>sv_waiting := insert r (sv_waiting ?v)\<rparr>)
      (?v\<lparr>sv_waiting := insert r (sv_waiting ?v) - {r}, sv_answers := (sv_answers ?v)(r \<mapsto> Inl NetworkClosed)\<rparr>)"
    using service_step.answer [of r "?v\<lparr>sv_waiting := insert r (sv_waiting ?v)\<rparr>" "Inl NetworkClosed"] by simp
  moreover have "service_of (s\<lparr>ow_issued := ow_issued s @ [r], ow_lost := ow_lost s @ [r]\<rparr>) =
      ?v\<lparr>sv_waiting := insert r (sv_waiting ?v) - {r}, sv_answers := (sv_answers ?v)(r \<mapsto> Inl NetworkClosed)\<rparr>"
    using n by (auto simp: service_of_def waiting_of_def answers_of_def map_add_def fun_eq_iff split: option.splits)
  ultimately show ?case by (metis (no_types, lifting) rtranclp.rtrancl_into_rtrancl r_into_rtranclp)
qed (simp_all add: service_of_def waiting_of_def answers_of_def)

interpretation refines: simulation "rt_step E A cl" "\<lambda>x. accounted (fst x)" service_step "\<lambda>x. service_of (fst x)"
  for E :: "'e waker_api" and A :: "('c, 'x) client_api_scheme" and cl
proof (unfold_locales, goal_cases)
  case (1 s t)
  then show ?case
    by (induction rule: rt_step.induct) (auto intro: owner_step_simulated caller_step_simulated)
qed

lemma service_answers_stay:
  "service_step\<^sup>*\<^sup>* v v' \<Longrightarrow> \<forall>r \<in> sv_waiting v. sv_answers v r = None \<Longrightarrow>
     sv_answers v \<subseteq>\<^sub>m sv_answers v' \<and> (\<forall>r \<in> sv_waiting v'. sv_answers v' r = None)"
proof (induction rule: rtranclp_induct)
  case base
  then show ?case by simp
next
  case (step v' v'')
  note inv = step.IH [OF step.prems]
  show ?case
    using step.hyps(2)
  proof (cases rule: service_step.cases)
    case (issue r)
    then show ?thesis using inv by (auto simp: map_le_def)
  next
    case (answer r x)
    then have "sv_answers v' r = None" using inv by auto
    moreover from this have "sv_answers v r = None" using inv by (metis domIff map_le_def)
    ultimately show ?thesis using inv answer by (auto simp: map_le_def split: if_splits)
  qed
qed

section \<open>No wakeup is lost\<close>

text \<open>
  While the owner is between its last look at the channel and its sleep, a queued command or a dropped
  client has either made the eventfd readable or its wake is still to come.
\<close>

definition will_wake :: "'e waker_api \<Rightarrow> 'e owner \<Rightarrow> bool" where
  "will_wake E s \<longleftrightarrow>
     (ow_phase s = Ticking \<or> (\<exists>i. ow_phase s = Polling i) \<or> ow_phase s = Waiting) \<longrightarrow>
     (ow_queue s \<noteq> [] \<or> \<not> ow_open s) \<longrightarrow> wk_ready E (ow_wake s) \<or> 0 < ow_owed s"

lemma will_wake_owner_step:
  assumes "owner_step E A cl (s, w) (s', w')" and "will_wake E s"
  shows "will_wake E s'"
  using assms(1)
proof (cases rule: owner_step_outcome)
qed (use assms(2) in \<open>simp_all add: will_wake_def closed_down_def leave_loop_def\<close>)

lemma will_wake_caller_step:
  assumes "waker_contract E" and "caller_step E s s'" and "will_wake E s"
  shows "will_wake E s'"
  using assms(2,3,1)
  by (induction rule: caller_step.induct)
    (auto simp: will_wake_def receiving_def waker_wake_def waker_contract_def)

lemma will_wake_step:
  assumes "waker_contract E" and "rt_step E A cl x y"
  shows "will_wake E (fst x) \<Longrightarrow> will_wake E (fst y)"
  using assms(2)
  by (induction rule: rt_step.induct)
    (simp_all add: will_wake_owner_step will_wake_caller_step [OF assms(1)])

interpretation wakeups: step_invariant "rt_step E A cl" "\<lambda>x. waker_contract E \<longrightarrow> will_wake E (fst x)"
  for E :: "'e waker_api" and A :: "('c, 'x) client_api_scheme" and cl
  by unfold_locales (blast intro: will_wake_step)

lemma will_wake_start: "will_wake E (owner_start e)"
  by (simp add: will_wake_def owner_start_def)

section \<open>The owner winds down\<close>

text \<open>How many steps the owner can still take on its own once the client is dropped.\<close>

definition steps_left :: "'e owner \<Rightarrow> nat" where
  "steps_left s = (case ow_phase s of
       Stopped \<Rightarrow> 0
     | Leaving \<Rightarrow> 1
     | Draining \<Rightarrow> 2 + length (ow_queue s)
     | Woken \<Rightarrow> 3 + length (ow_queue s)
     | Waiting \<Rightarrow> 4 + length (ow_queue s)
     | Polling i \<Rightarrow> 5 + length (ow_queue s) + (length (ow_pending s) - i)
     | Ticking \<Rightarrow> 6 + length (ow_queue s) + length (ow_pending s))"

lemma owner_step_winds_down:
  assumes "owner_step E A cl (s, w) (s', w')" and "\<not> ow_open s"
  shows "steps_left s' < steps_left s \<and> \<not> ow_open s'"
  using assms(1)
proof (cases rule: owner_step_outcome)
  case closing
  then show ?thesis using assms(2) by (auto simp: steps_left_def closed_down_def leave_loop_def)
qed (use assms(2) in \<open>simp_all add: steps_left_def\<close>)

lemma owner_steps_bounded:
  "((owner_step E A cl) ^^ n) (s, w) (s', w') \<Longrightarrow> \<not> ow_open s \<Longrightarrow>
     n + steps_left s' \<le> steps_left s \<and> \<not> ow_open s'"
proof (induction n arbitrary: s' w')
  case 0
  then show ?case by simp
next
  case (Suc n)
  then obtain t v where "((owner_step E A cl) ^^ n) (s, w) (t, v)" and "owner_step E A cl (t, v) (s', w')"
    by auto
  with Suc.IH [OF _ Suc.prems(2)] owner_step_winds_down show ?case by fastforce
qed

lemma owner_progress:
  assumes "waker_contract E" and "ow_phase s \<noteq> Stopped"
    and "\<And>i m. i < length (ow_pending s) \<Longrightarrow> judged w = Some m \<Longrightarrow>
      message_fresh (fst (c_client_request_poll A (cl_raw cl) (fst (ow_pending s ! i)) (lib w))) m"
  shows "\<exists>y. owner_step E A cl (s, w) y"
proof (cases "ow_phase s")
  case Draining
  then show ?thesis
    using owner_step.receive owner_step.drained owner_step.disconnect by (metis neq_Nil_conv)
next
  case (Polling i)
  then show ?thesis using owner_step.poll [of s i w A cl E] assms(3) by blast
next
  case Woken
  then show ?thesis using owner_step.woken waker_drain_total [OF assms(1)] by metis
qed (use assms(2) owner_step.tick owner_step.wait owner_step.stop in blast)+

section \<open>One pass over the requests in flight\<close>

text \<open>\<^verbatim>\<open>while i < pending.len()\<close>, with fuel.\<close>

fun poll_pass ::
  "('c, 'x) client_api_scheme \<Rightarrow> 'c client \<Rightarrow> nat \<Rightarrow> 'e owner \<Rightarrow> ('c, 'e owner) io" where
  "poll_pass A cl 0 s = State_Monad.return s"
| "poll_pass A cl (Suc k) s =
     (case ow_phase s of
        Polling i \<Rightarrow> do { s' \<leftarrow> poll_step A cl i s; poll_pass A cl k s' }
      | _ \<Rightarrow> State_Monad.return s)"

definition flying :: "int \<times> ptr \<Rightarrow> bool" where
  "flying a \<longleftrightarrow> fst a = error_code WouldBlock"

definition verdict :: "int \<times> ptr \<Rightarrow> answer" where
  "verdict a = (if fst a = 0 then Inr (Response (snd a)) else Inl (error_from_code (fst a)))"

definition replies :: "'e owner \<Rightarrow> (nat \<times> answer) multiset" where
  "replies s = mset (ow_sent s) + mset (ow_refused s)"

lemma replies_simps [simp]:
  "replies (s\<lparr>ow_pending := ps\<rparr>) = replies s" "replies (s\<lparr>ow_phase := p\<rparr>) = replies s"
  "replies (settle s r x) = add_mset (r, x) (replies s)"
  by (simp_all add: replies_def settle_def)

definition polls :: "'c client \<Rightarrow> 'c world \<Rightarrow> nat" where
  "polls cl w = length (filter (\<lambda>e. e = Use KClient (cl_raw cl)) (history w))"

lemma poll_step_answer:
  assumes "ow_pending s ! i = (ident, r)" and "i < length (ow_pending s)" and "ow_phase s = Polling i"
    and "fst (c_client_request_poll A (cl_raw cl) ident (lib w)) = a"
    and "run_state (poll_step A cl i s) w = (s', w')"
  shows "polls cl w' = Suc (polls cl w) \<and>
    (if flying a then s' = s\<lparr>ow_phase := Polling (Suc i)\<rparr>
     else s' = settle (s\<lparr>ow_pending := swap_remove i (ow_pending s)\<rparr>) r (verdict a))"
proof -
  obtain rc out c where p: "c_client_request_poll A (cl_raw cl) ident (lib w) = ((rc, out), c)"
    by (metis prod.collapse)
  have a: "a = (rc, out)" using assms(4) p by simp
  consider "rc = 0" | "rc = error_code WouldBlock" "rc \<noteq> 0" | "rc \<noteq> 0" "rc \<noteq> error_code WouldBlock" by blast
  then show ?thesis
  proof cases
    case 1
    then show ?thesis
      using assms p a
      by (auto simp: poll_step_def client_poll_request_def poll_result_def run_deliver response_drop_def
          polls_def flying_def verdict_def)
  next
    case 2
    then show ?thesis
      using assms p a
      by (auto simp: poll_step_def client_poll_request_def poll_result_def run_deliver polls_def flying_def)
  next
    case 3
    then show ?thesis
      using assms p a
      by (auto simp: poll_step_def client_poll_request_def poll_result_def run_deliver polls_def flying_def
          verdict_def)
  qed
qed

lemma poll_pass_exact_from:
  assumes "ow_phase s = Polling i" and "i \<le> length (ow_pending s)" and "length (ow_pending s) - i < k"
    and "\<And>ident r c. (ident, r) \<in> set (drop i (ow_pending s)) \<Longrightarrow>
      fst (c_client_request_poll A (cl_raw cl) ident c) = ans ident"
    and "run_state (poll_pass A cl k s) w = (s', w')"
  shows "ow_phase s' = Waiting \<and>
    mset (ow_pending s') = mset (take i (ow_pending s)) +
      filter_mset (\<lambda>p. flying (ans (fst p))) (mset (drop i (ow_pending s))) \<and>
    replies s' = replies s + image_mset (\<lambda>p. (snd p, verdict (ans (fst p))))
      (filter_mset (\<lambda>p. \<not> flying (ans (fst p))) (mset (drop i (ow_pending s)))) \<and>
    polls cl w' = polls cl w + (length (ow_pending s) - i)"
  using assms
proof (induction k arbitrary: s i w)
  case 0
  then show ?case by simp
next
  case (Suc k)
  let ?ps = "ow_pending s"
  show ?case
  proof (cases "i < length ?ps")
    case False
    then have "poll_step A cl i s = State_Monad.return (s\<lparr>ow_phase := Waiting\<rparr>)"
      by (simp add: poll_step_def)
    with Suc.prems False show ?thesis
      by (cases k) auto
  next
    case True
    obtain ident r where e: "?ps ! i = (ident, r)" by (metis prod.collapse)
    have d: "drop i ?ps = (ident, r) # drop (Suc i) ?ps"
      using True e by (simp add: Cons_nth_drop_Suc [symmetric])
    have a: "fst (c_client_request_poll A (cl_raw cl) ident (lib w)) = ans ident"
      using Suc.prems(4) [of ident r] d by simp
    obtain s1 w1 where st: "run_state (poll_step A cl i s) w = (s1, w1)" by (metis prod.collapse)
    have rest: "run_state (poll_pass A cl k s1) w1 = (s', w')"
      using Suc.prems(1,5) st by simp
    note one = poll_step_answer [OF e True Suc.prems(1) a st]
    show ?thesis
    proof (cases "flying (ans ident)")
      case fl: True
      then have s1: "s1 = s\<lparr>ow_phase := Polling (Suc i)\<rparr>" using one by simp
      have "ow_phase s' = Waiting \<and>
          mset (ow_pending s') = mset (take (Suc i) (ow_pending s1)) +
            filter_mset (\<lambda>p. flying (ans (fst p))) (mset (drop (Suc i) (ow_pending s1))) \<and>
          replies s' = replies s1 + image_mset (\<lambda>p. (snd p, verdict (ans (fst p))))
            (filter_mset (\<lambda>p. \<not> flying (ans (fst p))) (mset (drop (Suc i) (ow_pending s1)))) \<and>
          polls cl w' = polls cl w1 + (length (ow_pending s1) - Suc i)"
        by (rule Suc.IH [OF _ _ _ _ rest]) (use Suc.prems True d s1 in auto)
      then show ?thesis
        using fl one True e by (simp add: s1 d take_Suc_conv_app_nth)
    next
      case ld: False
      let ?qs = "swap_remove i ?ps"
      have s1: "s1 = settle (s\<lparr>ow_pending := ?qs\<rparr>) r (verdict (ans ident))" using one ld by simp
      have m: "mset (drop i ?ps) = add_mset (ident, r) (mset (drop i ?qs))"
        using mset_drop_swap_remove [OF True] e by simp
      have sub: "set (drop i ?qs) \<subseteq> set (drop i ?ps)"
        using arg_cong [OF m, of set_mset] by auto
      have "ow_phase s' = Waiting \<and>
          mset (ow_pending s') = mset (take i (ow_pending s1)) +
            filter_mset (\<lambda>p. flying (ans (fst p))) (mset (drop i (ow_pending s1))) \<and>
          replies s' = replies s1 + image_mset (\<lambda>p. (snd p, verdict (ans (fst p))))
            (filter_mset (\<lambda>p. \<not> flying (ans (fst p))) (mset (drop i (ow_pending s1)))) \<and>
          polls cl w' = polls cl w1 + (length (ow_pending s1) - i)"
        by (rule Suc.IH [OF _ _ _ _ rest]) (use Suc.prems True sub s1 in auto)
      then show ?thesis
        using ld one True by (simp add: s1 m take_swap_remove)
    qed
  qed
qed

section \<open>Handles of the managed client\<close>

text \<open>Around a base \<open>m\<close>: the client until its thread stops, and the responses callers have received.\<close>

definition delivered :: "'e owner \<Rightarrow> (kind \<times> ptr) set" where
  "delivered s = {(KMessage, rp_msg resp) | r resp. (r, Inr resp) \<in> set (ow_sent s)}"

definition rt_monitor :: "monitor \<Rightarrow> 'c client \<Rightarrow> 'e owner \<Rightarrow> monitor" where
  "rt_monitor m cl s = m\<lparr>live := (if ow_phase s = Stopped then {} else {(KClient, cl_raw cl)}) \<union>
     delivered s \<union> live m\<rparr>"

definition rt_base :: "monitor \<Rightarrow> 'c client \<Rightarrow> bool" where
  "rt_base m cl \<longleftrightarrow> (KClient, cl_raw cl) \<notin> live m \<and> regs m (KClient, cl_raw cl) = None \<and>
     borrows m (KClient, cl_raw cl) = None \<and> cl_done cl = None \<and> cl_cache cl = None \<and>
     (\<forall>p. regs m (KMessage, p) = None \<and> borrows m (KMessage, p) = None)"

definition rt_inv :: "monitor \<Rightarrow> 'c client \<Rightarrow> 'e owner \<times> 'c world \<Rightarrow> bool" where
  "rt_inv m cl x \<longleftrightarrow> rt_base m cl \<and> coherent (snd x) (rt_monitor m cl (fst x))"

lemma delivered_simps [simp]:
  "delivered (s\<lparr>ow_pending := ps\<rparr>) = delivered s" "delivered (s\<lparr>ow_phase := p\<rparr>) = delivered s"
  "delivered (s\<lparr>ow_queue := q\<rparr>) = delivered s" "delivered (s\<lparr>ow_wake := e\<rparr>) = delivered s"
  "delivered (s\<lparr>ow_lost := ls\<rparr>) = delivered s" "delivered (settle s r (Inl e')) = delivered s"
  "delivered (settle s r (Inr resp)) =
     (if r \<in> ow_gone s then delivered s else insert (KMessage, rp_msg resp) (delivered s))"
  by (auto simp: delivered_def settle_def)

lemma delivered_settle_all [simp]: "delivered (settle_all s ps) = delivered s"
  by (induction s ps rule: settle_all.induct) simp_all

lemma delivered_closed_down [simp]: "delivered (closed_down s) = delivered s"
  by (simp add: closed_down_def leave_loop_def delivered_def settle_def)
    (metis delivered_def delivered_settle_all delivered_simps(1))

lemma rt_usable:
  assumes "rt_base m cl" and "ow_phase s \<noteq> Stopped"
  shows "usable (rt_monitor m cl s) (KClient, cl_raw cl)" and "reg_alive (rt_monitor m cl s) (KClient, cl_raw cl)"
  using assms by (auto simp: rt_monitor_def rt_base_def usable_def)

lemma client_callback_quiet: "cl_done cl = None \<Longrightarrow> preserves m (client_callback cl q)"
  by (simp add: client_callback_def preserves_return)

lemma survives_tick_preserves:
  assumes "usable m (KClient, cl_raw cl)" and "reg_alive m (KClient, cl_raw cl)" and "cl_done cl = None"
  shows "preserves m (survives_tick A cl now)"
  unfolding survives_tick_def client_tick_def client_is_alive_def
  by (intro keep_rules assms client_callback_quiet)

lemma submit_preserves:
  "usable m (KClient, cl_raw cl) \<Longrightarrow> preserves m (client_submit_request A cl mt path hs body)"
  unfolding client_submit_request_def by (intro keep_rules)

lemma wait_ms_preserves: "usable m (KClient, cl_raw cl) \<Longrightarrow> preserves m (wait_ms A cl now s)"
  unfolding wait_ms_def client_next_timeout_def by (intro keep_rules)

lemma rt_monitor_same:
  "delivered s' = delivered s \<Longrightarrow> (ow_phase s' = Stopped \<longleftrightarrow> ow_phase s = Stopped) \<Longrightarrow>
    rt_monitor m cl s' = rt_monitor m cl s"
  by (simp add: rt_monitor_def)

lemma poll_step_monitor:
  assumes "rt_inv m cl (s, w)" and "ow_phase s = Polling i"
    and "i < length (ow_pending s) \<Longrightarrow> \<forall>m. judged w = Some m \<longrightarrow>
      message_fresh (fst (c_client_request_poll A (cl_raw cl) (fst (ow_pending s ! i)) (lib w))) m"
    and "run_state (poll_step A cl i s) w = (s', w')"
  shows "rt_inv m cl (s', w')"
proof (cases "i < length (ow_pending s)")
  case False
  then have "s' = s\<lparr>ow_phase := Waiting\<rparr>" and "w' = w" using assms(4) by (auto simp: poll_step_def)
  then show ?thesis
    using assms(1,2) rt_monitor_same [of s' s m cl] by (simp add: rt_inv_def)
next
  case True
  obtain ident r where e: "ow_pending s ! i = (ident, r)" by (metis prod.collapse)
  obtain rc out c where p: "c_client_request_poll A (cl_raw cl) ident (lib w) = ((rc, out), c)"
    by (metis prod.collapse)
  let ?M = "rt_monitor m cl s" and ?msg = "(KMessage, out)"
  have b: "rt_base m cl" and coh: "coherent w ?M" using assms(1) by (simp_all add: rt_inv_def)
  have u: "usable ?M (KClient, cl_raw cl)" by (rule rt_usable(1) [OF b]) (simp add: assms(2))
  have j: "judged w = Some ?M" using coh by (simp add: coherent_def)
  have base: "regs ?M ?msg = None" "borrows ?M ?msg = None" using b by (simp_all add: rt_monitor_def rt_base_def)
  show ?thesis
  proof (cases "rc = 0")
    case False
    then have w': "history w' = history w @ [Use KClient (cl_raw cl)]" "slots w' = slots w" "next_box w' = next_box w"
      and s': "delivered s' = delivered s" "ow_phase s' \<noteq> Stopped"
      using assms(2,4) True e p
      by (auto simp: poll_step_def client_poll_request_def poll_result_def run_deliver split: if_splits)
    have "rt_monitor m cl s' = ?M" by (rule rt_monitor_same) (use s' assms(2) in simp_all)
    then show ?thesis using coh u w' b by (simp add: rt_inv_def coherent_def)
  next
    case ok: True
    have fresh: "?msg \<notin> live ?M"
      using assms(3) [OF True] j p ok e by (simp add: message_fresh_def)
    show ?thesis
    proof (cases "r \<in> ow_gone s")
      case True
      then have w': "history w' = history w @ [Use KClient (cl_raw cl), Acquire KMessage out, Release KMessage out]"
        "slots w' = slots w" "next_box w' = next_box w"
        and s': "delivered s' = delivered s" "ow_phase s' \<noteq> Stopped"
        using assms(2,4) \<open>i < length (ow_pending s)\<close> e p ok
        by (auto simp: poll_step_def client_poll_request_def poll_result_def run_deliver response_drop_def)
      have "rt_monitor m cl s' = ?M" by (rule rt_monitor_same) (use s' assms(2) in simp_all)
      then show ?thesis
        using coh u w' b fresh base by (auto simp: rt_inv_def coherent_def usable_def fun_upd_idem)
    next
      case False
      then have w': "history w' = history w @ [Use KClient (cl_raw cl), Acquire KMessage out]"
        "slots w' = slots w" "next_box w' = next_box w"
        and s': "delivered s' = insert ?msg (delivered s)" "ow_phase s' \<noteq> Stopped"
        using assms(2,4) \<open>i < length (ow_pending s)\<close> e p ok
        by (auto simp: poll_step_def client_poll_request_def poll_result_def run_deliver)
      have "rt_monitor m cl s' = ?M\<lparr>live := insert ?msg (live ?M)\<rparr>"
        using s' assms(2) by (auto simp: rt_monitor_def)
      then show ?thesis using coh u w' b by (auto simp: rt_inv_def coherent_def)
    qed
  qed
qed

lemma rt_inv_owner_step:
  assumes "owner_step E A cl (s, w) (s', w')" and "rt_inv m cl (s, w)"
  shows "rt_inv m cl (s', w')"
proof -
  have b: "rt_base m cl" and coh: "coherent w (rt_monitor m cl s)"
    using assms(2) by (simp_all add: rt_inv_def)
  have keep: "rt_inv m cl (s', w')"
    if "coherent w' (rt_monitor m cl s)" and "delivered s' = delivered s"
      and "ow_phase s' = Stopped \<longleftrightarrow> ow_phase s = Stopped"
    using that b rt_monitor_same by (metis fst_conv rt_inv_def snd_conv)
  show ?thesis
    using assms(1)
  proof (cases rule: owner_step.cases)
    case (receive c q)
    obtain mt path hs body r where c: "c = SendCommand mt path hs body r" by (cases c)
    obtain res v where run: "run_state (client_submit_request A cl mt path hs body) w = (res, v)"
      by (metis prod.collapse)
    have "coherent v (rt_monitor m cl s)"
      using preservesD [OF submit_preserves coh, of cl A mt path hs body] rt_usable(1) [OF b, of s] receive run
      by simp
    then show ?thesis
      using keep receive drain_step_received [OF run, of r "s\<lparr>ow_queue := q\<rparr>"] by (cases res) (simp_all add: c)
  next
    case drained
    then show ?thesis using keep coh by (simp add: drain_step_empty)
  next
    case disconnect
    then show ?thesis using keep coh by (simp add: drain_step_disconnected) (simp add: closed_down_def leave_loop_def)
  next
    case (tick now)
    obtain alive v where run: "run_state (survives_tick A cl now) w = (alive, v)" by (metis prod.collapse)
    have "coherent v (rt_monitor m cl s)"
      using preservesD [OF survives_tick_preserves coh, of cl A now] rt_usable [OF b, of s] tick run b
      by (simp add: rt_base_def)
    moreover have "s' = closed_down s \<or> s' = s\<lparr>ow_phase := Polling 0\<rparr>" and "w' = v"
      using tick run by (auto simp: tick_step_cases split: if_splits)
    ultimately show ?thesis using keep tick(2) by (auto simp: closed_down_def leave_loop_def)
  next
    case (poll i)
    then show ?thesis using poll_step_monitor [OF assms(2)] by metis
  next
    case (wait now)
    have "coherent w' (rt_monitor m cl s)"
      using preservesD [OF wait_ms_preserves coh, of cl A now s] rt_usable(1) [OF b, of s] wait
      by (auto simp: wait_step_def case_prod_beta)
    then show ?thesis using keep wait by (auto simp: wait_step_def case_prod_beta)
  next
    case (woken e)
    then show ?thesis using keep coh by simp
  next
    case stop
    have h: "history w' = history w @ [Release KClient (cl_raw cl)]" "slots w' = slots w" "next_box w' = next_box w"
      using stop b by (auto simp: client_drop_def drop_cache_ref_def rt_base_def)
    have "(KClient, cl_raw cl) \<notin> delivered s" by (auto simp: delivered_def)
    then have "live (rt_monitor m cl s) - {(KClient, cl_raw cl)} = live (rt_monitor m cl s')"
      using stop b by (auto simp: rt_monitor_def rt_base_def)
    then have "coherent w' (rt_monitor m cl s')"
      using coh h stop b rt_usable [OF b, of s]
      by (auto simp: coherent_def rt_monitor_def rt_base_def fun_upd_idem)
    with b show ?thesis by (simp add: rt_inv_def)
  qed
qed

interpretation handles: step_invariant "rt_step E A cl" "rt_inv m cl"
  for E :: "'e waker_api" and A :: "('c, 'x) client_api_scheme" and cl m
proof (unfold_locales, goal_cases)
  case (1 x y)
  then show ?case
  proof (induction rule: rt_step.induct)
    case (owner s w s' w')
    then show ?case by (rule rt_inv_owner_step)
  next
    case (caller s s' w)
    then have "ow_sent s' = ow_sent s \<and> ow_phase s' = ow_phase s" by (auto elim!: caller_stepE)
    then have "delivered s' = delivered s \<and> ow_phase s' = ow_phase s" by (simp add: delivered_def)
    with caller show ?case by (metis fst_conv rt_inv_def rt_monitor_same snd_conv)
  qed
qed

section \<open>Building a managed request\<close>

record async_request_builder =
  ar_method :: request_method
  ar_path :: string
  ar_headers :: "(string \<times> string) list"
  ar_body :: bytes

definition async_request :: "request_method \<Rightarrow> string \<Rightarrow> async_request_builder" where
  "async_request mt path = \<lparr>ar_method = mt, ar_path = path, ar_headers = [], ar_body = []\<rparr>"

definition async_header :: "string \<Rightarrow> string \<Rightarrow> async_request_builder \<Rightarrow> async_request_builder" where
  "async_header name val rb = rb\<lparr>ar_headers := ar_headers rb @ [(name, val)]\<rparr>"

definition async_body :: "bytes \<Rightarrow> async_request_builder \<Rightarrow> async_request_builder" where
  "async_body body rb = rb\<lparr>ar_body := body\<rparr>"

text \<open>The command that \<^verbatim>\<open>send\<close> dispatches, with its reply channel.\<close>

definition async_command :: "async_request_builder \<Rightarrow> nat \<Rightarrow> client_command" where
  "async_command rb r = SendCommand (ar_method rb) (ar_path rb) (ar_headers rb) (ar_body rb) r"

definition async_send :: "request_method \<Rightarrow> string \<Rightarrow> bytes \<Rightarrow> nat \<Rightarrow> client_command" where
  "async_send mt path body r = async_command (async_body body (async_request mt path)) r"

section \<open>Starting the owner thread\<close>

text \<open>
  What \<^verbatim>\<open>connect_async\<close> and its thread come to: an error for the caller, a caller that went away while
  connecting (the client is dropped on the thread), or a running client and its \<^verbatim>\<open>AsyncClient\<close>. Whether
  the waker and the thread can be made is the system's; a failure drops the builder.
\<close>

datatype 'c client_start = StartError error | CallerGone | ClientRunning "'c client"

definition client_connect_async ::
  "'c identity_api \<Rightarrow> ('c, 'x) client_api_scheme \<Rightarrow> bool \<Rightarrow> bool \<Rightarrow> bool \<Rightarrow> client_builder \<Rightarrow> node_id \<Rightarrow> address \<Rightarrow>
   ('c, 'c client_start) io" where
  "client_connect_async I A waker_made spawned gone b target addr =
     (if \<not> waker_made \<or> \<not> spawned then do {
        client_builder_drop I b;
        State_Monad.return (StartError Internal)
      }
      else do {
        r \<leftarrow> client_connect I A b target addr;
        (case r of
           Inl e \<Rightarrow> State_Monad.return (StartError e)
         | Inr cl \<Rightarrow>
             if gone then do { client_drop A cl; State_Monad.return CallerGone }
             else State_Monad.return (ClientRunning cl))
      })"

lemma client_connect_async_outcome:
  assumes "coherent w (with_caches m w)" and "no_caches m"
    and "\<And>kp. fresh_ptr KClient (c_client_connect A kp (node_id_raw target) (address_as_raw addr)) (lib w) m"
    and "run_state (client_connect_async I A wk sp gone b target addr) w = (r, w1)"
  shows "case r of ClientRunning cl \<Rightarrow> client_inv m (cl, w1) \<and> cl = client_wrap (cl_raw cl)
    | _ \<Rightarrow> coherent w1 (with_caches m w1)"
proof (cases "wk \<and> sp")
  case False
  then have "r = StartError Internal" and "history w1 = history w \<and> slots w1 = slots w \<and> next_box w1 = next_box w \<and>
      strong w1 = strong w"
    using assms(4) by (auto simp: client_connect_async_def client_builder_drop_def identity_drop_def
        split: option.splits)
  then show ?thesis
    using assms(1) coherent_same [OF assms(1), of w1] by (simp add: with_caches_def)
next
  case True
  obtain res v where c: "run_state (client_connect I A b target addr) w = (res, v)" by (metis prod.collapse)
  have o: "case res of Inl e \<Rightarrow> coherent v (with_caches m v) | Inr cl \<Rightarrow> client_inv m (cl, v)"
    by (rule client_connect_outcome [OF assms(1-3)]) (use c in \<open>simp add: client_connect_def\<close>)
  show ?thesis
  proof (cases res)
    case (Inl e)
    then show ?thesis using o c True assms(4) by (auto simp: client_connect_async_def)
  next
    case (Inr cl)
    have "cl = client_wrap (cl_raw cl)"
      using c Inr by (auto simp: client_connect_def with_identity_def client_wrap_def case_prod_beta
          split: option.splits sum.splits prod.splits)
    then show ?thesis
      using o c True assms(4) Inr client_drop_outcome [of m cl v]
      by (auto simp: client_connect_async_def case_prod_beta split: if_splits)
  qed
qed

section \<open>Properties\<close>

abbreviation sample_command :: client_command where
  "sample_command \<equiv> SendCommand Read ''/x'' [] [] 7"

text \<open>A caller dispatches, the owner submits, the client is dropped, the owner fails what is in flight.\<close>

abbreviation sample_flight :: "nat owner" where
  "sample_flight \<equiv> (owner_start 0)\<lparr>ow_issued := [7], ow_owed := 1, ow_pending := [(1, 7)]\<rparr>"

abbreviation sample_closed :: "nat owner" where
  "sample_closed \<equiv> sample_flight\<lparr>ow_open := False, ow_owed := 2\<rparr>"

abbreviation sample_failed :: "nat owner" where
  "sample_failed \<equiv> sample_closed\<lparr>ow_pending := [], ow_sent := [(7, Inl NetworkClosed)], ow_phase := Leaving\<rparr>"

lemma sample_submit:
  "\<exists>v. (rt_step counter_eventfd sample_client_api (client_wrap 5))\<^sup>*\<^sup>* (owner_start 0, w) (sample_flight, v) \<and>
    lib v = lib w \<and> history v = history w @ [Use KClient 5]"
proof -
  let ?R = "rt_step counter_eventfd sample_client_api (client_wrap 5)"
  let ?q = "(owner_start 0)\<lparr>ow_queue := [sample_command], ow_issued := [7], ow_owed := 1\<rparr> :: nat owner"
  have "caller_step counter_eventfd (owner_start 0) ?q"
    using caller_step.enqueue [of "owner_start 0 :: nat owner" sample_command counter_eventfd]
    by (simp add: owner_start_def receiving_def command_capacity_def)
  then have 1: "?R (owner_start 0, w) (?q, w)" by (rule rt_step.caller)
  obtain v where sub: "run_state (client_submit_request sample_client_api (client_wrap 5) Read ''/x'' [] []) w = (Inr 1, v)"
    and v: "lib v = lib w" "history v = history w @ [Use KClient 5]"
    by (simp add: client_submit_request_def client_wrap_def cstring_new_def request_cstrings_eq request_clean_def
        error_check_def sample_client_simps)
  have run: "run_state (drain_step sample_client_api (client_wrap 5) (Received sample_command)
      (?q\<lparr>ow_queue := []\<rparr>)) w = (sample_flight, v)"
    by (simp add: drain_step_def sub owner_start_def)
  have "owner_step counter_eventfd sample_client_api (client_wrap 5) (?q, w) (sample_flight, v)"
    using owner_step.receive [of ?q sample_command "[]" counter_eventfd sample_client_api "client_wrap 5" w] run
    by (simp add: owner_start_def)
  then have "?R (?q, w) (sample_flight, v)" by (rule rt_step.owner)
  with 1 v show ?thesis by (meson rtranclp.rtrancl_into_rtrancl rtranclp.rtrancl_refl)
qed

lemma sample_close:
  "(rt_step counter_eventfd sample_client_api (client_wrap 5))\<^sup>*\<^sup>* (sample_flight, v) (sample_failed, v)"
proof -
  let ?R = "rt_step counter_eventfd sample_client_api (client_wrap 5)"
  have "caller_step counter_eventfd sample_flight sample_closed"
    using caller_step.close [of sample_flight counter_eventfd] by (simp add: owner_start_def numeral_2_eq_2)
  then have 1: "?R (sample_flight, v) (sample_closed, v)" by (rule rt_step.caller)
  have run: "run_state (drain_step sample_client_api (client_wrap 5) Disconnected sample_closed) v =
      (sample_failed, v)"
    by (simp add: drain_step_def fail_pending_def deliver_def leave_loop_def owner_start_def)
  have "owner_step counter_eventfd sample_client_api (client_wrap 5) (sample_closed, v) (sample_failed, v)"
    using owner_step.disconnect [of sample_closed counter_eventfd sample_client_api "client_wrap 5" v] run
    by (simp add: owner_start_def)
  then have "?R (sample_closed, v) (sample_failed, v)" by (rule rt_step.owner)
  with 1 show ?thesis by (meson rtranclp.rtrancl_into_rtrancl rtranclp.rtrancl_refl)
qed

lemma sample_tick:
  "\<exists>v. run_state (tick_step sample_client_api (client_wrap 5) 0 ((owner_start 0)\<lparr>ow_phase := Ticking\<rparr>)) (world_init 1) =
    ((owner_start 0)\<lparr>ow_phase := Polling 0\<rparr>, v)"
  by (simp add: tick_step_cases survives_tick_def client_tick_def client_is_alive_def client_wrap_def
      client_callback_def error_check_def sample_client_simps world_init_def)

text \<open>
  C1. The managed client keeps its contract under every interleaving of its thread with callers,
  futures dropped mid-flight, and the drop of the client: the run is a run of the abstract service in
  which a dispatch waits until it is answered once; every dispatch issued is waiting or answered;
  answers never change or get lost; once the thread has stopped nothing waits; and what an await
  returns is that answer, unless the caller had already gone when it was sent.
\<close>

theorem managed_client_implements_service:
  fixes A :: "('c, 'x) client_api_scheme"
  assumes "(rt_step E A cl)\<^sup>*\<^sup>* (owner_start e, w) (s, v)" and "(rt_step E A cl)\<^sup>*\<^sup>* (s, v) (s', v')"
  shows "service_step\<^sup>*\<^sup>* service_start (service_of s) \<and> service_step\<^sup>*\<^sup>* (service_of s) (service_of s') \<and>
    set (ow_issued s') = waiting_of s' \<union> dom (answers_of s') \<and> waiting_of s' \<inter> dom (answers_of s') = {} \<and>
    answers_of s \<subseteq>\<^sub>m answers_of s' \<and>
    (ow_phase s' = Stopped \<longrightarrow> waiting_of s' = {}) \<and>
    (r \<notin> fst ` set (ow_refused s') \<longrightarrow> caller_result s' r = answers_of s' r)"
proof -
  have acc: "accounted s" "accounted s'"
    using accounting.reach_keeps [OF assms(1)] accounting.reach_keeps [OF assms(2)] accounted_start [of e]
    by simp_all
  have "service_of (owner_start e) = service_start"
    by (simp add: service_of_def service_start_def owner_start_def waiting_of_def answers_of_def)
  then have sim: "service_step\<^sup>*\<^sup>* service_start (service_of s)" "service_step\<^sup>*\<^sup>* (service_of s) (service_of s')"
    using refines.reach_simulated [OF assms(1)] refines.reach_simulated [OF assms(2)] acc accounted_start
    by (metis fst_conv)+
  have "answers_of s \<subseteq>\<^sub>m answers_of s'"
    using service_answers_stay [OF sim(2)] accounted_parts(2) [OF acc(1)] by (simp add: service_of_def)
  moreover have "caller_result s' r = answers_of s' r" if "r \<notin> fst ` set (ow_refused s')"
  proof -
    have "map_of (ow_refused s') r = None" using that by (simp add: map_of_eq_None_iff)
    then show ?thesis
      by (simp add: caller_result_def answers_of_def map_add_def map_of_const split: option.split)
  qed
  moreover have "ow_phase s' = Stopped \<longrightarrow> waiting_of s' = {}"
    using acc(2) by (simp add: accounted_def receiving_def waiting_of_def)
  moreover have "waiting_of s' \<inter> dom (answers_of s') = {}"
    using accounted_parts(2) [OF acc(2)] by (metis disjoint_iff domIff)
  ultimately show ?thesis
    using sim accounted_parts(3) [OF acc(2)] by simp
qed

theorem managed_client_implements_service_witness:
  "caller_result sample_failed 7 = Some (Inl NetworkClosed) \<and> answers_of sample_flight \<subseteq>\<^sub>m answers_of sample_failed"
proof -
  obtain v where 1: "(rt_step counter_eventfd sample_client_api (client_wrap 5))\<^sup>*\<^sup>*
      (owner_start 0, world_init 0) (sample_flight, v)"
    using sample_submit by blast
  have "(rt_step counter_eventfd sample_client_api (client_wrap 5))\<^sup>*\<^sup>* (sample_flight, v) (sample_failed, v)"
    by (rule sample_close)
  from managed_client_implements_service [OF 1 this, of 7] show ?thesis
    by (auto simp: answers_of_def owner_start_def)
qed

text \<open>
  C7. No wakeup is lost: whenever the managed client's thread is about to sleep while a command is queued
  or the client has been dropped, and no caller is still between its enqueue and its wake, the eventfd
  it sleeps on is readable, so the wait returns at once instead of after the poll cap.
\<close>

theorem no_wakeup_lost:
  fixes A :: "('c, 'x) client_api_scheme"
  assumes "waker_contract E" and "(rt_step E A cl)\<^sup>*\<^sup>* (owner_start e, w) (s, v)"
    and "ow_phase s = Waiting" and "ow_queue s \<noteq> [] \<or> \<not> ow_open s" and "ow_owed s = 0"
  shows "wk_ready E (ow_wake s)"
  using wakeups.reach_keeps [OF assms(2)] will_wake_start [of E e] assms(1,3-5) by (simp add: will_wake_def)

theorem no_wakeup_lost_witness:
  "wk_ready counter_eventfd 1 \<and> (\<exists>v. (rt_step counter_eventfd sample_client_api (client_wrap 5))\<^sup>*\<^sup>*
    (owner_start 0, world_init 1)
    ((owner_start 0)\<lparr>ow_phase := Waiting, ow_open := False, ow_wake := 1\<rparr>, v))"
proof -
  let ?E = counter_eventfd and ?A = sample_client_api and ?cl = "client_wrap 5 :: nat client"
  let ?s0 = "owner_start 0 :: nat owner"
  let ?s1 = "?s0\<lparr>ow_phase := Ticking\<rparr>" and ?s2 = "?s0\<lparr>ow_phase := Polling 0\<rparr>"
  let ?s3 = "?s0\<lparr>ow_phase := Waiting\<rparr>"
  let ?s4 = "?s3\<lparr>ow_open := False, ow_owed := 1\<rparr>" and ?s5 = "?s3\<lparr>ow_open := False, ow_wake := 1\<rparr>"
  let ?w = "world_init 1 :: nat world"
  obtain v where t: "run_state (tick_step ?A ?cl 0 ?s1) ?w = (?s2, v)"
    using sample_tick by blast
  have "owner_step ?E ?A ?cl (?s0, ?w) (?s1, ?w)"
    using owner_step.drained [of ?s0 ?E ?A ?cl ?w] by (simp add: drain_step_empty owner_start_def)
  moreover have "owner_step ?E ?A ?cl (?s1, ?w) (?s2, v)"
    using owner_step.tick [of ?s1 ?E ?A ?cl ?w 0] t by (simp add: owner_start_def)
  moreover have "owner_step ?E ?A ?cl (?s2, v) (?s3, v)"
    using owner_step.poll [of ?s2 0 v ?A ?cl ?E] by (simp add: poll_step_def owner_start_def)
  moreover have "caller_step ?E ?s3 ?s4"
    using caller_step.close [of ?s3 ?E] by (simp add: owner_start_def)
  moreover have "caller_step ?E ?s4 ?s5"
    using caller_step.wake [of ?s4 0 ?E] by (simp add: owner_start_def waker_wake_def counter_eventfd_def)
  ultimately have r: "(rt_step ?E ?A ?cl)\<^sup>*\<^sup>* (?s0, ?w) (?s5, v)"
    by (meson rt_step.owner rt_step.caller rtranclp.rtrancl_into_rtrancl rtranclp.rtrancl_refl)
  have "wk_ready ?E (ow_wake ?s5)"
    by (rule no_wakeup_lost [OF counter_eventfd_contract r]) (simp_all add: owner_start_def)
  with r show ?thesis by auto
qed

text \<open>
  C6. Dropping the managed client stops its thread: once the sender is gone the thread can take at most
  \<open>steps_left\<close> more steps of its own, so it never runs on, and until it has stopped a step is always
  possible, so it never hangs. Each step is one library call or less (a call, a reply or a loop test).
\<close>

theorem owner_winds_down:
  fixes A :: "('c, 'x) client_api_scheme"
  assumes "waker_contract E" and "\<not> ow_open s" and "((owner_step E A cl) ^^ n) (s, w) (s', w')"
    and "\<And>i m. i < length (ow_pending s') \<Longrightarrow> judged w' = Some m \<Longrightarrow>
      message_fresh (fst (c_client_request_poll A (cl_raw cl) (fst (ow_pending s' ! i)) (lib w'))) m"
  shows "n + steps_left s' \<le> steps_left s \<and> (steps_left s' = 0 \<longleftrightarrow> ow_phase s' = Stopped) \<and>
    (ow_phase s' = Stopped \<or> (\<exists>y. owner_step E A cl (s', w') y))"
proof -
  have "steps_left s' = 0 \<longleftrightarrow> ow_phase s' = Stopped" by (simp add: steps_left_def split: phase.split)
  then show ?thesis
    using owner_steps_bounded [OF assms(3,2)] owner_progress [OF assms(1), of s' w' A cl] assms(4) by blast
qed

theorem owner_winds_down_witness:
  "steps_left sample_closed = 2 \<and> \<not> ((owner_step counter_eventfd sample_client_api (client_wrap 5)) ^^ 3)
    (sample_closed, world_init 1) (sample_failed, world_init 1) \<and>
   (\<exists>y. owner_step counter_eventfd sample_client_api (client_wrap 5) (sample_closed, world_init 1) y)"
proof -
  have o: "\<not> ow_open sample_closed" by simp
  have l: "steps_left sample_closed = 2" by (simp add: steps_left_def owner_start_def)
  have f: "message_fresh (fst (c_client_request_poll sample_client_api (cl_raw (client_wrap 5))
      (fst (ow_pending s' ! i)) (lib (world_init 1)))) m"
    if "i < length (ow_pending s')" and "judged (world_init (1::nat)) = Some m" for s' :: "nat owner" and i m
    using that(2) by (auto simp: message_fresh_def world_init_def mon_init_def)
  have "((owner_step counter_eventfd sample_client_api (client_wrap 5)) ^^ 0)
      (sample_closed, world_init 1) (sample_closed, world_init 1)" by simp
  from owner_winds_down [OF counter_eventfd_contract o this f]
  have "\<exists>y. owner_step counter_eventfd sample_client_api (client_wrap 5) (sample_closed, world_init 1) y"
    by (auto simp: owner_start_def)
  moreover have "\<not> ((owner_step counter_eventfd sample_client_api (client_wrap 5)) ^^ 3)
    (sample_closed, world_init 1) (sample_failed, world_init 1)"
    using owner_winds_down [where n = 3 and s' = sample_failed, OF counter_eventfd_contract o _ f] l by auto
  ultimately show ?thesis using l by simp
qed


text \<open>Even ids finish, odd ids are in flight.\<close>

definition parity_client_api :: "nat client_api" where
  "parity_client_api = sample_client_api\<lparr>c_client_request_poll :=
     (\<lambda>p i c. ((if even (unat i) then 0 else -803, unat i), c))\<rparr>"




text \<open>
  The managed client's thread never sleeps past its cap, and idles at the cap: the wait is at most 200 ms,
  exactly 200 ms with nothing in flight (without asking the library), and otherwise the library's next
  timeout where that is shorter.
\<close>

lemma wait_ms_capped:
  "fst (run_state (wait_ms A cl now s) w) \<le> poll_cap_ms \<and>
   (ow_pending s = [] \<longrightarrow> run_state (wait_ms A cl now s) w = (200, w)) \<and>
   (ow_pending s \<noteq> [] \<longrightarrow> fst (run_state (wait_ms A cl now s) w) =
     (case fst (run_state (client_next_timeout A cl now) w) of None \<Rightarrow> 200 | Some t \<Rightarrow> min t 200))"
  by (auto simp: wait_ms_def poll_cap_ms_def case_prod_beta opt_unwrap_or_def split: option.split)

text \<open>
  A managed request is the driven request: when the owner receives the command of an async builder, it makes
  exactly the library call that the driven builder's \<^verbatim>\<open>submit\<close> makes for the same method, path, headers and
  body; the id joins the requests in flight with its reply channel, and a refusal is replied at once.
\<close>

lemma managed_request_is_request:
  "run_state (drain_step A cl (Received (async_command (async_body body
       (fold (\<lambda>(n, v). async_header n v) hs (async_request mt path))) r)) s) w =
    (case run_state (request_submit A (request_set_body
        (fold (\<lambda>(n, v) rb. request_add_header rb n v) hs (client_request cl mt path)) body)) w of
       (res, w') \<Rightarrow>
         (case res of
            Inr h \<Rightarrow> s\<lparr>ow_pending := ow_pending s @ [(rh_id h, r)]\<rparr>
          | Inl e \<Rightarrow> settle s r (Inl e), w'))"
proof -
  have "fold (\<lambda>(n, v). async_header n v) hs rb = rb\<lparr>ar_headers := ar_headers rb @ hs\<rparr>" for rb
    by (induction hs arbitrary: rb) (auto simp: async_header_def)
  then have c: "async_command (async_body body (fold (\<lambda>(n, v). async_header n v) hs (async_request mt path))) r =
      SendCommand mt path hs body r"
    by (simp add: async_command_def async_body_def async_request_def)
  let ?driven = "request_submit A (request_set_body
    (fold (\<lambda>(n, v) rb. request_add_header rb n v) hs (client_request cl mt path)) body)"
  obtain res v where d: "run_state ?driven w = (res, v)" by (metis prod.collapse)
  have "run_state (client_submit_request A cl mt path hs body) w = (map_ok rh_id res, v)"
    unfolding submit_request_is_submit by (simp add: d)
  then show ?thesis
    unfolding c d by (cases res) (simp_all add: drain_step_received)
qed

end
