(* ===== verification/RuntimeServer.thy ===== *)
theory RuntimeServer
  imports RuntimeClient Dht
begin

text \<open>
  The managed server of \<^verbatim>\<open>nwep/src/runtime.rs\<close>: starting the owner thread (build, attach the dht, report),
  its loop (tick, dht timers, re-announcing, commands, wait) and the synchronous resolve it runs.

  Everything the loop reads from outside the handles is an argument: the stop flag, the clocks and the
  commands that \<^verbatim>\<open>try_recv\<close> yields come in a \<open>round\<close>, one per iteration, so a list of rounds is the fuel
  of the loop and running out of it is an outcome of its own.
\<close>

section \<open>State\<close>

definition announce_interval_secs :: u64 where
  "announce_interval_secs = 30"

text \<open>One reading of the three clocks; the instant is in nanoseconds.\<close>

record reading =
  rd_instant :: int
  rd_ms :: int
  rd_secs :: u64

datatype server_command = Resolve node_id nat nat | MetricsOf nat

datatype server_reply = Resolved "error + address" | Counters dht_metrics

text \<open>A received command comes with the readings its resolve takes, the first before its loop.\<close>

record round =
  rn_stop :: bool
  rn_ms :: int
  rn_secs :: u64
  rn_commands :: "(server_command \<times> reading \<times> reading list) list"
  rn_wait_ms :: int
  rn_wait_secs :: u64

text \<open>The loop's local, and a log of the announcements and of the replies.\<close>

record loop_state =
  sl_announced_at :: u64
  sl_announced :: "u64 list"
  sl_replies :: "(nat \<times> server_reply) list"

definition loop_start :: loop_state where
  "loop_start = \<lparr>sl_announced_at = 0, sl_announced = [], sl_replies = []\<rparr>"

text \<open>\<open>GoesOn\<close> and \<open>InResolve\<close>: the rounds, or the readings of a resolve, ran out.\<close>

datatype loop_end = GoesOn | InResolve | Ended | Panicked

section \<open>Attaching the dht\<close>

definition attach_managed_dht ::
  "('c, 'y) dht_api_scheme \<Rightarrow> 'c server \<Rightarrow> bootstrap list \<Rightarrow> u64 \<Rightarrow> u64 \<Rightarrow> ('c, dht) io_result" where
  "attach_managed_dht D sv contacts initial_seq now =
     try_ok (dht_attach D (dht_set_initial_seq initial_seq (dht_add_bootstraps contacts (dht_builder sv))))
       (\<lambda>d. do {
          joined \<leftarrow> dht_join D d now;
          (case joined of
             Inl e \<Rightarrow> do { dht_drop D d; ret_err e }
           | Inr _ \<Rightarrow> ret_ok d)
        })"

section \<open>Resolving on the owner thread\<close>

text \<open>How long one turn of the resolve sleeps.\<close>

definition resolve_wait :: "u32 option \<Rightarrow> u32" where
  "resolve_wait t = min (opt_unwrap_or t 20) 20"

fun resolve_loop ::
  "('c, 'x) server_api_scheme \<Rightarrow> ('c, 'y) dht_api_scheme \<Rightarrow> 'c server \<Rightarrow> dht \<Rightarrow> node_id \<Rightarrow> int \<Rightarrow> reading list \<Rightarrow>
   ('c, (error + address) option) io" where
  "resolve_loop A D sv d target deadline [] = State_Monad.return None"
| "resolve_loop A D sv d target deadline (rd # rds) =
     (if rd_instant rd < deadline then do {
        ticked \<leftarrow> server_tick A sv (rd_ms rd);
        (case ticked of
           Inl e \<Rightarrow> State_Monad.return (Some (Inl e))
         | Inr _ \<Rightarrow> do {
             dticked \<leftarrow> dht_tick D d (rd_secs rd);
             (case dticked of
                Inl e \<Rightarrow> State_Monad.return (Some (Inl e))
              | Inr _ \<Rightarrow> do {
                  found \<leftarrow> dht_lookup_result D d target;
                  (case found of
                     Some rec \<Rightarrow> State_Monad.return (Some (Inr (record_address rec)))
                   | None \<Rightarrow> do {
                       _ \<leftarrow> dht_next_timeout D d (rd_secs rd);
                       _ \<leftarrow> server_fd A sv;
                       resolve_loop A D sv d target deadline rds
                     })
                })
           })
      }
      else State_Monad.return (Some (Inl IdentityNotFound)))"

definition resolve_on_thread ::
  "('c, 'x) server_api_scheme \<Rightarrow> ('c, 'y) dht_api_scheme \<Rightarrow> 'c server \<Rightarrow> dht \<Rightarrow> node_id \<Rightarrow> nat \<Rightarrow>
   reading \<Rightarrow> reading list \<Rightarrow> ('c, (error + address) option) io" where
  "resolve_on_thread A D sv d target timeout rd rds = do {
     found \<leftarrow> dht_lookup_result D d target;
     (case found of
        Some rec \<Rightarrow> State_Monad.return (Some (Inr (record_address rec)))
      | None \<Rightarrow> do {
          started \<leftarrow> dht_start_lookup D d target (rd_secs rd);
          (case started of
             Inl e \<Rightarrow> State_Monad.return (Some (Inl e))
           | Inr _ \<Rightarrow> resolve_loop A D sv d target (rd_instant rd + int timeout) rds)
        })
   }"

section \<open>The owner loop\<close>

text \<open>
  \<^verbatim>\<open>announced_at == 0 || secs - announced_at >= ANNOUNCE_INTERVAL_SECS\<close>. With overflow checks compiled in
  the subtraction panics (\<open>None\<close>) when the clock has stepped back, without them it wraps.
\<close>

definition announce_due :: "bool \<Rightarrow> u64 \<Rightarrow> u64 \<Rightarrow> bool option" where
  "announce_due overflow_checks announced_at secs =
     (if announced_at = 0 then Some True
      else if overflow_checks \<and> secs < announced_at then None
      else Some (announce_interval_secs \<le> secs - announced_at))"

definition announce_step ::
  "('c, 'y) dht_api_scheme \<Rightarrow> bool \<Rightarrow> dht \<Rightarrow> address option \<Rightarrow> u64 \<Rightarrow> loop_state \<Rightarrow> ('c, loop_state option) io" where
  "announce_step D overflow_checks d announce secs s =
     (case announce of
        None \<Rightarrow> State_Monad.return (Some s)
      | Some addr \<Rightarrow>
          (case announce_due overflow_checks (sl_announced_at s) secs of
             None \<Rightarrow> State_Monad.return None
           | Some False \<Rightarrow> State_Monad.return (Some s)
           | Some True \<Rightarrow> do {
               _ \<leftarrow> dht_announce D d addr secs;
               State_Monad.return (Some (s\<lparr>sl_announced_at := secs, sl_announced := sl_announced s @ [secs]\<rparr>))
             }))"

text \<open>\<^verbatim>\<open>while let Ok(cmd) = cmd_rx.try_recv()\<close>.\<close>

fun service_commands ::
  "('c, 'x) server_api_scheme \<Rightarrow> ('c, 'y) dht_api_scheme \<Rightarrow> 'c server \<Rightarrow> dht \<Rightarrow>
   (server_command \<times> reading \<times> reading list) list \<Rightarrow> loop_state \<Rightarrow> ('c, loop_end \<times> loop_state) io" where
  "service_commands A D sv d [] s = State_Monad.return (GoesOn, s)"
| "service_commands A D sv d ((Resolve target timeout r, rd, rds) # cs) s = do {
     answer \<leftarrow> resolve_on_thread A D sv d target timeout rd rds;
     (case answer of
        None \<Rightarrow> State_Monad.return (InResolve, s)
      | Some x \<Rightarrow> service_commands A D sv d cs (s\<lparr>sl_replies := sl_replies s @ [(r, Resolved x)]\<rparr>))
   }"
| "service_commands A D sv d ((MetricsOf r, _) # cs) s = do {
     m \<leftarrow> dht_metrics_get D d;
     service_commands A D sv d cs (s\<lparr>sl_replies := sl_replies s @ [(r, Counters m)]\<rparr>)
   }"

definition dht_round ::
  "('c, 'x) server_api_scheme \<Rightarrow> ('c, 'y) dht_api_scheme \<Rightarrow> bool \<Rightarrow> 'c server \<Rightarrow> dht \<Rightarrow> address option \<Rightarrow> round \<Rightarrow>
   loop_state \<Rightarrow> ('c, loop_end \<times> loop_state) io" where
  "dht_round A D overflow_checks sv d announce rn s = do {
     _ \<leftarrow> dht_tick D d (rn_secs rn);
     announced \<leftarrow> announce_step D overflow_checks d announce (rn_secs rn) s;
     (case announced of
        None \<Rightarrow> State_Monad.return (Panicked, s)
      | Some s' \<Rightarrow> service_commands A D sv d (rn_commands rn) s')
   }"

definition server_wait ::
  "('c, 'x) server_api_scheme \<Rightarrow> ('c, 'y) dht_api_scheme \<Rightarrow> 'c server \<Rightarrow> dht option \<Rightarrow> int \<Rightarrow> u64 \<Rightarrow> ('c, u32) io" where
  "server_wait A D sv dht ms secs = do {
     t \<leftarrow> server_next_timeout A sv ms;
     let wait = opt_unwrap_or t poll_cap_ms;
     wait' \<leftarrow> (case dht of
         None \<Rightarrow> State_Monad.return wait
       | Some d \<Rightarrow> do {
           t' \<leftarrow> dht_next_timeout D d secs;
           State_Monad.return (case t' of None \<Rightarrow> wait | Some n \<Rightarrow> min wait n)
         });
     _ \<leftarrow> server_fd A sv;
     State_Monad.return (min wait' poll_cap_ms)
   }"

definition server_round ::
  "('c, 'x) server_api_scheme \<Rightarrow> ('c, 'y) dht_api_scheme \<Rightarrow> bool \<Rightarrow> 'c server \<Rightarrow> dht option \<Rightarrow> address option \<Rightarrow> round \<Rightarrow>
   loop_state \<Rightarrow> ('c, loop_end \<times> loop_state) io" where
  "server_round A D overflow_checks sv dht announce rn s =
     (if rn_stop rn then State_Monad.return (Ended, s)
      else do {
        ticked \<leftarrow> server_tick A sv (rn_ms rn);
        (case ticked of
           Inl e \<Rightarrow> State_Monad.return (Ended, s)
         | Inr _ \<Rightarrow> do {
             served \<leftarrow> (case dht of
                 None \<Rightarrow> State_Monad.return (GoesOn, s)
               | Some d \<Rightarrow> dht_round A D overflow_checks sv d announce rn s);
             (case served of (out, s') \<Rightarrow>
                if out = GoesOn then do {
                  _ \<leftarrow> server_wait A D sv dht (rn_wait_ms rn) (rn_wait_secs rn);
                  State_Monad.return (GoesOn, s')
                }
                else State_Monad.return (out, s'))
           })
      })"

fun run_server_loop ::
  "('c, 'x) server_api_scheme \<Rightarrow> ('c, 'y) dht_api_scheme \<Rightarrow> bool \<Rightarrow> 'c server \<Rightarrow> dht option \<Rightarrow> address option \<Rightarrow>
   round list \<Rightarrow> loop_state \<Rightarrow> ('c, loop_end \<times> loop_state) io" where
  "run_server_loop A D overflow_checks sv dht announce [] s = State_Monad.return (GoesOn, s)"
| "run_server_loop A D overflow_checks sv dht announce (rn # rns) s = do {
     (out, s') \<leftarrow> server_round A D overflow_checks sv dht announce rn s;
     (if out = GoesOn then run_server_loop A D overflow_checks sv dht announce rns s'
      else State_Monad.return (out, s'))
   }"

section \<open>The owner thread\<close>

text \<open>What \<^verbatim>\<open>serve\<close> comes to before the loop, with everything an early return drops.\<close>

datatype 'c served = ServeFailed error | ServeUnheard
  | ServeReady node_id u16 "'c server" "dht option" "address option"

text \<open>The frame's locals drop in reverse order: the dht before the server it borrows.\<close>

definition frame_drop ::
  "('c, 'x) server_api_scheme \<Rightarrow> ('c, 'y) dht_api_scheme \<Rightarrow> 'c server \<Rightarrow> dht option \<Rightarrow> ('c, unit) io" where
  "frame_drop A D sv dht = do {
     (case dht of None \<Rightarrow> State_Monad.return () | Some d \<Rightarrow> dht_drop D d);
     server_drop A sv
   }"

definition attach_config ::
  "('c, 'y) dht_api_scheme \<Rightarrow> 'c server \<Rightarrow> (bootstrap list \<times> address option \<times> u64) option \<Rightarrow> u64 \<Rightarrow>
   ('c, dht option) io_result" where
  "attach_config D sv cfg now =
     (case cfg of
        None \<Rightarrow> ret_ok None
      | Some (contacts, ann, seq) \<Rightarrow>
          try_ok (attach_managed_dht D sv contacts seq now) (\<lambda>d. ret_ok (Some d)))"

definition server_info :: "('c, 'x) server_api_scheme \<Rightarrow> 'c server \<Rightarrow> ('c, node_id \<times> u16) io_result" where
  "server_info A sv = try_ok (server_node_id A sv) (\<lambda>n. do {
     p \<leftarrow> server_local_port A sv;
     ret_ok (n, p)
   })"

definition serve_start ::
  "'c identity_api \<Rightarrow> ('c, 'x) server_api_scheme \<Rightarrow> ('c, 'y) dht_api_scheme \<Rightarrow> bool \<Rightarrow> 'c server_builder \<Rightarrow> u64 \<Rightarrow>
   ('c, 'c served) io" where
  "serve_start I A D gone sb now =
     (case take_managed_dht sb of (cfg, sb') \<Rightarrow> do {
        built \<leftarrow> server_build I A sb';
        (case built of
           Inl e \<Rightarrow> State_Monad.return (ServeFailed e)
         | Inr sv \<Rightarrow> do {
             attached \<leftarrow> attach_config D sv cfg now;
             (case attached of
                Inl e \<Rightarrow> do { server_drop A sv; State_Monad.return (ServeFailed e) }
              | Inr dht \<Rightarrow> do {
                  info \<leftarrow> server_info A sv;
                  (case info of
                     Inl e \<Rightarrow> do { frame_drop A D sv dht; State_Monad.return (ServeFailed e) }
                   | Inr (n, p) \<Rightarrow>
                       if gone then do { frame_drop A D sv dht; State_Monad.return ServeUnheard }
                       else State_Monad.return (ServeReady n p sv dht (case cfg of None \<Rightarrow> None | Some (_, ann, _) \<Rightarrow> ann)))
                })
           })
      })"

text \<open>A panic unwinds through the frame, which drops the same locals.\<close>

definition server_thread ::
  "'c identity_api \<Rightarrow> ('c, 'x) server_api_scheme \<Rightarrow> ('c, 'y) dht_api_scheme \<Rightarrow> bool \<Rightarrow> bool \<Rightarrow> 'c server_builder \<Rightarrow> u64 \<Rightarrow>
   round list \<Rightarrow> ('c, 'c served \<times> (loop_end \<times> loop_state) option) io" where
  "server_thread I A D overflow_checks gone sb now rns = do {
     start \<leftarrow> serve_start I A D gone sb now;
     (case start of
        ServeReady n p sv dht ann \<Rightarrow> do {
          (out, s) \<leftarrow> run_server_loop A D overflow_checks sv dht ann rns loop_start;
          (if out = Ended \<or> out = Panicked then frame_drop A D sv dht else State_Monad.return ());
          State_Monad.return (start, Some (out, s))
        }
      | _ \<Rightarrow> State_Monad.return (start, None))
   }"

text \<open>
  What the caller of \<^verbatim>\<open>serve\<close> gets: the \<^verbatim>\<open>RunningServer\<close>'s node id, port and whether it has a command
  channel. A thread that dies without reporting is \<^verbatim>\<open>Internal\<close>.
\<close>

record running_server =
  ru_node_id :: node_id
  ru_port :: u16
  ru_has_dht :: bool

definition serve_result :: "'c served \<Rightarrow> error + running_server" where
  "serve_result r =
     (case r of
        ServeFailed e \<Rightarrow> Inl e
      | ServeUnheard \<Rightarrow> Inl Internal
      | ServeReady n p sv dht ann \<Rightarrow> Inr \<lparr>ru_node_id = n, ru_port = p, ru_has_dht = (dht \<noteq> None)\<rparr>)"

text \<open>
  The whole of \<^verbatim>\<open>serve\<close>: when the thread cannot be spawned, its closure is dropped with the builder in it.
\<close>

definition server_builder_drop :: "'c identity_api \<Rightarrow> 'c server_builder \<Rightarrow> ('c, unit) io" where
  "server_builder_drop I sb = (case sb_identity sb of
       None \<Rightarrow> State_Monad.return ()
     | Some ident \<Rightarrow> identity_drop I ident)"

definition builder_serve ::
  "'c identity_api \<Rightarrow> ('c, 'x) server_api_scheme \<Rightarrow> ('c, 'y) dht_api_scheme \<Rightarrow> bool \<Rightarrow> bool \<Rightarrow> bool \<Rightarrow>
   'c server_builder \<Rightarrow> u64 \<Rightarrow> round list \<Rightarrow> ('c, running_server) io_result" where
  "builder_serve I A D overflow_checks spawned gone sb now rns =
     (if \<not> spawned then do { server_builder_drop I sb; ret_err Internal }
      else do {
        (start, _) \<leftarrow> server_thread I A D overflow_checks gone sb now rns;
        lift_res (serve_result start)
      })"

definition running_node_id :: "running_server \<Rightarrow> node_id" where
  "running_node_id rs = ru_node_id rs"

definition running_local_port :: "running_server \<Rightarrow> u16" where
  "running_local_port rs = ru_port rs"

text \<open>\<^verbatim>\<open>shutdown\<close> and \<^verbatim>\<open>Drop\<close> set the stop flag, which every later round reads.\<close>

definition stop_rounds :: "round list \<Rightarrow> round list" where
  "stop_rounds rns = map (\<lambda>rn. rn\<lparr>rn_stop := True\<rparr>) rns"

text \<open>
  \<^verbatim>\<open>RunningServer::resolve\<close> and \<^verbatim>\<open>dht_metrics\<close> as the caller sees them: whether the owner accepted the
  command, and the reply if one came.
\<close>

definition running_resolve :: "running_server \<Rightarrow> bool \<Rightarrow> (error + address) option \<Rightarrow> error + address" where
  "running_resolve rs accepted reply =
     (if \<not> ru_has_dht rs then Inl ConfigMissing
      else if \<not> accepted then Inl NetworkClosed
      else (case reply of None \<Rightarrow> Inl NetworkClosed | Some r \<Rightarrow> r))"

definition running_dht_metrics :: "running_server \<Rightarrow> bool \<Rightarrow> dht_metrics option \<Rightarrow> dht_metrics option" where
  "running_dht_metrics rs accepted reply = (if ru_has_dht rs \<and> accepted then reply else None)"

text \<open>A thread that cannot be spawned leaves no key and no handle behind.\<close>

lemma serve_unspawned:
  assumes "wipes I" and "sb_identity sb = Some ident" and "id_priv ident < length (cells w)"
  shows "case run_state (builder_serve I A D chk False gone sb now rns) w of (r, w') \<Rightarrow>
    r = Inl Internal \<and> history w' = history w \<and> residue w w' = {} \<and>
    cell_at w' (id_priv ident) = zeros (length (cell_at w (id_priv ident)))"
  using assms
  by (auto simp: builder_serve_def server_builder_drop_def identity_drop_def residue_def cell_at_def)

section \<open>The announce schedule\<close>

lemma service_commands_announced:
  "fst (run_state (service_commands A D sv d cs s) w) = (out, s') \<Longrightarrow>
     sl_announced_at s' = sl_announced_at s \<and> sl_announced s' = sl_announced s \<and> out \<noteq> Ended \<and> out \<noteq> Panicked"
proof (induction A D sv d cs s arbitrary: w rule: service_commands.induct)
  case (2 A D sv d target timeout r rd rds cs s)
  obtain x v where x: "run_state (resolve_on_thread A D sv d target timeout rd rds) w = (x, v)"
    by (metis prod.collapse)
  show ?case
  proof (cases x)
    case None
    then show ?thesis using 2(2) x by auto
  next
    case (Some y)
    then show ?thesis using 2(1) 2(2) x by simp
  qed
next
  case (3 A D sv d r u cs s)
  then show ?case by (simp add: case_prod_beta)
qed auto

lemma service_commands_stays:
  "run_state (service_commands A D sv d cs s) w \<noteq> ((Ended, s'), w')"
  using service_commands_announced [of A D sv d cs s w Ended s'] by (metis fst_conv)

lemma wrapped_age:
  fixes at secs :: u64
  assumes "secs < at" and "unat at < 2 ^ 63"
  shows "announce_interval_secs \<le> secs - at"
proof -
  have l: "unat secs < unat at" using assms(1) by (simp add: word_less_nat_alt)
  then have "unat (secs - at) = unat secs + 2 ^ 64 - unat at"
    by (simp add: unat_sub_if_size word_size)
  then show ?thesis using assms(2) by (simp add: announce_interval_secs_def word_le_nat_alt)
qed

text \<open>What a round makes of the schedule: the due test on the reading of the clock.\<close>

lemma server_round_announced:
  assumes "run_state (server_round A D chk sv (Some d) (Some addr) rn s) w = ((out, s'), w')"
  shows "(out = Panicked \<and> announce_due chk (sl_announced_at s) (rn_secs rn) = None) \<or>
    (out = Ended \<and> s' = s) \<or>
    (out \<noteq> Ended \<and> out \<noteq> Panicked \<and> announce_due chk (sl_announced_at s) (rn_secs rn) = Some False \<and>
      sl_announced_at s' = sl_announced_at s \<and> sl_announced s' = sl_announced s) \<or>
    (out \<noteq> Ended \<and> out \<noteq> Panicked \<and> announce_due chk (sl_announced_at s) (rn_secs rn) = Some True \<and>
      sl_announced_at s' = rn_secs rn \<and> sl_announced s' = sl_announced s @ [rn_secs rn])"
proof (cases "rn_stop rn")
  case True
  then show ?thesis using assms by (simp add: server_round_def)
next
  case False
  obtain r v where t: "run_state (server_tick A sv (rn_ms rn)) w = (r, v)" by (metis prod.collapse)
  show ?thesis
  proof (cases r)
    case (Inl e)
    then show ?thesis using assms False t by (simp add: server_round_def)
  next
    case (Inr u)
    obtain out1 s1 v1 where d: "run_state (dht_round A D chk sv d (Some addr) rn s) v = ((out1, s1), v1)"
      by (metis prod.collapse)
    have o: "out = out1" "s' = s1"
      using assms False t Inr d by (auto simp: server_round_def case_prod_beta split: if_splits)
    obtain v2 where k: "snd (run_state (dht_tick D d (rn_secs rn)) v) = v2" by simp
    show ?thesis
    proof (cases "announce_due chk (sl_announced_at s) (rn_secs rn)")
      case None
      then show ?thesis using d o by (auto simp: dht_round_def announce_step_def case_prod_beta)
    next
      case (Some due)
      obtain s2 v3 where a: "run_state (announce_step D chk d (Some addr) (rn_secs rn) s) v2 = (Some s2, v3)"
        and s2: "s2 = (if due then s\<lparr>sl_announced_at := rn_secs rn, sl_announced := sl_announced s @ [rn_secs rn]\<rparr> else s)"
        using Some by (cases due) (auto simp: announce_step_def case_prod_beta)
      have "fst (run_state (service_commands A D sv d (rn_commands rn) s2) v3) = (out1, s1)"
        using d a k by (simp add: dht_round_def case_prod_beta)
      from service_commands_announced [OF this] show ?thesis
        using o s2 Some by (cases due) simp_all
    qed
  qed
qed

definition spaced :: "u64 list \<Rightarrow> bool" where
  "spaced ts \<longleftrightarrow> successively (\<lambda>a b. unat a + 30 \<le> unat b) ts"

text \<open>The schedule as it stands: spaced out, and the last announcement is the one remembered.\<close>

definition on_schedule :: "loop_state \<Rightarrow> bool" where
  "on_schedule s \<longleftrightarrow> spaced (sl_announced s) \<and>
     sl_announced_at s = (if sl_announced s = [] then 0 else last (sl_announced s)) \<and>
     (\<forall>t \<in> set (sl_announced s). 0 < t)"

lemma announce_due_forward:
  assumes "at \<le> secs"
  shows "announce_due chk at secs = Some (at = 0 \<or> unat at + 30 \<le> unat secs)"
proof -
  have "announce_interval_secs \<le> secs - at \<longleftrightarrow> unat at + 30 \<le> unat secs"
    using assms by (simp add: announce_interval_secs_def word_le_nat_alt unat_sub) linarith
  then show ?thesis using assms by (auto simp: announce_due_def not_less)
qed

lemma server_round_on_schedule:
  assumes "run_state (server_round A D chk sv (Some d) (Some addr) rn s) w = ((out, s'), w')"
    and "on_schedule s" and "sl_announced_at s \<le> rn_secs rn" and "0 < rn_secs rn"
  shows "out \<noteq> Panicked \<and> on_schedule s' \<and> sl_announced_at s' \<le> rn_secs rn \<and>
    (out = GoesOn \<longrightarrow> sl_announced s' \<noteq> [] \<and> unat (rn_secs rn) < unat (sl_announced_at s') + 30) \<and>
    (\<exists>ts. sl_announced s' = sl_announced s @ ts \<and> set ts \<subseteq> {rn_secs rn})"
proof -
  note due = announce_due_forward [OF assms(3), of chk]
  note o = server_round_announced [OF assms(1)]
  have remembered: "sl_announced s \<noteq> [] \<Longrightarrow> sl_announced_at s \<noteq> 0"
    using assms(2) last_in_set by (metis less_irrefl on_schedule_def)
  show ?thesis
  proof (cases "announce_due chk (sl_announced_at s) (rn_secs rn) = Some True")
    case True
    then have "on_schedule (s'\<lparr>sl_announced_at := rn_secs rn, sl_announced := sl_announced s @ [rn_secs rn]\<rparr>)"
      using due assms(2,4) remembered by (cases "sl_announced s = []") (auto simp: on_schedule_def spaced_def successively_append_iff)
    then show ?thesis using o True assms(2,3) by (auto simp: on_schedule_def)
  next
    case False
    then have f: "announce_due chk (sl_announced_at s) (rn_secs rn) = Some False"
      "sl_announced_at s \<noteq> 0" "unat (rn_secs rn) < unat (sl_announced_at s) + 30"
      using due by auto
    then show ?thesis using o assms(2,3) by (auto simp: on_schedule_def split: if_splits)
  qed
qed

lemma run_server_loop_on_schedule:
  assumes "run_state (run_server_loop A D chk sv (Some d) (Some addr) rns s) w = ((out, s'), w')"
    and "on_schedule s" and "\<forall>rn \<in> set rns. sl_announced_at s \<le> rn_secs rn \<and> 0 < rn_secs rn"
    and "sorted (map rn_secs rns)"
  shows "out \<noteq> Panicked \<and> on_schedule s' \<and>
    (out = GoesOn \<and> rns \<noteq> [] \<longrightarrow> sl_announced s' \<noteq> [] \<and> unat (rn_secs (last rns)) < unat (sl_announced_at s') + 30) \<and>
    (\<exists>ts. sl_announced s' = sl_announced s @ ts \<and> set ts \<subseteq> rn_secs ` set rns)"
  using assms
proof (induction rns arbitrary: s w)
  case Nil
  then show ?case by auto
next
  case (Cons rn rns)
  obtain out1 s1 w1 where r: "run_state (server_round A D chk sv (Some d) (Some addr) rn s) w = ((out1, s1), w1)"
    by (metis prod.collapse)
  have one: "out1 \<noteq> Panicked" "on_schedule s1" "sl_announced_at s1 \<le> rn_secs rn"
    "out1 = GoesOn \<longrightarrow> sl_announced s1 \<noteq> [] \<and> unat (rn_secs rn) < unat (sl_announced_at s1) + 30"
    "\<exists>ts. sl_announced s1 = sl_announced s @ ts \<and> set ts \<subseteq> {rn_secs rn}"
    using server_round_on_schedule [OF r Cons.prems(2)] Cons.prems(3) by simp_all
  show ?case
  proof (cases "out1 = GoesOn")
    case True
    then have run: "run_state (run_server_loop A D chk sv (Some d) (Some addr) rns s1) w1 = ((out, s'), w')"
      using Cons.prems(1) r by simp
    have later: "\<forall>rn' \<in> set rns. sl_announced_at s1 \<le> rn_secs rn' \<and> 0 < rn_secs rn'"
      using Cons.prems(3,4) one(3) by (auto intro: order_trans)
    have "sorted (map rn_secs rns)" using Cons.prems(4) by simp
    note rest = Cons.IH [OF run one(2) later this]
    obtain ts where ts: "sl_announced s1 = sl_announced s @ ts" "set ts \<subseteq> {rn_secs rn}" using one(5) by blast
    obtain us where us: "sl_announced s' = sl_announced s1 @ us" "set us \<subseteq> rn_secs ` set rns" using rest by blast
    have "\<exists>vs. sl_announced s' = sl_announced s @ vs \<and> set vs \<subseteq> rn_secs ` set (rn # rns)"
      using ts us by (intro exI [of _ "ts @ us"]) auto
    moreover have "out = GoesOn \<and> rn # rns \<noteq> [] \<longrightarrow>
        sl_announced s' \<noteq> [] \<and> unat (rn_secs (last (rn # rns))) < unat (sl_announced_at s') + 30"
    proof (cases "rns = []")
      case True
      then show ?thesis using run one(4) \<open>out1 = GoesOn\<close> by simp
    next
      case False
      then show ?thesis using rest by simp
    qed
    ultimately show ?thesis using rest by blast
  next
    case False
    then have "out = out1" and "s' = s1" using Cons.prems(1) r by auto
    then show ?thesis using False one by auto
  qed
qed

section \<open>The resolve\<close>

lemma resolve_loop_ends:
  "\<exists>rd \<in> set rds. deadline \<le> rd_instant rd \<Longrightarrow>
     fst (run_state (resolve_loop A D sv d target deadline rds) w) \<noteq> None"
proof (induction rds arbitrary: w)
  case (Cons rd rds)
  show ?case
  proof (cases "rd_instant rd < deadline")
    case True
    then have "\<exists>rd \<in> set rds. deadline \<le> rd_instant rd" using Cons.prems by auto
    then show ?thesis using True Cons.IH by (auto simp: case_prod_beta split: sum.split option.split)
  qed simp
qed simp

text \<open>What a resolve may return, whatever the library does.\<close>

definition record_of :: "('c, 'y) dht_api_scheme \<Rightarrow> dht \<Rightarrow> node_id \<Rightarrow> address \<Rightarrow> bool" where
  "record_of D d target a \<longleftrightarrow> (\<exists>c rec. fst (c_dht_lookup_result D (dht_raw d) (node_id_raw target) c) = (0, rec) \<and>
     a = record_address rec)"

lemma lookup_result_record:
  "fst (run_state (dht_lookup_result D d target) w) = Some rec \<Longrightarrow> record_of D d target (record_address rec)"
  by (auto simp: dht_lookup_result_def record_of_def case_prod_beta split: if_splits) (metis prod.collapse)

lemma resolve_loop_authentic:
  "fst (run_state (resolve_loop A D sv d target deadline rds) w) = Some (Inr a) \<Longrightarrow> record_of D d target a"
proof (induction rds arbitrary: w)
  case (Cons rd rds)
  obtain r v where t: "run_state (server_tick A sv (rd_ms rd)) w = (r, v)" by (metis prod.collapse)
  obtain r2 v2 where k: "run_state (dht_tick D d (rd_secs rd)) v = (r2, v2)" by (metis prod.collapse)
  obtain f v3 where l: "run_state (dht_lookup_result D d target) v2 = (f, v3)" by (metis prod.collapse)
  show ?case
    using Cons t k l lookup_result_record [of D d target v2]
    by (cases r; cases r2; cases f) (auto simp: case_prod_beta split: if_splits)
qed simp

text \<open>A library that keeps ticking and does not know the target.\<close>

definition never_found ::
  "('c, 'x) server_api_scheme \<Rightarrow> ('c, 'y) dht_api_scheme \<Rightarrow> 'c server \<Rightarrow> dht \<Rightarrow> node_id \<Rightarrow> bool" where
  "never_found A D sv d target \<longleftrightarrow>
     (\<forall>now w. \<exists>u. fst (run_state (server_tick A sv now) w) = Inr u) \<and>
     (\<forall>now c. 0 \<le> fst (c_dht_tick D (dht_raw d) now c)) \<and>
     (\<forall>now c. 0 \<le> fst (c_dht_start_lookup D (dht_raw d) (node_id_raw target) now c)) \<and>
     (\<forall>c. fst (fst (c_dht_lookup_result D (dht_raw d) (node_id_raw target) c)) \<noteq> 0)"

lemma never_found_runs:
  assumes "never_found A D sv d target"
  shows "\<exists>v. run_state (server_tick A sv now) w = (Inr (), v)"
    and "\<exists>v. run_state (dht_tick D d secs) w = (Inr (), v)"
    and "\<exists>v. run_state (dht_start_lookup D d target secs) w = (Inr (), v)"
    and "\<exists>v. run_state (dht_lookup_result D d target) w = (None, v)"
  using assms
  by (auto simp: never_found_def dht_tick_def dht_start_lookup_def dht_lookup_result_def case_prod_beta
      error_check_def not_less intro: prod_eqI)
    (metis (full_types) old.unit.exhaust prod.collapse)

lemma resolve_loop_times_out:
  assumes "never_found A D sv d target"
  shows "fst (run_state (resolve_loop A D sv d target deadline rds) w) =
    (if \<exists>rd \<in> set rds. deadline \<le> rd_instant rd then Some (Inl IdentityNotFound) else None)"
proof (induction rds arbitrary: w)
  case (Cons rd rds)
  obtain v where t: "run_state (server_tick A sv (rd_ms rd)) w = (Inr (), v)"
    using never_found_runs(1) [OF assms] by blast
  obtain v2 where k: "run_state (dht_tick D d (rd_secs rd)) v = (Inr (), v2)"
    using never_found_runs(2) [OF assms] by blast
  obtain v3 where l: "run_state (dht_lookup_result D d target) v2 = (None, v3)"
    using never_found_runs(4) [OF assms] by blast
  show ?case using Cons.IH t k l by (auto simp: case_prod_beta)
qed simp

section \<open>The thread's handles\<close>

text \<open>The frame of the loop: the server over \<open>m\<close>, and the dht that borrows it.\<close>

definition frame_owns :: "'c server \<Rightarrow> dht option \<Rightarrow> monitor \<Rightarrow> monitor \<Rightarrow> bool" where
  "frame_owns sv dht m m'' \<longleftrightarrow> (\<exists>m'. server_owns sv m m' \<and>
     (case dht of None \<Rightarrow> m'' = m' | Some d \<Rightarrow> dht_owns (sv_raw sv) d m' m''))"

text \<open>The server is owned under the dht as well: its base is then the one with the dht in it.\<close>

lemma frame_server:
  assumes "frame_owns sv dht m m''"
  shows "\<exists>m1. server_owns sv m1 m''"
proof (cases dht)
  case None
  then show ?thesis using assms by (auto simp: frame_owns_def)
next
  case (Some d)
  obtain m' where sv: "server_owns sv m m'" and d: "dht_owns (sv_raw sv) d m' m''"
    using assms Some by (auto simp: frame_owns_def)
  let ?m1 = "m\<lparr>live := insert (KDht, dht_raw d) (live m),
    borrows := (borrows m)((KDht, dht_raw d) \<mapsto> (KServer, sv_raw sv))\<rparr>"
  have "server_owns sv ?m1 m''"
    using sv d by (auto simp: server_owns_def dht_owns_def insert_commute split: option.splits)
  then show ?thesis by blast
qed

lemma frame_keeps:
  assumes "frame_owns sv dht m m''"
  shows "preserves m'' (server_tick A sv now)" and "usable m'' (KServer, sv_raw sv)"
    and "dht = Some d \<Longrightarrow> usable m'' (KDht, dht_raw d)"
proof -
  obtain m1 where m1: "server_owns sv m1 m''" using frame_server [OF assms] by blast
  show "preserves m'' (server_tick A sv now)" by (rule server_tick_preserves [OF m1])
  show "usable m'' (KServer, sv_raw sv)" by (rule server_owns_live [OF m1])
  show "dht = Some d \<Longrightarrow> usable m'' (KDht, dht_raw d)"
    using assms dht_owns_usable by (auto simp: frame_owns_def)
qed

lemma resolve_loop_preserves:
  assumes "frame_owns sv (Some d) m m''"
  shows "preserves m'' (resolve_loop A D sv d target deadline rds)"
proof (induction rds)
  case Nil
  then show ?case by (simp add: preserves_return)
next
  case (Cons rd rds)
  note f = frame_keeps [OF assms]
  show ?case
    unfolding resolve_loop.simps dht_tick_def dht_lookup_result_def dht_next_timeout_def server_fd_def
    using f(2) f(3) [OF refl] by (intro keep_rules f(1) Cons.IH | simp)+
qed

lemma service_commands_preserves:
  assumes "frame_owns sv (Some d) m m''"
  shows "preserves m'' (service_commands A D sv d cs s)"
proof -
  have r: "preserves m'' (resolve_on_thread A D sv d target timeout rd rds)" for target timeout rd rds
    using frame_keeps(3) [OF assms refl] resolve_loop_preserves [OF assms]
    by (auto simp: resolve_on_thread_def dht_lookup_result_def dht_start_lookup_def intro!: keep_rules)
  have k: "preserves m'' (dht_metrics_get D d)"
    using frame_keeps(3) [OF assms refl] by (auto simp: dht_metrics_get_def intro!: keep_rules)
  show ?thesis
  proof (induction cs arbitrary: s)
    case Nil
    then show ?case by (simp add: preserves_return)
  next
    case (Cons c cs)
    obtain cmd rd rds where c: "c = (cmd, rd, rds)" by (metis prod.collapse)
    show ?case
      unfolding c by (cases cmd) (auto intro!: keep_rules r k Cons.IH)
  qed
qed

lemma server_round_preserves:
  assumes "frame_owns sv dht m m''"
  shows "preserves m'' (server_round A D chk sv dht announce rn s)"
proof -
  have d: "preserves m'' (dht_round A D chk sv d announce rn s)" if "dht = Some d" for d
    using that assms frame_keeps(3) [OF assms that]
    by (auto simp: dht_round_def dht_tick_def announce_step_def dht_announce_def
        intro!: keep_rules service_commands_preserves split: bool.split)
  have w: "preserves m'' (server_wait A D sv dht ms secs)" for ms secs
    using frame_keeps(2,3) [OF assms]
    by (cases dht) (auto simp: server_wait_def server_next_timeout_def dht_next_timeout_def server_fd_def Let_def
        intro!: keep_rules)
  show ?thesis
    unfolding server_round_def
    by (cases dht) (use w in \<open>auto intro!: keep_rules frame_keeps(1) [OF assms] intro: d\<close>)
qed

lemma run_server_loop_preserves:
  assumes "frame_owns sv dht m m''"
  shows "preserves m'' (run_server_loop A D chk sv dht announce rns s)"
  by (induction rns arbitrary: s) (auto intro!: keep_rules server_round_preserves [OF assms])

lemma frame_drop_outcome:
  assumes "frame_owns sv dht m m''" and "coherent w m''"
  shows "coherent (snd (run_state (frame_drop A D sv dht) w)) m"
proof (cases dht)
  case None
  then show ?thesis using assms server_drop_outcome by (auto simp: frame_drop_def frame_owns_def)
next
  case (Some d)
  then obtain m' where sv: "server_owns sv m m'" and d: "dht_owns (sv_raw sv) d m' m''"
    using assms(1) by (auto simp: frame_owns_def)
  obtain v where v: "run_state (dht_drop D d) w = ((), v)" by (metis old.unit.exhaust prod.collapse)
  then have "coherent v m'" using dht_drop_outcome [OF d assms(2), of D] by simp
  then show ?thesis using server_drop_outcome [OF sv] Some v by (simp add: frame_drop_def)
qed

text \<open>The library hands out dht handles that are not in use.\<close>

definition dht_fresh :: "('c, 'y) dht_api_scheme \<Rightarrow> monitor \<Rightarrow> bool" where
  "dht_fresh D m \<longleftrightarrow> (\<forall>p bs n c. fresh_ptr KDht (c_dht_attach D p bs n) c m)"

lemma attach_config_outcome:
  assumes "server_owns sv m m'" and "coherent w m'" and "dht_fresh D m"
    and "run_state (attach_config D sv cfg now) w = (r, w')"
  shows "case r of Inl e \<Rightarrow> coherent w' m' | Inr dht \<Rightarrow> \<exists>m''. frame_owns sv dht m m'' \<and> coherent w' m''"
proof (cases cfg)
  case None
  then show ?thesis using assms by (auto simp: attach_config_def frame_owns_def)
next
  case (Some q)
  obtain contacts ann n where q: "q = (contacts, ann, n)" by (metis prod.collapse)
  let ?b = "dht_set_initial_seq n (dht_add_bootstraps contacts (dht_builder sv))"
  have b: "dh_server ?b = sv_raw sv"
    by (simp add: dht_set_initial_seq_def dht_add_bootstraps_def dht_builder_def server_as_ptr_def)
  have fr: "fresh_ptr KDht f c m \<Longrightarrow> fresh_ptr KDht f c m'" for f c
    using assms(1) by (auto simp: fresh_ptr_def server_owns_def split: option.splits prod.splits)
  have pre: "dht_pre D ?b (lib w) m'"
    unfolding dht_pre_def b
    by (intro conjI server_owns_live [OF assms(1)] fr) (use assms(3) in \<open>simp add: dht_fresh_def\<close>)
  obtain a v where a: "run_state (dht_attach D ?b) w = (a, v)" by (metis prod.collapse)
  note out = dht_attach_outcome [OF assms(2) pre a]
  show ?thesis
  proof (cases a)
    case (Inl e)
    then show ?thesis using out a assms(4) Some q by (auto simp: attach_config_def attach_managed_dht_def)
  next
    case (Inr d)
    then obtain m'' where d: "dht_owns (sv_raw sv) d m' m''" and v: "coherent v m''" using out b by auto
    obtain j v1 where j: "run_state (dht_join D d now) v = (j, v1)" by (metis prod.collapse)
    have v1: "coherent v1 m''"
      using preservesD [of m'' "dht_join D d now" v] v j dht_owns_usable [OF d]
      by (simp add: dht_join_def keep_rules)
    have "coherent (snd (run_state (dht_drop D d) v1)) m'" by (rule dht_drop_outcome [OF d v1])
    moreover have "frame_owns sv (Some d) m m''" using d assms(1) by (auto simp: frame_owns_def)
    ultimately show ?thesis
      using a Inr j v1 assms(4) Some q
      by (cases j) (auto simp: attach_config_def attach_managed_dht_def case_prod_beta)
  qed
qed

lemma serve_start_outcome:
  assumes "coherent w m" and "server_pre A sb (lib w) m" and "dht_fresh D m"
    and "run_state (serve_start I A D gone sb now) w = (r, w')"
  shows "case r of ServeReady n p sv dht ann \<Rightarrow> \<exists>m''. frame_owns sv dht m m'' \<and> coherent w' m''
    | _ \<Rightarrow> coherent w' m"
proof -
  obtain cfg sb' where t: "take_managed_dht sb = (cfg, sb')" by (metis prod.collapse)
  then have h: "sb_handler sb' = sb_handler sb" by (auto simp: take_managed_dht_def split: if_splits)
  have pre: "server_pre A sb' (lib w) m" using assms(2) h by (simp add: server_pre_def)
  obtain b v where b: "run_state (server_build I A sb') w = (b, v)" by (metis prod.collapse)
  note out = server_build_outcome [OF assms(1) pre b]
  show ?thesis
  proof (cases b)
    case (Inl e)
    then show ?thesis using out b t assms(4) by (auto simp: serve_start_def)
  next
    case (Inr sv)
    then obtain m' where sv: "server_owns sv m m'" and v: "coherent v m'" using out by auto
    obtain a v1 where a: "run_state (attach_config D sv cfg now) v = (a, v1)" by (metis prod.collapse)
    note o1 = attach_config_outcome [OF sv v assms(3) a]
    show ?thesis
    proof (cases a)
      case (Inl e)
      then show ?thesis
        using o1 a b t \<open>b = Inr sv\<close> assms(4) server_drop_outcome [OF sv, of v1 A]
        by (auto simp: serve_start_def case_prod_beta)
    next
      case (Inr dht)
      then obtain m'' where f: "frame_owns sv dht m m''" and v1: "coherent v1 m''" using o1 by auto
      obtain i v2 where i: "run_state (server_info A sv) v1 = (i, v2)" by (metis prod.collapse)
      have v2: "coherent v2 m''"
        using preservesD [of m'' "server_info A sv" v1] v1 i frame_keeps(2) [OF f]
        by (simp add: server_info_def server_node_id_def server_local_port_def keep_rules)
      have dropped: "coherent (snd (run_state (frame_drop A D sv dht) v2)) m"
        by (rule frame_drop_outcome [OF f v2])
      show ?thesis
      proof (cases i)
        case (Inl e)
        then show ?thesis using b \<open>b = Inr sv\<close> a Inr i t assms(4) dropped by (auto simp: serve_start_def case_prod_beta)
      next
        case (Inr np)
        obtain n p where "np = (n, p)" by (metis prod.collapse)
        then show ?thesis
          using b \<open>b = Inr sv\<close> a \<open>a = Inr dht\<close> i Inr t assms(4) dropped f v2
          by (auto simp: serve_start_def case_prod_beta split: if_splits)
      qed
    qed
  qed
qed

lemma stop_ends_loop:
  "run_state (run_server_loop A D chk sv dht ann (rns @ stop_rounds (rn # rest)) s) w = ((out, s'), w') \<Longrightarrow>
     out \<noteq> GoesOn"
proof (induction rns arbitrary: s w)
  case Nil
  then show ?case by (auto simp: stop_rounds_def server_round_def)
next
  case (Cons r rns)
  then show ?case
    by (cases "run_state (server_round A D chk sv dht ann r s) w") (auto split: if_splits)
qed

section \<open>Properties\<close>

text \<open>
  C9. The managed server is clean on every path of its thread: a failed build, a failed dht attach or join,
  a failed node id, a caller that went away, and the loop left by a stop, a tick error or a panic all end
  with exactly the handles there were before; while the loop runs on, every call is legal. The dht always
  drops before the server it borrows. And a shutdown is obeyed: once the stop flag is set the loop does not
  go on past its next head.
\<close>

theorem managed_server_is_clean:
  assumes "coherent w m" and "server_pre A sb (lib w) m" and "dht_fresh D m"
    and "run_state (server_thread I A D chk gone sb now rns) w = ((start, ended), w')"
  shows "(case ended of
      Some (GoesOn, s) \<Rightarrow> judged w' \<noteq> None
    | Some (InResolve, s) \<Rightarrow> judged w' \<noteq> None
    | _ \<Rightarrow> coherent w' m) \<and>
    (rns = earlier @ stop_rounds (rn # later) \<longrightarrow> (\<forall>s. ended \<noteq> Some (GoesOn, s)))"
proof -
  obtain r v where r: "run_state (serve_start I A D gone sb now) w = (r, v)" by (metis prod.collapse)
  note out = serve_start_outcome [OF assms(1-3) r]
  show ?thesis
  proof (cases r)
    case (ServeReady n p sv dht ann)
    then obtain m'' where f: "frame_owns sv dht m m''" and v: "coherent v m''" using out by auto
    obtain e s v1 where l: "run_state (run_server_loop A D chk sv dht ann rns loop_start) v = ((e, s), v1)"
      by (metis prod.collapse)
    have v1: "coherent v1 m''"
      using preservesD [OF run_server_loop_preserves [OF f] v, of A D chk ann rns loop_start] l by simp
    have "coherent (snd (run_state (frame_drop A D sv dht) v1)) m"
      by (rule frame_drop_outcome [OF f v1])
    moreover have "rns = earlier @ stop_rounds (rn # later) \<longrightarrow> e \<noteq> GoesOn"
      using l stop_ends_loop by blast
    ultimately show ?thesis
      using assms(4) r ServeReady l v1
      by (cases e) (auto simp: server_thread_def case_prod_beta coherent_def)
  qed (use assms(4) r out in \<open>auto simp: server_thread_def\<close>)
qed

text \<open>A server with the sample dht: one bootstrap contact, announcing an address.\<close>

abbreviation sample_managed :: "bytes list server_builder" where
  "sample_managed \<equiv> builder_announce_as (Address [9])
     (builder_dht [\<lparr>bs_node = [1], bs_addr = [2]\<rparr>] sample_builder)"

definition round_at :: "u64 \<Rightarrow> round" where
  "round_at t = \<lparr>rn_stop = False, rn_ms = 0, rn_secs = t, rn_commands = [], rn_wait_ms = 0, rn_wait_secs = t\<rparr>"

lemmas sample_server_simps =
  sample_server_api_def sample_handler_api_def handler_api.defs server_api.defs

lemma sample_server_builds:
  "\<exists>sv v. run_state (server_build sample_identity_api sample_server_api sample_builder)
      ((world_init [])\<lparr>cells := [[5]]\<rparr>) = (Inr sv, v) \<and> sv_raw sv = 7"
  by (simp add: server_build_def sample_builder_def builder_on_request_def builder_bind_def
      builder_identity_def server_builder_def scoped_identity_def run_with_keypair Let_def finish_build_def
      identity_drop_def error_check_def sample_server_simps world_init_def)

lemma round_at_simps [simp]:
  "rn_secs (round_at t) = t" "\<not> rn_stop (round_at t)" "rn_commands (round_at t) = []" "rn_ms (round_at t) = 0"
  by (simp_all add: round_at_def)

lemma sample_managed_pre: "server_pre sample_server_api sample_managed c mon_init"
  using sample_server_pre [of c] by (simp add: server_pre_def builder_announce_as_def builder_dht_def)

theorem managed_server_is_clean_witness:
  "case run_state (server_thread sample_identity_api sample_server_api sample_dht_api True False sample_managed 5
      [(round_at 5)\<lparr>rn_stop := True\<rparr>]) ((world_init [])\<lparr>cells := [[5]]\<rparr>) of
     ((start, ended), w') \<Rightarrow> ended = Some (Ended, loop_start) \<and> coherent w' mon_init"
proof -
  let ?w = "(world_init [])\<lparr>cells := [[5]]\<rparr> :: bytes list world"
  obtain start ended w' where r: "run_state (server_thread sample_identity_api sample_server_api sample_dht_api
      True False sample_managed 5 [(round_at 5)\<lparr>rn_stop := True\<rparr>]) ?w = ((start, ended), w')"
    by (metis prod.collapse)
  have f: "dht_fresh sample_dht_api mon_init"
    by (simp add: dht_fresh_def fresh_ptr_def sample_dht_api_def mon_init_def)
  have b: "take_managed_dht sample_managed =
      (Some ([\<lparr>bs_node = [1], bs_addr = [2]\<rparr>], Some (Address [9]), 0), sample_builder)"
    by (simp add: take_managed_dht_def builder_announce_as_def builder_dht_def sample_builder_def
        builder_on_request_def builder_bind_def builder_identity_def server_builder_def)
  obtain sv v where sv: "run_state (server_build sample_identity_api sample_server_api sample_builder) ?w = (Inr sv, v)"
    and raw: "sv_raw sv = 7"
    using sample_server_builds by blast
  have "ended = Some (Ended, loop_start)"
    using r sv raw
    by (auto simp: server_thread_def serve_start_def b attach_config_def attach_managed_dht_def dht_attach_def
        dht_join_def server_info_def server_node_id_def server_local_port_def server_round_def
        dht_add_bootstraps_def dht_set_initial_seq_def dht_builder_def sample_dht_api_def error_check_def
        sample_server_simps case_prod_beta)
  then show ?thesis
    using managed_server_is_clean [OF coherent_init sample_managed_pre f r, of "[]" "round_at 5" "[]"] r by simp
qed


abbreviation bare_server :: "bytes list server" where
  "bare_server \<equiv> \<lparr>sv_raw = 7, sv_handler = None\<rparr>"

lemma sample_ticks: "\<exists>v. run_state (server_tick sample_server_api bare_server now) w = (Inr (), v)"
  by (simp add: server_tick_def server_callback_def error_check_def sample_server_simps)

lemma sample_round_from:
  assumes "\<not> rn_stop rn" and "rn_commands rn = []"
  shows "\<exists>v. run_state (server_round sample_server_api sample_dht_api True bare_server (Some (Dht 40))
      (Some (Address [9])) rn s) w =
    (case announce_due True (sl_announced_at s) (rn_secs rn) of
       None \<Rightarrow> (Panicked, s)
     | Some False \<Rightarrow> (GoesOn, s)
     | Some True \<Rightarrow> (GoesOn, s\<lparr>sl_announced_at := rn_secs rn, sl_announced := sl_announced s @ [rn_secs rn]\<rparr>), v)"
proof -
  obtain v where t: "run_state (server_tick sample_server_api bare_server (rn_ms rn)) w = (Inr (), v)"
    using sample_ticks by blast
  show ?thesis
    using assms t by (cases "announce_due True (sl_announced_at s) (rn_secs rn)")
      (auto simp: server_round_def dht_round_def announce_step_def dht_announce_def dht_tick_def
        sample_dht_api_def case_prod_beta error_check_def split: bool.split)
qed

lemma sample_round_at:
  "\<exists>v. run_state (server_round sample_server_api sample_dht_api True bare_server (Some (Dht 40))
      (Some (Address [9])) (round_at t) s) w =
    (case announce_due True (sl_announced_at s) t of
       None \<Rightarrow> (Panicked, s)
     | Some False \<Rightarrow> (GoesOn, s)
     | Some True \<Rightarrow> (GoesOn, s\<lparr>sl_announced_at := t, sl_announced := sl_announced s @ [t]\<rparr>), v)"
  using sample_round_from [of "round_at t" s w] unfolding round_at_simps by simp


text \<open>
  C24. A wall clock that steps back after an announcement: with overflow checks compiled in the subtraction
  panics and the round takes the server down; without them it wraps to a huge age, and the loop announces
  at once although 30 seconds have not passed.
\<close>

theorem clock_step_back:
  assumes "\<not> rn_stop rn" and "fst (run_state (server_tick A sv (rn_ms rn)) w) = Inr ()"
    and "0 < rn_secs rn" and "rn_secs rn < sl_announced_at s" and "unat (sl_announced_at s) < 2 ^ 63"
  shows "fst (fst (run_state (server_round A D True sv (Some d) (Some addr) rn s) w)) = Panicked \<and>
    sl_announced (snd (fst (run_state (server_round A D False sv (Some d) (Some addr) rn s) w))) =
      sl_announced s @ [rn_secs rn]"
proof -
  obtain v where t: "run_state (server_tick A sv (rn_ms rn)) w = (Inr (), v)"
    using assms(2) by (metis prod.collapse)
  have 1: "announce_due True (sl_announced_at s) (rn_secs rn) = None"
    using assms(4) by (auto simp: announce_due_def)
  have 2: "announce_due False (sl_announced_at s) (rn_secs rn) = Some True"
    using assms(4,5) by (simp add: announce_due_def wrapped_age)
  obtain x y z where r: "run_state (server_round A D False sv (Some d) (Some addr) rn s) w = ((x, y), z)"
    by (metis prod.collapse)
  have "x \<noteq> Ended"
    using r t assms(1) 2
    by (auto simp: server_round_def dht_round_def announce_step_def case_prod_beta service_commands_stays
        split: if_splits)
  then have "sl_announced y = sl_announced s @ [rn_secs rn]"
    using server_round_announced [OF r] 2 by auto
  then show ?thesis
    using r t assms(1) 1 by (simp add: server_round_def dht_round_def announce_step_def case_prod_beta)
qed

theorem clock_step_back_witness:
  "fst (fst (run_state (server_round sample_server_api sample_dht_api True bare_server (Some (Dht 40))
      (Some (Address [9])) (round_at 90) (loop_start\<lparr>sl_announced_at := 100\<rparr>)) (world_init []))) = Panicked \<and>
   sl_announced (snd (fst (run_state (server_round sample_server_api sample_dht_api False bare_server (Some (Dht 40))
      (Some (Address [9])) (round_at 90) (loop_start\<lparr>sl_announced_at := 100\<rparr>)) (world_init [])))) = [90]"
proof -
  have t: "fst (run_state (server_tick sample_server_api bare_server (rn_ms (round_at 90))) (world_init [])) = Inr ()"
    using sample_ticks by (metis fst_conv)
  show ?thesis
    using clock_step_back [OF _ t, of "loop_start\<lparr>sl_announced_at := 100\<rparr>" sample_dht_api "Dht 40" "Address [9]"]
    by (simp add: round_at_def loop_start_def word_less_nat_alt)
qed


text \<open>A dht library that never finds a record.\<close>

definition blank_dht_api :: "'c dht_api" where
  "blank_dht_api = sample_dht_api\<lparr>c_dht_lookup_result :=
     (\<lambda>p t c. ((-1, \<lparr>dr_node = t, dr_addr = [2], dr_pubkey = [3], dr_seq = 1, dr_timestamp = 2\<rparr>), c))\<rparr>"

definition reading_at :: "int \<Rightarrow> reading" where
  "reading_at n = \<lparr>rd_instant = n, rd_ms = 0, rd_secs = 1\<rparr>"


text \<open>
  No wait of the runtime blocks for ever: \<^verbatim>\<open>poll\<close> takes a negative timeout for no timeout, and the \<^verbatim>\<open>u32\<close>
  milliseconds are cast to a \<^verbatim>\<open>c_int\<close>, but whatever the library and the dht report, the client and the
  server loop hand over between 0 and 200 milliseconds and a resolve between 0 and 20, uncut by the cast; the
  client idles at exactly 200 without asking the library.
\<close>

lemma loop_waits_in_range:
  "snd (unix_wait_readable2 cfd wfd (fst (run_state (wait_ms A cl now s) w))) \<in> {0..200} \<and>
   snd (unix_wait_readable fd (fst (run_state (server_wait B D sv dht ms secs) w'))) \<in> {0..200} \<and>
   snd (unix_wait_readable fd (resolve_wait t)) \<in> {0..20} \<and>
   run_state (wait_ms A cl now (s\<lparr>ow_pending := []\<rparr>)) w = (200, w)"
proof -
  have cut: "snd (unix_wait_readable fd n) = uint n" "snd (unix_wait_readable2 fd wfd n) = uint n"
    if "n \<le> 200" for n and fd wfd
  proof -
    have "- (2 ^ 31) \<le> uint n" by (rule order_trans [of _ 0]) simp_all
    moreover have "uint n < 2 ^ 31" using that by (simp add: word_le_def)
    ultimately have "as_c_int (uint n) = uint n" by (rule as_c_int_id)
    then show "snd (unix_wait_readable fd n) = uint n" "snd (unix_wait_readable2 fd wfd n) = uint n"
      by (simp_all add: unix_wait_readable_def unix_wait_readable2_def)
  qed
  have up: "uint n \<in> {0..k}" if "n \<le> word_of_int k" and "0 \<le> k" and "k \<le> 200" for n :: u32 and k
    using that by (simp add: word_le_def uint_word_of_int)
  have 1: "fst (run_state (wait_ms A cl now s) w) \<le> 200"
    using wait_ms_capped [of A cl now s w] by (simp add: poll_cap_ms_def)
  have 2: "fst (run_state (server_wait B D sv dht ms secs) w') \<le> 200"
    by (simp add: server_wait_def poll_cap_ms_def case_prod_beta Let_def)
  have 3: "resolve_wait t \<le> 20" by (simp add: resolve_wait_def)
  then have 4: "resolve_wait t \<le> 200" by (rule order_trans) (simp add: word_le_def)
  show ?thesis
    using cut [OF 1] cut [OF 2] cut [OF 4] up [of _ 200] up [of _ 20] 1 2 3
      wait_ms_capped [of A cl now "s\<lparr>ow_pending := []\<rparr>" w]
    by simp
qed

end
