(* ===== verification/RuntimeStream.thy ===== *)
theory RuntimeStream
  imports ClientLife
begin

text \<open>
  The managed stream of \<^verbatim>\<open>nwep/src/runtime.rs\<close>: a thread that connects, opens a stream, reads its metadata
  and then hands the body over chunk by chunk, and the \<^verbatim>\<open>AsyncStream\<close> that receives it.

  The channel is tokio's, outside the repository: \<open>budget\<close> is how many sends it accepts before the consumer
  is gone, and \<open>fuel\<close> bounds the reads of a stream that may never end (\<open>ReadOn\<close> when it runs out).
\<close>

section \<open>State\<close>

type_synonym stream_item = "error + bytes option"

definition stream_chunk :: nat where
  "stream_chunk = 64 * 1024"

text \<open>\<open>ReaderPanicked\<close>: a count past the buffer's end, where the slice panics.\<close>

datatype reader_end = ReadOn | ReaderDone | ReaderPanicked

datatype stream_start = StreamFailed error | StreamUnheard
  | StreamOpen status "(string \<times> string) list" reader_end "stream_item list"

section \<open>The reader thread\<close>

fun reader_loop ::
  "('c, 'x) client_api_scheme \<Rightarrow> client_stream \<Rightarrow> bytes \<Rightarrow> nat \<Rightarrow> nat \<Rightarrow> bytes \<Rightarrow>
   ('c, reader_end \<times> stream_item list) io" where
  "reader_loop A st peer 0 budget buf = State_Monad.return (ReadOn, [])"
| "reader_loop A st peer (Suc fuel) budget buf = do {
     got \<leftarrow> stream_recv A st (length buf);
     (case got of
        Inl e \<Rightarrow> State_Monad.return (ReaderDone, if 0 < budget then [Inl e] else [])
      | Inr (written, n, ended) \<Rightarrow>
          let buf' = overwrite written buf in
          if 0 < n \<and> length buf' < n then State_Monad.return (ReaderPanicked, [])
          else if 0 < n \<and> budget = 0 then State_Monad.return (ReaderDone, [])
          else let chunk = (if 0 < n then [Inr (Some (take n buf'))] else []);
                   budget' = budget - length chunk
            in if ended then do {
                 verdict \<leftarrow> stream_verify A st peer;
                 State_Monad.return (ReaderDone,
                   chunk @ (if 0 < budget' then [map_ok (\<lambda>_. None) verdict] else []))
               }
               else do {
                 (out, sent) \<leftarrow> reader_loop A st peer fuel budget' buf';
                 State_Monad.return (out, chunk @ sent)
               })
   }"

definition still_reading :: "stream_start \<Rightarrow> bool" where
  "still_reading r = (case r of StreamOpen _ _ out _ \<Rightarrow> out = ReadOn | _ \<Rightarrow> False)"

definition stream_read ::
  "('c, 'x) client_api_scheme \<Rightarrow> 'c client \<Rightarrow> client_stream \<Rightarrow> bool \<Rightarrow> nat \<Rightarrow> nat \<Rightarrow> ('c, stream_start) io" where
  "stream_read A cl st gone budget fuel = do {
     got \<leftarrow> stream_response A st;
     (case got of
        Inl e \<Rightarrow> State_Monad.return (StreamFailed e)
      | Inr meta \<Rightarrow> do {
          status \<leftarrow> response_status A meta;
          iter \<leftarrow> response_headers A meta;
          headers \<leftarrow> headers_collect A iter;
          (if gone then do { response_drop A meta; State_Monad.return StreamUnheard }
           else do {
             key \<leftarrow> client_peer_pubkey A cl;
             (out, sent) \<leftarrow> reader_loop A st (case key of Inl _ \<Rightarrow> zeros 32 | Inr k \<Rightarrow> k) fuel budget (zeros stream_chunk);
             (if out = ReadOn then State_Monad.return () else response_drop A meta);
             State_Monad.return (StreamOpen (opt_unwrap_or status StError) (opt_unwrap_or headers []) out sent)
           })
        })
   }"

definition stream_on_client ::
  "('c, 'x) client_api_scheme \<Rightarrow> 'c client \<Rightarrow> request_method \<Rightarrow> string \<Rightarrow> bool \<Rightarrow> nat \<Rightarrow> nat \<Rightarrow>
   ('c, stream_start) io" where
  "stream_on_client A cl mt path gone budget fuel = do {
     opened \<leftarrow> client_open_stream A cl mt path;
     (case opened of
        Inl e \<Rightarrow> State_Monad.return (StreamFailed e)
      | Inr st \<Rightarrow> do {
          r \<leftarrow> stream_read A cl st gone budget fuel;
          (if still_reading r then State_Monad.return () else stream_drop A st);
          State_Monad.return r
        })
   }"

text \<open>The closure of \<^verbatim>\<open>ClientBuilder::stream\<close>: its locals drop in reverse order, the client last.\<close>

definition stream_thread ::
  "'c identity_api \<Rightarrow> ('c, 'x) client_api_scheme \<Rightarrow> client_builder \<Rightarrow> request_method \<Rightarrow> string \<Rightarrow> node_id \<Rightarrow>
   address \<Rightarrow> bool \<Rightarrow> nat \<Rightarrow> nat \<Rightarrow> ('c, stream_start) io" where
  "stream_thread I A b mt path target addr gone budget fuel = do {
     connected \<leftarrow> client_connect I A b target addr;
     (case connected of
        Inl e \<Rightarrow> State_Monad.return (StreamFailed e)
      | Inr cl \<Rightarrow> do {
          r \<leftarrow> stream_on_client A cl mt path gone budget fuel;
          (if still_reading r then State_Monad.return () else client_drop A cl);
          State_Monad.return r
        })
   }"

section \<open>AsyncStream\<close>

text \<open>The items still to be received; an empty channel whose sender is gone reads as the end.\<close>

record async_stream =
  as_status :: status
  as_headers :: "(string \<times> string) list"
  as_chunks :: "stream_item list"

definition async_stream_status :: "async_stream \<Rightarrow> status" where
  "async_stream_status s = as_status s"

definition async_stream_header :: "async_stream \<Rightarrow> string \<Rightarrow> string option" where
  "async_stream_header s name = map_option snd (find (\<lambda>(n, _). n = name) (as_headers s))"

definition async_stream_headers :: "async_stream \<Rightarrow> (string \<times> string) list" where
  "async_stream_headers s = as_headers s"

definition async_stream_recv :: "async_stream \<Rightarrow> stream_item \<times> async_stream" where
  "async_stream_recv s =
     (case as_chunks s of
        [] \<Rightarrow> (Inr None, s)
      | item # rest \<Rightarrow> (item, s\<lparr>as_chunks := rest\<rparr>))"

text \<open>What the caller of \<^verbatim>\<open>stream\<close> gets when the thread reported back, and the whole of \<^verbatim>\<open>stream\<close>.\<close>

definition stream_result :: "stream_start \<Rightarrow> error + async_stream" where
  "stream_result r =
     (case r of
        StreamFailed e \<Rightarrow> Inl e
      | StreamUnheard \<Rightarrow> Inl Internal
      | StreamOpen st hs _ sent \<Rightarrow> Inr \<lparr>as_status = st, as_headers = hs, as_chunks = sent\<rparr>)"

definition builder_stream ::
  "'c identity_api \<Rightarrow> ('c, 'x) client_api_scheme \<Rightarrow> bool \<Rightarrow> client_builder \<Rightarrow> request_method \<Rightarrow> string \<Rightarrow> node_id \<Rightarrow>
   address \<Rightarrow> bool \<Rightarrow> nat \<Rightarrow> nat \<Rightarrow> ('c, async_stream) io_result" where
  "builder_stream I A spawned b mt path target addr gone budget fuel =
     (if \<not> spawned then do { client_builder_drop I b; ret_err Internal }
      else do {
        start \<leftarrow> stream_thread I A b mt path target addr gone budget fuel;
        lift_res (stream_result start)
      })"

section \<open>What is delivered\<close>

text \<open>The documented contract of the library's \<^verbatim>\<open>stream_recv\<close>: it writes the bytes it counts, into the buffer.\<close>

definition recv_contract :: "('c, 'x) client_api_scheme \<Rightarrow> bool" where
  "recv_contract A \<longleftrightarrow> (\<forall>p i len c. case fst (c_client_stream_recv A p i len c) of (rc, written, n, ended) \<Rightarrow>
     0 \<le> rc \<longrightarrow> length written = n \<and> n \<le> len)"

text \<open>The body as the library has it: its chunks in order, and the error it breaks off with or the verdict.\<close>

fun library_stream ::
  "('c, 'x) client_api_scheme \<Rightarrow> client_stream \<Rightarrow> bytes \<Rightarrow> nat \<Rightarrow> nat \<Rightarrow> 'c \<Rightarrow> (bytes list \<times> stream_item) option" where
  "library_stream A st peer size_n 0 c = None"
| "library_stream A st peer size_n (Suc fuel) c =
     (case c_client_stream_recv A (st_client st) (st_id st) size_n c of
        ((rc, written, n, ended), c') \<Rightarrow>
          if rc < 0 then Some ([], Inl (error_from_code rc))
          else let chunk = (if 0 < n then [written] else []) in
            if ended \<noteq> 0
            then Some (chunk, map_ok (\<lambda>_. None)
                   (error_check (fst (c_client_stream_verify A (st_client st) (st_id st) peer c'))))
            else map_option (\<lambda>(cs, e). (chunk @ cs, e)) (library_stream A st peer size_n fuel c'))"

definition items_of :: "bytes list \<times> stream_item \<Rightarrow> stream_item list" where
  "items_of b = map (Inr \<circ> Some) (fst b) @ [snd b]"

lemma reader_loop_delivers:
  assumes "recv_contract A" and "library_stream A st peer (length buf) fuel (lib w) = Some b"
  shows "fst (run_state (reader_loop A st peer fuel budget buf) w) = (ReaderDone, take budget (items_of b))"
  using assms(2)
proof (induction fuel arbitrary: buf budget w b)
  case 0
  then show ?case by simp
next
  case (Suc fuel)
  obtain rc written n ended c where r:
    "c_client_stream_recv A (st_client st) (st_id st) (length buf) (lib w) = ((rc, written, n, ended), c)"
    by (metis prod.collapse)
  show ?case
  proof (cases "rc < 0")
    case True
    then show ?thesis
      using Suc.prems r by (auto simp: stream_recv_def error_check_def items_of_def)
  next
    case False
    have k: "length written = n" "n \<le> length buf"
      using assms(1) r False unfolding recv_contract_def by (metis (mono_tags, lifting) case_prod_conv fst_conv not_less)+
    have t: "take n (overwrite written buf) = written" using take_overwrite [of written buf] k by simp
    let ?w = "w\<lparr>lib := c, history := history w @ [Use KClient (st_client st)]\<rparr>"
    let ?chunk = "if 0 < n then [written] else []"
    show ?thesis
    proof (cases "ended = 0")
      case True
      then obtain b' where b': "library_stream A st peer (length buf) fuel c = Some b'"
        and b: "b = (?chunk @ fst b', snd b')"
        using Suc.prems r False by (auto simp: Let_def split: if_splits)
      have "fst (run_state (reader_loop A st peer fuel d (overwrite written buf)) ?w) =
          (ReaderDone, take d (items_of b'))" for d
        using Suc.IH [of "overwrite written buf" ?w b' d] b' by simp
      then show ?thesis
        using r False True b k t
        by (cases budget) (auto simp: stream_recv_def error_check_def items_of_def case_prod_beta Let_def)
    next
      case ended: False
      then show ?thesis
        using Suc.prems r False k t
        by (cases budget) (auto simp: stream_recv_def stream_verify_def error_check_def items_of_def
            case_prod_beta Let_def)
    qed
  qed
qed

lemma library_stream_closes:
  "library_stream A st peer size_n fuel c = Some (cs, e) \<Longrightarrow> \<forall>x. e \<noteq> Inr (Some x)"
  by (induction fuel arbitrary: c cs)
    (auto simp: Let_def error_check_def split: prod.splits if_splits)

text \<open>Receiving \<open>k\<close> times.\<close>

fun async_receive :: "nat \<Rightarrow> async_stream \<Rightarrow> stream_item list \<times> async_stream" where
  "async_receive 0 s = ([], s)"
| "async_receive (Suc k) s =
     (case async_stream_recv s of (x, s') \<Rightarrow> case async_receive k s' of (xs, s'') \<Rightarrow> (x # xs, s''))"

lemma async_receive_items:
  "fst (async_receive k s) = take k (as_chunks s) @ replicate (k - length (as_chunks s)) (Inr None)"
proof (induction k arbitrary: s)
  case 0
  then show ?case by simp
next
  case (Suc k)
  show ?case
    by (cases "as_chunks s") (simp_all add: async_stream_recv_def case_prod_beta Suc.IH)
qed

section \<open>Handles of the reader thread\<close>

lemma reader_loop_preserves:
  assumes "usable m (KClient, st_client st)"
  shows "preserves m (reader_loop A st peer fuel budget buf)"
proof (induction fuel arbitrary: budget buf)
  case 0
  then show ?case by (simp add: preserves_return)
next
  case (Suc fuel)
  show ?case
    unfolding reader_loop.simps stream_recv_def stream_verify_def Let_def
    using assms Suc.IH by (auto intro!: keep_rules)
qed

lemma headers_drain_preserves: "preserves m (headers_drain fuel A h)"
proof (induction fuel arbitrary: h)
  case 0
  then show ?case by (simp add: preserves_return)
next
  case (Suc fuel)
  show ?case
    unfolding headers_drain.simps headers_next_def Let_def using Suc.IH by (auto intro!: keep_rules)
qed

lemma stream_read_outcome:
  assumes "coherent w m" and "usable m (KClient, cl_raw cl)" and "st_client st = cl_raw cl"
    and "fresh_ptr KMessage (c_client_stream_response A (st_client st) (st_id st)) (lib w) m"
    and "run_state (stream_read A cl st gone budget fuel) w = (r, w')"
  shows "strong w' = strong w \<and> (if still_reading r then judged w' \<noteq> None else coherent w' m)"
proof -
  let ?w = "w\<lparr>history := history w @ [Use KClient (st_client st)]\<rparr>"
  have w: "coherent ?w m" using coherent_steps [OF assms(1), of "[Use KClient (st_client st)]"] assms(2,3) by simp
  obtain got v where g: "run_state (owned_response (c_client_stream_response A (st_client st) (st_id st))) ?w = (got, v)"
    by (metis prod.collapse)
  have got: "run_state (stream_response A st) w = (got, v)" using g by (simp add: stream_response_def)
  have sv: "strong v = strong w"
    using g by (auto simp: owned_response_def opened_def case_prod_beta split: if_splits)
  have out: "case got of Inl e \<Rightarrow> coherent v m | Inr h \<Rightarrow> \<exists>m'. owns_handle KMessage (rp_msg h) m m' \<and> coherent v m'"
    by (rule response_handle.opened_outcome [OF w]) (use assms(4) g in \<open>simp_all add: owned_response_def\<close>)
  show ?thesis
  proof (cases got)
    case (Inl e)
    then show ?thesis using got out sv assms(5) by (auto simp: stream_read_def still_reading_def)
  next
    case (Inr meta)
    then obtain m' where o: "owns_handle KMessage (rp_msg meta) m m'" and v: "coherent v m'" using out by auto
    have um: "usable m' (KMessage, rp_msg meta)" by (rule owns_usable [OF o])
    have uc: "usable m' (KClient, cl_raw cl)"
      using assms(2) o by (auto simp: owns_handle_def usable_def split: option.splits)
    define look where "look = do {
          status \<leftarrow> response_status A meta;
          iter \<leftarrow> response_headers A meta;
          headers \<leftarrow> headers_collect A iter;
          State_Monad.return (status, headers) }"
    define pull where "pull = do {
          key \<leftarrow> client_peer_pubkey A cl;
          reader_loop A st (case key of Inl _ \<Rightarrow> zeros 32 | Inr k \<Rightarrow> k) fuel budget (zeros stream_chunk) }"
    have hc: "preserves m' (headers_collect A iter)" for iter
      unfolding headers_collect_def by (intro keep_rules headers_drain_preserves)
    have pl: "preserves m' look"
      unfolding look_def response_status_def response_headers_def headers_new_def
      by (intro keep_rules um hc)
    have pp: "preserves m' pull"
      unfolding pull_def client_peer_pubkey_def
      by (intro keep_rules uc reader_loop_preserves) (use uc assms(3) in simp)
    obtain hs v1 where l: "run_state look v = (hs, v1)" by (metis prod.collapse)
    have v1: "coherent v1 m'" "strong v1 = strong w"
      using preservesD [OF pl v] preserves_strong [OF pl v] l sv by simp_all
    obtain res v2 where p: "run_state pull v1 = (res, v2)" by (metis prod.collapse)
    have v2: "coherent v2 m'" "strong v2 = strong w"
      using preservesD [OF pp v1(1)] preserves_strong [OF pp v1(1)] p v1(2) by simp_all
    have drop: "coherent (snd (run_state (response_drop A meta) u)) m" if "coherent u m'" for u
      unfolding response_drop_def by (rule owns_release [OF o that])
    have sd: "strong (snd (run_state (response_drop A meta) u)) = strong u" for u
      by (simp add: response_drop_def)
    have "run_state (stream_read A cl st gone budget fuel) w =
      (if gone then (StreamUnheard, snd (run_state (response_drop A meta) v1))
       else (StreamOpen (opt_unwrap_or (fst hs) StError) (opt_unwrap_or (snd hs) []) (fst res) (snd res),
         if fst res = ReadOn then v2 else snd (run_state (response_drop A meta) v2)))"
      using got Inr l p by (auto simp: stream_read_def look_def pull_def case_prod_beta)
    then show ?thesis
      using assms(5) drop [OF v1(1)] drop [OF v2(1)] sd v1 v2
      by (auto simp: still_reading_def coherent_def split: if_splits)
  qed
qed

lemma stream_thread_outcome:
  assumes "coherent w (with_caches m w)" and "no_caches m"
    and "\<And>kp. fresh_ptr KClient (c_client_connect A kp (node_id_raw target) (address_as_raw addr)) (lib w) m"
    and "\<forall>p i c. fresh_ptr KMessage (c_client_stream_response A p i) c m"
    and "run_state (stream_thread I A b mt path target addr gone budget fuel) w = (r, w')"
  shows "if still_reading r then judged w' \<noteq> None else coherent w' (with_caches m w')"
proof -
  obtain res v where c: "run_state (client_connect I A b target addr) w = (res, v)" by (metis prod.collapse)
  have o: "case res of Inl e \<Rightarrow> coherent v (with_caches m v) | Inr cl \<Rightarrow> client_inv m (cl, v)"
    by (rule client_connect_outcome [OF assms(1-3)]) (use c in \<open>simp add: client_connect_def\<close>)
  show ?thesis
  proof (cases res)
    case (Inl e)
    then show ?thesis using c o assms(5) by (auto simp: stream_thread_def still_reading_def)
  next
    case (Inr cl)
    let ?M = "client_monitor m cl v"
    have inv: "client_inv m (cl, v)" using o Inr by simp
    then have coh: "coherent v ?M" by (simp add: client_inv_def)
    have u: "usable ?M (KClient, cl_raw cl)" by (rule client_usable [OF inv])
    have p: "preserves ?M (client_open_stream A cl mt path)"
      unfolding client_open_stream_def by (intro keep_rules u)
    obtain st v1 where op: "run_state (client_open_stream A cl mt path) v = (st, v1)" by (metis prod.collapse)
    have v1: "coherent v1 ?M" "strong v1 = strong v"
      using preservesD [OF p coh] preserves_strong [OF p coh] op by simp_all
    obtain q v2 where on: "run_state (stream_on_client A cl mt path gone budget fuel) v = (q, v2)"
      by (metis prod.collapse)
    have v2: "strong v2 = strong v \<and> (if still_reading q then judged v2 \<noteq> None else coherent v2 ?M)"
    proof (cases st)
      case (Inl e)
      then show ?thesis using op on v1 by (auto simp: stream_on_client_def still_reading_def)
    next
      case (Inr s)
      then have sc: "st_client s = cl_raw cl"
        using op by (auto simp: client_open_stream_def case_prod_beta split: option.splits sum.splits if_splits)
      obtain q1 v3 where rd: "run_state (stream_read A cl s gone budget fuel) v1 = (q1, v3)" by (metis prod.collapse)
      have fr: "fresh_ptr KMessage (c_client_stream_response A (st_client s) (st_id s)) (lib v1) ?M"
        using assms(4) by (auto simp: fresh_ptr_def client_monitor_def split: prod.splits)
      note r3 = stream_read_outcome [OF v1(1) u sc fr rd]
      have pd: "preserves ?M (stream_drop A s)"
        unfolding stream_drop_def by (intro keep_rules) (use u sc in simp)
      have on': "(q, v2) = (if still_reading q1 then (q1, v3) else (q1, snd (run_state (stream_drop A s) v3)))"
        using on op Inr rd by (auto simp: stream_on_client_def case_prod_beta)
      show ?thesis
      proof (cases "still_reading q1")
        case True
        then show ?thesis using on' r3 v1(2) by simp
      next
        case False
        then have "coherent v3 ?M" using r3 by simp
        then show ?thesis
          using on' False r3 v1(2) preservesD [OF pd] preserves_strong [OF pd] by auto
      qed
    qed
    have "client_inv m (cl, v2)" if "\<not> still_reading q"
      by (rule client_inv_keep [OF inv]) (use v2 that in simp_all)
    then have "\<not> still_reading q \<Longrightarrow> coherent (snd (run_state (client_drop A cl) v2))
        (with_caches m (snd (run_state (client_drop A cl) v2)))"
      by (rule client_drop_outcome)
    moreover have "(r, w') = (if still_reading q then (q, v2) else (q, snd (run_state (client_drop A cl) v2)))"
      using assms(5) c Inr on by (auto simp: stream_thread_def case_prod_beta)
    ultimately show ?thesis using v2 by (auto split: if_splits)
  qed
qed

section \<open>Properties\<close>

text \<open>
  C12. The managed stream hands over exactly the body: with a library that writes what it counts, a reader whose
  stream ends delivers the library's chunks in order, each once, then one closing item, which is \<^verbatim>\<open>Ok(None)\<close>
  only when the trailer signature verified and otherwise the error; a consumer that goes away after \<open>budget\<close>
  items has received the first \<open>budget\<close> of these. Receiving yields them in order, and after the last, also
  after an error, every further \<^verbatim>\<open>recv\<close> yields \<^verbatim>\<open>Ok(None)\<close>, the value that stands for a verified end.
\<close>

theorem stream_delivers_body:
  assumes "recv_contract A" and "library_stream A st peer (length buf) fuel (lib w) = Some (cs, e)"
  shows "fst (run_state (reader_loop A st peer fuel budget buf) w) =
      (ReaderDone, take budget (map (Inr \<circ> Some) cs @ [e])) \<and>
    (\<forall>c. e \<noteq> Inr (Some c)) \<and>
    (length cs < budget \<longrightarrow> fst (async_receive (Suc (length cs) + k)
        \<lparr>as_status = s, as_headers = hs, as_chunks = take budget (map (Inr \<circ> Some) cs @ [e])\<rparr>) =
      map (Inr \<circ> Some) cs @ [e] @ replicate k (Inr None))"
proof -
  have "\<forall>c. e \<noteq> Inr (Some c)"
    using assms(2) by (rule library_stream_closes)
  moreover have "fst (async_receive (Suc (length cs) + k) \<lparr>as_status = s, as_headers = hs,
      as_chunks = map (Inr \<circ> Some) cs @ [e]\<rparr>) = map (Inr \<circ> Some) cs @ [e] @ replicate k (Inr None)"
    unfolding async_receive_items by simp
  ultimately show ?thesis
    using reader_loop_delivers [OF assms, of budget] by (simp add: items_of_def del: async_receive.simps)
qed

text \<open>A library that streams three chunks, then says the stream has ended with the given verdict.\<close>

definition chunk_client_api :: "int \<Rightarrow> nat client_api" where
  "chunk_client_api verdict = sample_client_api\<lparr>
     c_client_stream_recv := (\<lambda>p i n c. (if n = 0 then (-1, [], 0, 0) else (0, [of_nat c], 1, if c = 2 then 1 else 0), Suc c)),
     c_client_stream_verify := (\<lambda>p i k c. (verdict, c))\<rparr>"

lemma chunk_contract: "recv_contract (chunk_client_api verdict)"
  by (auto simp: recv_contract_def chunk_client_api_def split: prod.splits)

lemma chunk_library_stream:
  assumes "0 < n"
  shows "library_stream (chunk_client_api verdict) st key n 4 0 =
    Some ([[0], [1], [2]], map_ok (\<lambda>_. None) (error_check verdict))"
  using assms by (simp add: chunk_client_api_def eval_nat_numeral)

theorem stream_delivers_body_witness:
  "fst (run_state (reader_loop (chunk_client_api (-205)) \<lparr>st_client = 5, st_id = 3\<rparr> [] 4 9 (zeros stream_chunk))
      (world_init 0)) =
    (ReaderDone, [Inr (Some [0]), Inr (Some [1]), Inr (Some [2]), Inl (error_from_code (-205))]) \<and>
   fst (async_receive 5 \<lparr>as_status = StOk, as_headers = [],
       as_chunks = [Inr (Some [0]), Inr (Some [1]), Inr (Some [2]), Inl (error_from_code (-205))]\<rparr>) =
     [Inr (Some [0]), Inr (Some [1]), Inr (Some [2]), Inl (error_from_code (-205)), Inr None]"
proof -
  have l: "library_stream (chunk_client_api (-205)) \<lparr>st_client = 5, st_id = 3\<rparr> [] (length (zeros stream_chunk)) 4
      (lib (world_init 0)) = Some ([[0], [1], [2]], Inl (error_from_code (-205)))"
    using chunk_library_stream [of "length (zeros stream_chunk)"]
    by (simp add: world_init_def stream_chunk_def error_check_def)
  have five: "Suc (length [[0 :: u8], [1], [2]]) + 1 = 5" by simp
  show ?thesis
    using stream_delivers_body [OF chunk_contract l, of 9 1 StOk "[]"] unfolding five by simp
qed

text \<open>
  The stream's thread is clean: a failed connect, open or metadata read, a caller that went away, the end
  of the stream, a mid-stream error, a consumer that went away and a panic on a bad count all free the
  metadata, the stream and the client, each once and the client last; while it reads every call is legal.
\<close>

lemma stream_thread_is_clean:
  assumes "coherent w (with_caches m w)" and "no_caches m"
    and "\<And>kp. fresh_ptr KClient (c_client_connect A kp (node_id_raw target) (address_as_raw addr)) (lib w) m"
    and "\<forall>p i c. fresh_ptr KMessage (c_client_stream_response A p i) c m"
    and "run_state (stream_thread I A b mt path target addr gone budget fuel) w = (r, w')"
  shows "judged w' \<noteq> None \<and> (\<not> still_reading r \<longrightarrow> coherent w' (with_caches m w'))"
  using stream_thread_outcome [OF assms] by (auto simp: coherent_def split: if_splits)

end
