(* ===== verification/AppServices.thy ===== *)
theory AppServices
  imports LogServer Server
begin

text \<open>
  The services of the programs under \<^verbatim>\<open>nwep/examples\<close>: the request handlers of \<^verbatim>\<open>nwkv\<close>, \<^verbatim>\<open>nwserve\<close>,
  \<^verbatim>\<open>nwdrop\<close>, \<^verbatim>\<open>nwcurl\<close>, \<^verbatim>\<open>nwlog\<close> and of both servers of \<^verbatim>\<open>nwproxy\<close>.

  What a handler shares with its loop (an \<^verbatim>\<open>Arc<Mutex<_>>\<close> or a counter) is a component of the parameter
  \<open>'c\<close>, like the environment of every closure; \<open>shared\<close> reads and replaces it. The locale
  \<open>deciding_handler\<close> is the contract of a handler that looks at the request and at what it shares, and then
  answers with headers and one terminal; each service interprets it.
\<close>

section \<open>Handlers that decide\<close>

record ('c, 'v) shared =
  sh_get :: "'c \<Rightarrow> 'v"
  sh_put :: "'v \<Rightarrow> 'c \<Rightarrow> 'c"

definition shared_read :: "('c, 'v) shared \<Rightarrow> ('c, 'v) io" where
  "shared_read s = peek (sh_get s)"

definition shared_write :: "('c, 'v) shared \<Rightarrow> 'v \<Rightarrow> ('c, unit) io" where
  "shared_write s v = call (\<lambda>c. ((), sh_put s v c))"

lemma run_shared [simp]:
  "run_state (shared_read s) w = (sh_get s (lib w), w)"
  "run_state (shared_write s v) w = ((), w\<lparr>lib := sh_put s v (lib w)\<rparr>)"
  by (simp_all add: shared_read_def shared_write_def)

text \<open>What a request says, as its accessors read it.\<close>

definition header_of :: "('c, 'x) message_api_scheme \<Rightarrow> ptr \<Rightarrow> string \<Rightarrow> 'c \<Rightarrow> string option" where
  "header_of A msg name c =
     (case cstring_new name of
        None \<Rightarrow> None
      | Some n \<Rightarrow> (case c_message_get_header A msg n c of None \<Rightarrow> None | Some v \<Rightarrow> to_str v))"

definition body_of :: "('c, 'x) message_api_scheme \<Rightarrow> ptr \<Rightarrow> 'c \<Rightarrow> bytes" where
  "body_of A msg c = (case c_message_get_body A msg c of None \<Rightarrow> [] | Some bs \<Rightarrow> bs)"

lemma run_request_reads [simp]:
  "run_state (request_header A q name) w = (header_of A (rq_msg q) name (lib w), w)"
  "run_state (request_path A q) w = (header_of A (rq_msg q) '':path'' (lib w), w)"
  "run_state (request_body A q) w = (body_of A (rq_msg q) (lib w), w)"
  by (simp_all add: request_header_def request_path_def request_body_def message_header_def message_body_def
      header_of_def body_of_def split: option.split)

text \<open>
  A decision: the headers and the terminal, or \<open>None\<close> for a panic, and what becomes of the shared state.
\<close>

type_synonym 'c decision = "((string \<times> string) list \<times> terminal) option \<times> 'c"

definition carry_out :: "('c, 'x) handler_api_scheme \<Rightarrow> responder \<Rightarrow> 'c decision \<Rightarrow> ('c, reply option) io" where
  "carry_out A r d = (case d of (answer, c) \<Rightarrow> do {
     put_lib c;
     (case answer of
        None \<Rightarrow> State_Monad.return None
      | Some (hs, t) \<Rightarrow> do { reply \<leftarrow> respond_with A r hs t; State_Monad.return (Some reply) })
   })"

locale deciding_handler =
  fixes A :: "('c, 'x) handler_api_scheme"
    and h :: "'c handler"
    and decide :: "request \<Rightarrow> 'c \<Rightarrow> 'c decision"
  assumes decides: "run_state (h q r) w = run_state (carry_out A r (decide q (lib w))) w"
    and needs_own: "fst (decide q c) = Some (hs, t) \<Longrightarrow> needs s t \<subseteq> {(KServer, s)}"
begin

lemma polite_handler: "polite h"
  unfolding polite_def
proof (intro allI impI)
  fix req :: request and res :: responder and m
  assume f: "(KFrame, rs_rc res) \<in> live m" and s: "usable m (KServer, rq_server req)"
    and e: "rs_server res = rq_server req"
  show "preserves m (h req res)"
  proof (rule preservesI)
    fix w :: "'c world"
    assume coh: "coherent w m"
    obtain a c where d: "decide req (lib w) = (a, c)" by (metis prod.collapse)
    show "coherent (snd (run_state (h req res) w)) m \<and> strong (snd (run_state (h req res) w)) = strong w"
    proof (cases a)
      case None
      then show ?thesis using coh by (simp add: decides d carry_out_def)
    next
      case (Some ht)
      obtain hs t where ht: "ht = (hs, t)" by (cases ht)
      have u: "mon_run (terminal_uses res t) m = Some m"
        by (rule terminal_uses_accepted) (use needs_own [of req "lib w" hs t "rq_server req"] d Some ht s e in auto)
      show ?thesis
        using coh u f by (auto simp: decides d carry_out_def Some ht run_respond_with answered_def coherent_def
            usable_def simp del: respond_with.simps)
    qed
  qed
qed

text \<open>In its callback the handler is the closure that gives the decided answer.\<close>

lemma answers_as_decided:
  assumes "decide \<lparr>rq_msg = msg, rq_server = server, rq_conn = conn, rq_stream = stream\<rparr> (lib w) = (Some (hs, t), c)"
  shows "run_state (trampoline \<lparr>hb_id = i, hb_f = h\<rparr> server conn stream msg buf) w =
    run_state (trampoline (plain_handler A i hs t) server conn stream msg buf) (w\<lparr>lib := c\<rparr>)"
  unfolding run_plain_handler
  by (subst run_trampoline [OF refl refl refl prod.collapse [symmetric]])
    (simp add: decides assms carry_out_def run_respond_with answered_def frame_responder_def Let_def
      del: respond_with.simps)

end

text \<open>Views of a conditional and of a range request.\<close>

definition fresh_of :: "('c, 'x) handler_api_scheme \<Rightarrow> request \<Rightarrow> string \<Rightarrow> 'c \<Rightarrow> bool" where
  "fresh_of A q etag c =
     (case cstring_new etag of None \<Rightarrow> False | Some e \<Rightarrow> c_request_is_fresh A (rq_msg q) e c \<noteq> 0)"

definition range_of ::
  "('c, 'x) handler_api_scheme \<Rightarrow> request \<Rightarrow> u64 \<Rightarrow> string option \<Rightarrow> 'c \<Rightarrow> (error + range_outcome) option" where
  "range_of A q total_len etag c =
     (case (case etag of None \<Rightarrow> Inr None | Some e \<Rightarrow> map_ok Some (ok_or (cstring_new e) ProtoInvalidHeader)) of
        Inl e \<Rightarrow> Some (Inl e)
      | Inr etag_c \<Rightarrow> (case c_request_range A (rq_msg q) total_len etag_c max_ranges c of (rc, written, cnt) \<Rightarrow>
          range_result rc (overwrite written (replicate max_ranges zero_range)) cnt))"

lemma run_request_views [simp]:
  "run_state (request_is_fresh A q etag) w = (fresh_of A q etag (lib w), w)"
  "run_state (request_range A q total_len e) w = (range_of A q total_len e (lib w), w)"
  by (auto simp: request_is_fresh_def fresh_of_def request_range_def range_of_def Let_def
      split: option.split sum.split prod.split)

text \<open>The value of the closure's last expression.\<close>

definition answer :: "('c, reply) io \<Rightarrow> ('c, reply option) io" where
  "answer act = do { reply \<leftarrow> act; State_Monad.return (Some reply) }"

definition bytes_of :: "string \<Rightarrow> bytes" where
  "bytes_of s = map of_char s"

text \<open>The responder's methods as the terminals they are.\<close>

lemma run_answer [simp]: "run_state (answer act) w = (case run_state act w of (x, w') \<Rightarrow> (Some x, w'))"
  by (simp add: answer_def)

lemmas as_terminals = respond.simps [symmetric]

section \<open>The key-value service\<close>

record kv_env =
  ke_store :: "string \<rightharpoonup> bytes"
  ke_notify :: "u64 list"

record kv_request =
  kr_conn :: u64
  kr_path :: string
  kr_method :: string
  kr_body :: bytes

definition kv_handler :: "('c, 'x) handler_api_scheme \<Rightarrow> ('c, kv_env) shared \<Rightarrow> 'c handler" where
  "kv_handler A env = (\<lambda>q r. do {
     p \<leftarrow> request_path A q;
     m \<leftarrow> request_header A q '':method'';
     let path = opt_unwrap_or p '''';
     let verb = opt_unwrap_or m ''read'';
     e \<leftarrow> shared_read env;
     (if verb = ''write'' then do {
        body \<leftarrow> request_body A q;
        let e' = e\<lparr>ke_store := (ke_store e)(path \<mapsto> body)\<rparr>;
        shared_write env (e'\<lparr>ke_notify := ke_notify e' @ [request_conn_id q]\<rparr>);
        answer (responder_status A r StCreated [])
      }
      else if verb = ''delete'' then
        (case ke_store e path of
           Some _ \<Rightarrow> do {
             shared_write env (e\<lparr>ke_store := (ke_store e)(path := None)\<rparr>);
             answer (responder_status A r StNoContent [])
           }
         | None \<Rightarrow> answer (responder_not_found A r))
      else
        (case ke_store e path of
           Some v \<Rightarrow> answer (responder_ok A r v)
         | None \<Rightarrow> answer (responder_not_found A r)))
   })"

definition kv_view :: "('c, 'x) handler_api_scheme \<Rightarrow> request \<Rightarrow> 'c \<Rightarrow> kv_request" where
  "kv_view A q c = \<lparr>kr_conn = rq_conn q, kr_path = opt_unwrap_or (header_of A (rq_msg q) '':path'' c) '''',
     kr_method = opt_unwrap_or (header_of A (rq_msg q) '':method'' c) ''read'', kr_body = body_of A (rq_msg q) c\<rparr>"

definition kv_step :: "kv_request \<Rightarrow> kv_env \<Rightarrow> terminal \<times> kv_env option" where
  "kv_step rq e =
     (if kr_method rq = ''write'' then (TStatus StCreated [],
        Some (e\<lparr>ke_store := (ke_store e)(kr_path rq \<mapsto> kr_body rq), ke_notify := ke_notify e @ [kr_conn rq]\<rparr>))
      else if kr_method rq = ''delete'' then
        (if ke_store e (kr_path rq) = None then (TNotFound, None)
         else (TStatus StNoContent [], Some (e\<lparr>ke_store := (ke_store e)(kr_path rq := None)\<rparr>)))
      else (case ke_store e (kr_path rq) of None \<Rightarrow> TNotFound | Some v \<Rightarrow> TOk v, None))"

definition kv_decide :: "('c, 'x) handler_api_scheme \<Rightarrow> ('c, kv_env) shared \<Rightarrow> request \<Rightarrow> 'c \<Rightarrow> 'c decision" where
  "kv_decide A env q c = (case kv_step (kv_view A q c) (sh_get env c) of (t, e) \<Rightarrow>
     (Some ([], t), case e of None \<Rightarrow> c | Some e' \<Rightarrow> sh_put env e' c))"

interpretation kv: deciding_handler A "kv_handler A env" "kv_decide A env" for A env
proof (unfold_locales, goal_cases)
  case (1 q r w)
  then show ?case
    by (simp add: kv_handler_def kv_decide_def kv_step_def kv_view_def carry_out_def request_conn_id_def Let_def
        as_terminals run_respond split: option.split del: respond.simps)
next
  case (2 q c hs t s)
  then show ?case by (auto simp: kv_decide_def kv_step_def split: if_splits option.splits prod.splits)
qed

section \<open>Static content and files\<close>

text \<open>\<^verbatim>\<open>PAGE\<close> and \<^verbatim>\<open>ETAG\<close> of \<^verbatim>\<open>nwserve\<close>; the constants are bytes and characters of ASCII.\<close>

definition page :: bytes where
  "page = bytes_of ''the quick brown fox jumps over the lazy dog''"

definition page_etag :: string where
  "page_etag = [CHR 0x22, CHR ''v'', CHR ''1'', CHR 0x22]"

definition page_handler :: "('c, 'x) handler_api_scheme \<Rightarrow> 'c handler" where
  "page_handler A = (\<lambda>q r. do {
     p \<leftarrow> request_path A q;
     (if p \<noteq> Some ''/page'' then answer (responder_not_found A r)
      else do {
        fresh \<leftarrow> request_is_fresh A q page_etag;
        (if fresh then answer (responder_not_modified A r page_etag)
         else do {
           let total_len = word_of_nat (length page);
           outcome \<leftarrow> request_range A q total_len (Some page_etag);
           (case outcome of
              None \<Rightarrow> State_Monad.return None
            | Some (Inr (Ranges rs)) \<Rightarrow> do {
                r' \<leftarrow> responder_header A r ''etag'' page_etag;
                answer (responder_partial A r' page rs ''text/plain'')
              }
            | Some (Inr RangeUnsatisfiable) \<Rightarrow> answer (responder_range_not_satisfiable A r total_len)
            | Some _ \<Rightarrow> do {
                r' \<leftarrow> responder_header A r ''etag'' page_etag;
                answer (responder_ok A r' page)
              })
         })
      })
   })"

text \<open>\<^verbatim>\<open>nwdrop\<close> serves one file, without an etag.\<close>

definition dropped_file :: bytes where
  "dropped_file = bytes_of ''the entire contents of a small file moved by node_id alone''"

definition blob_handler :: "('c, 'x) handler_api_scheme \<Rightarrow> 'c handler" where
  "blob_handler A = (\<lambda>q r. do {
     p \<leftarrow> request_path A q;
     (if p \<noteq> Some ''/blob'' then answer (responder_not_found A r)
      else do {
        let total_len = word_of_nat (length dropped_file);
        outcome \<leftarrow> request_range A q total_len None;
        (case outcome of
           None \<Rightarrow> State_Monad.return None
         | Some (Inr (Ranges rs)) \<Rightarrow> answer (responder_partial A r dropped_file rs ''application/octet-stream'')
         | Some (Inr RangeUnsatisfiable) \<Rightarrow> answer (responder_range_not_satisfiable A r total_len)
         | Some _ \<Rightarrow> answer (responder_ok A r dropped_file))
      })
   })"

text \<open>What a resource answers to a range: part of it, none of it, or all of it for every other outcome.\<close>

definition ranged ::
  "bytes \<Rightarrow> string \<Rightarrow> (string \<times> string) list \<Rightarrow> (error + range_outcome) option \<Rightarrow> ((string \<times> string) list \<times> terminal) option"
where
  "ranged body ctype hs outcome =
     (case outcome of
        None \<Rightarrow> None
      | Some (Inr (Ranges rs)) \<Rightarrow> Some (hs, TPartial body rs ctype)
      | Some (Inr RangeUnsatisfiable) \<Rightarrow> Some ([], TRangeNotSatisfiable (word_of_nat (length body)))
      | Some _ \<Rightarrow> Some (hs, TOk body))"

definition page_decide :: "('c, 'x) handler_api_scheme \<Rightarrow> request \<Rightarrow> 'c \<Rightarrow> 'c decision" where
  "page_decide A q c =
     (if header_of A (rq_msg q) '':path'' c \<noteq> Some ''/page'' then Some ([], TNotFound)
      else if fresh_of A q page_etag c then Some ([], TNotModified page_etag)
      else ranged page ''text/plain'' [(''etag'', page_etag)]
        (range_of A q (word_of_nat (length page)) (Some page_etag) c), c)"

definition blob_decide :: "('c, 'x) handler_api_scheme \<Rightarrow> request \<Rightarrow> 'c \<Rightarrow> 'c decision" where
  "blob_decide A q c =
     (if header_of A (rq_msg q) '':path'' c \<noteq> Some ''/blob'' then Some ([], TNotFound)
      else ranged dropped_file ''application/octet-stream'' [] (range_of A q (word_of_nat (length dropped_file)) None c), c)"

lemma ranged_needs: "ranged body ctype hs out = Some (hs', t) \<Longrightarrow> needs s t = {}"
  by (auto simp: ranged_def split: option.splits sum.splits range_outcome.splits)

interpretation page: deciding_handler A "page_handler A" "page_decide A" for A
proof (unfold_locales, goal_cases)
  case (1 q r w)
  then show ?case
    by (simp add: page_handler_def page_decide_def carry_out_def ranged_def Let_def as_terminals run_respond
        split: option.split sum.split range_outcome.split del: respond.simps)
next
  case (2 q c hs t s)
  then show ?case by (auto simp: page_decide_def dest: ranged_needs split: if_splits)
qed

interpretation blob: deciding_handler A "blob_handler A" "blob_decide A" for A
proof (unfold_locales, goal_cases)
  case (1 q r w)
  then show ?case
    by (simp add: blob_handler_def blob_decide_def carry_out_def ranged_def Let_def as_terminals run_respond
        split: option.split sum.split range_outcome.split del: respond.simps)
next
  case (2 q c hs t s)
  then show ?case by (auto simp: blob_decide_def dest: ranged_needs split: if_splits)
qed

section \<open>Proxy, origin and streams\<close>

text \<open>The origin of \<^verbatim>\<open>nwproxy\<close> counts its hits; an atomic addition wraps.\<close>

definition origin_handler :: "('c, 'x) handler_api_scheme \<Rightarrow> ('c, u64) shared \<Rightarrow> 'c handler" where
  "origin_handler A hits = (\<lambda>q r. do {
     p \<leftarrow> request_path A q;
     (if p = Some ''/doc'' then do {
        n \<leftarrow> shared_read hits;
        shared_write hits (n + 1);
        r' \<leftarrow> responder_header A r ''cache-control'' ''public'';
        answer (responder_ok A r' (bytes_of ''the origin document''))
      }
      else answer (responder_not_found A r))
   })"

text \<open>The frontend parks every request by its connection and stream.\<close>

definition park_handler :: "('c, (u64 \<times> u64) list) shared \<Rightarrow> 'c handler" where
  "park_handler parked = (\<lambda>q r. do {
     ps \<leftarrow> shared_read parked;
     shared_write parked (ps @ [(request_conn_id q, request_stream_id q)]);
     answer (responder_defer r)
   })"

text \<open>\<^verbatim>\<open>nwcurl\<close>: a small answer, and a stream whose body the loop feeds.\<close>

definition curl_handler :: "('c, 'x) handler_api_scheme \<Rightarrow> ('c, (u64 \<times> u64) list) shared \<Rightarrow> 'c handler" where
  "curl_handler A pending = (\<lambda>q r. do {
     p \<leftarrow> request_path A q;
     (if p = Some ''/hello'' then do {
        r' \<leftarrow> responder_header A r ''x-served-by'' ''nwcurl-demo'';
        answer (responder_ok A r' (bytes_of ''hi from web/1''))
      }
      else if p = Some ''/big'' then do {
        ps \<leftarrow> shared_read pending;
        shared_write pending (ps @ [(request_conn_id q, request_stream_id q)]);
        answer (responder_stream A r ''/big'' StOk [(''content-type'', ''application/octet-stream'')])
      }
      else answer (responder_not_found A r))
   })"

definition origin_decide :: "('c, 'x) handler_api_scheme \<Rightarrow> ('c, u64) shared \<Rightarrow> request \<Rightarrow> 'c \<Rightarrow> 'c decision" where
  "origin_decide A hits q c =
     (if header_of A (rq_msg q) '':path'' c = Some ''/doc''
      then (Some ([(''cache-control'', ''public'')], TOk (bytes_of ''the origin document'')), sh_put hits (sh_get hits c + 1) c)
      else (Some ([], TNotFound), c))"

definition park :: "('c, (u64 \<times> u64) list) shared \<Rightarrow> request \<Rightarrow> 'c \<Rightarrow> 'c" where
  "park parked q c = sh_put parked (sh_get parked c @ [(rq_conn q, rq_stream q)]) c"

definition curl_decide ::
  "('c, 'x) handler_api_scheme \<Rightarrow> ('c, (u64 \<times> u64) list) shared \<Rightarrow> request \<Rightarrow> 'c \<Rightarrow> 'c decision" where
  "curl_decide A pending q c =
     (case header_of A (rq_msg q) '':path'' c of
        Some p \<Rightarrow>
          if p = ''/hello'' then (Some ([(''x-served-by'', ''nwcurl-demo'')], TOk (bytes_of ''hi from web/1'')), c)
          else if p = ''/big'' then
            (Some ([], TStream ''/big'' StOk [(''content-type'', ''application/octet-stream'')]), park pending q c)
          else (Some ([], TNotFound), c)
      | None \<Rightarrow> (Some ([], TNotFound), c))"

interpretation origin: deciding_handler A "origin_handler A hits" "origin_decide A hits" for A hits
  by unfold_locales
    (auto simp: origin_handler_def origin_decide_def carry_out_def as_terminals run_respond simp del: respond.simps
      split: if_splits)

interpretation parking: deciding_handler A "park_handler parked" "\<lambda>q c. (Some ([], TDefer), park parked q c)" for A parked
  by unfold_locales
    (auto simp: park_handler_def park_def carry_out_def request_conn_id_def request_stream_id_def
      responder_defer_def)

interpretation curl: deciding_handler A "curl_handler A pending" "curl_decide A pending" for A pending
proof (unfold_locales, goal_cases)
  case (1 q r w)
  then show ?case
    by (auto simp: curl_handler_def curl_decide_def park_def carry_out_def request_conn_id_def request_stream_id_def
        as_terminals run_respond split: option.split simp del: respond.simps)
next
  case (2 q c hs t s)
  then show ?case by (auto simp: curl_decide_def split: if_splits option.splits)
qed

text \<open>\<^verbatim>\<open>nwlog\<close>: the log routes, then not-found; the wall clock is read for each request.\<close>

definition nwlog_handler ::
  "('c, 'x) log_server_api_scheme \<Rightarrow> ('c, 'y) handler_api_scheme \<Rightarrow> 'c log_server \<Rightarrow> ('c \<Rightarrow> int) \<Rightarrow> 'c handler" where
  "nwlog_handler L A ls clock = (\<lambda>req res. do {
     now \<leftarrow> peek clock;
     outcome \<leftarrow> log_server_dispatch L ls req res now;
     (case outcome of
        Handled reply \<Rightarrow> State_Monad.return (Some reply)
      | NotMine res' \<Rightarrow> answer (responder_not_found A res'))
   })"

lemma nwlog_routes:
  "run_state (nwlog_handler L A ls clock req res) w =
   run_state (log_route_handler L A ls (clock (lib w)) TNotFound req res) w"
  by (auto simp: nwlog_handler_def log_route_handler_def answer_def case_prod_beta split: dispatch_outcome.split)

section \<open>Serving many requests\<close>

definition request_of :: "ptr \<Rightarrow> dispatch \<Rightarrow> request" where
  "request_of server d = (case d of (conn, stream, msg, buf) \<Rightarrow>
     \<lparr>rq_msg = msg, rq_server = server, rq_conn = conn, rq_stream = stream\<rparr>)"

definition called_back :: "'c handler_box \<Rightarrow> ptr \<Rightarrow> dispatch \<Rightarrow> ('c, int) io" where
  "called_back b server d = (case d of (conn, stream, msg, buf) \<Rightarrow> trampoline b server conn stream msg buf)"

fun serve_all :: "'c handler_box \<Rightarrow> ptr \<Rightarrow> dispatch list \<Rightarrow> ('c, int list) io" where
  "serve_all b server [] = State_Monad.return []"
| "serve_all b server (d # ds) = do {
     rc \<leftarrow> called_back b server d;
     rcs \<leftarrow> serve_all b server ds;
     State_Monad.return (rc # rcs)
   }"

text \<open>The notify pushes of \<^verbatim>\<open>nwkv\<close>'s loop, and one turn of it; \<open>None\<close> is the panic of a failed tick.\<close>

definition kv_push :: "('c, 'x) server_api_scheme \<Rightarrow> 'c server \<Rightarrow> ('c, kv_env) shared \<Rightarrow> ('c, unit) io" where
  "kv_push A sv env = do {
     e \<leftarrow> shared_read env;
     shared_write env (e\<lparr>ke_notify := []\<rparr>);
     run_all (map (\<lambda>conn. discard (server_notify A sv conn ''kv.changed'' [])) (ke_notify e))
   }"

definition kv_turn ::
  "('c, 'x) server_api_scheme \<Rightarrow> 'c server \<Rightarrow> ('c, kv_env) shared \<Rightarrow> int \<Rightarrow> ('c, unit option) io" where
  "kv_turn A sv env now = do {
     ticked \<leftarrow> server_tick A sv now;
     (case ticked of
        Inl e \<Rightarrow> State_Monad.return None
      | Inr _ \<Rightarrow> do { kv_push A sv env; State_Monad.return (Some ()) })
   }"

text \<open>
  The history of a path: the last write or delete among the requests so far decides what it holds, and a
  reply follows from that.
\<close>

definition last_value :: "string \<Rightarrow> kv_request list \<Rightarrow> bytes option" where
  "last_value p rqs =
     (case find (\<lambda>rq. kr_path rq = p \<and> kr_method rq \<in> {''write'', ''delete''}) (rev rqs) of
        None \<Rightarrow> None
      | Some rq \<Rightarrow> if kr_method rq = ''write'' then Some (kr_body rq) else None)"

definition kv_reply :: "kv_request \<Rightarrow> bytes option \<Rightarrow> terminal" where
  "kv_reply rq held =
     (if kr_method rq = ''write'' then TStatus StCreated []
      else if kr_method rq = ''delete'' then (if held = None then TNotFound else TStatus StNoContent [])
      else (case held of None \<Rightarrow> TNotFound | Some v \<Rightarrow> TOk v))"

definition kv_empty :: kv_env where
  "kv_empty = \<lparr>ke_store = Map.empty, ke_notify = []\<rparr>"

definition kv_after :: "kv_request \<Rightarrow> kv_env \<Rightarrow> kv_env" where
  "kv_after rq e = opt_unwrap_or (snd (kv_step rq e)) e"

lemma last_value_snoc:
  "last_value p (rqs @ [rq]) =
     (if kr_path rq = p \<and> kr_method rq = ''write'' then Some (kr_body rq)
      else if kr_path rq = p \<and> kr_method rq = ''delete'' then None else last_value p rqs)"
  by (auto simp: last_value_def)

lemma kv_history:
  "ke_store (fold kv_after rqs kv_empty) p = last_value p rqs \<and>
   ke_notify (fold kv_after rqs kv_empty) = map kr_conn (filter (\<lambda>rq. kr_method rq = ''write'') rqs)"
proof (induction rqs arbitrary: p rule: rev_induct)
  case Nil
  then show ?case by (simp add: kv_empty_def last_value_def)
next
  case (snoc rq rqs)
  then show ?case by (auto simp: kv_after_def kv_step_def last_value_snoc opt_unwrap_or_def)
qed

text \<open>
  What Rust guarantees of a closure's environment: the library has no way to it, so its calls leave it, and
  a write is read back.
\<close>

definition closure_env :: "('c, 'x) server_api_scheme \<Rightarrow> ('c, 'v) shared \<Rightarrow> bool" where
  "closure_env A env \<longleftrightarrow> (\<forall>v c. sh_get env (sh_put env v c) = v) \<and>
     (\<forall>r t c. sh_get env (snd (terminal_call A r t c)) = sh_get env c)"

lemma kv_called_back:
  assumes "closure_env A env" and "\<And>c. kv_view A (request_of server d) c = rq"
  shows "sh_get env (lib (snd (run_state (called_back \<lparr>hb_id = i, hb_f = kv_handler A env\<rparr> server d) w))) =
    kv_after rq (sh_get env (lib w))"
proof -
  obtain conn stream msg buf where d: "d = (conn, stream, msg, buf)" by (cases d)
  obtain t e where s: "kv_step rq (sh_get env (lib w)) = (t, e)" by (metis prod.collapse)
  define c where "c = (case e of None \<Rightarrow> lib w | Some e' \<Rightarrow> sh_put env e' (lib w))"
  have k: "kv_decide A env (request_of server d) (lib w) = (Some ([], t), c)"
    by (simp add: kv_decide_def assms(2) s c_def)
  have c: "sh_get env c = kv_after rq (sh_get env (lib w))"
    using assms(1) by (simp add: kv_after_def s c_def closure_env_def opt_unwrap_or_def split: option.split)
  show ?thesis
    using kv.answers_as_decided [of A env msg server conn stream w "[]" t c i buf] k c assms(1)
    by (simp add: d request_of_def called_back_def run_plain_handler Let_def closure_env_def)
qed

lemma kv_serve_all:
  assumes "closure_env A env" and "\<And>d c. d \<in> set ds \<Longrightarrow> kv_view A (request_of server d) c = rq d"
  shows "sh_get env (lib (snd (run_state (serve_all \<lparr>hb_id = i, hb_f = kv_handler A env\<rparr> server ds) w))) =
    fold kv_after (map rq ds) (sh_get env (lib w))"
  using assms(2)
proof (induction ds arbitrary: w)
  case Nil
  then show ?case by simp
next
  case (Cons d ds)
  have "sh_get env (lib (snd (run_state (called_back \<lparr>hb_id = i, hb_f = kv_handler A env\<rparr> server d) w))) =
      kv_after (rq d) (sh_get env (lib w))"
    by (rule kv_called_back [OF assms(1)]) (simp add: Cons.prems)
  with Cons show ?case by (simp add: case_prod_beta)
qed

lemma kv_push_calls:
  "lib (snd (run_state (kv_push A sv env) w)) =
     fold (\<lambda>conn c. snd (c_server_notify A (sv_raw sv) conn ''kv.changed'' None (None, 0) c))
       (ke_notify (sh_get env (lib w))) (sh_put env ((sh_get env (lib w))\<lparr>ke_notify := []\<rparr>) (lib w))"
proof -
  have one: "lib (snd (run_state (server_notify A sv conn ''kv.changed'' []) v)) =
      snd (c_server_notify A (sv_raw sv) conn ''kv.changed'' None (None, 0) (lib v))" for conn v
    by (simp add: server_notify_def cstring_new_def slice_parts_def case_prod_beta)
  have all: "lib (snd (run_state (run_all (map (\<lambda>conn. discard (server_notify A sv conn ''kv.changed'' [])) ns)) v)) =
      fold (\<lambda>conn c. snd (c_server_notify A (sv_raw sv) conn ''kv.changed'' None (None, 0) c)) ns (lib v)" for ns v
    by (induction ns arbitrary: v) (simp_all add: one)
  show ?thesis by (simp add: kv_push_def all)
qed

text \<open>A library whose messages 1 and 2 are a write and a read of the same path, and which answers everything.\<close>

definition kv_api :: "'c server_api" where
  "kv_api = handler_api.extend (message_api.extend (message_api.make
       (\<lambda>p c. None) (\<lambda>p n c. Some (if n = '':path'' then ''/greeting'' else if p = 1 then ''write'' else ''read''))
       (\<lambda>p c. Some [7]) (\<lambda>p c. 0) (\<lambda>p i c. (- 1, None, None)) (\<lambda>p c. c))
     (handler_api.fields (\<lambda>p conn c. ((0, []), c)) (\<lambda>p conn c. 0) (\<lambda>p e c. 0) (\<lambda>p n e k c. (1, [], 0)) (\<lambda>s. Some ''ok'')
       (\<lambda>p b c. (int (snd b), c)) (\<lambda>p t b c. (0, c)) (\<lambda>p e c. (0, c)) (\<lambda>p b g t c. (0, c)) (\<lambda>p n c. (0, c))
       (\<lambda>p n v c. (0, c)) (\<lambda>p i j path t h c. (0, c)) (\<lambda>p f c. (0, c)) (\<lambda>p m c. (0, c)) (\<lambda>p b c. ((0, [], 0), c))))
   (server_api.fields (\<lambda>kp a c. ((0, 7), c)) (\<lambda>kp a c. ((0, 7), c)) (\<lambda>kp fd c. ((0, 7), c))
     (\<lambda>kp fd s c. ((0, 7), c)) (\<lambda>p n c. ((), c)) (\<lambda>p b c. (0, c)) (\<lambda>p c. c) (\<lambda>p now c. Finish 0 c)
     (\<lambda>p c. 5) (\<lambda>p now c. (250, c)) (\<lambda>p c. 443) (\<lambda>p c. (0, [6]))
     (\<lambda>p i j b c. (int (snd b), c)) (\<lambda>p i j c. (0, c)) (\<lambda>p m c. (0, m)) (\<lambda>p c. 3)
     (\<lambda>p on c. ((), c)) (\<lambda>p c. 0) (\<lambda>p c. (0, c)) (\<lambda>p c. 0) (\<lambda>p i e h b c. (0, c))
     (\<lambda>p i j n v c. (0, c)) (\<lambda>p i j t b c. (0, c)) (\<lambda>p i j m c. (0, c)) (\<lambda>p i j f c. (0, c)) 1 (\<lambda>cid. 9))"

definition whole_state :: "('c, 'c) shared" where
  "whole_state = \<lparr>sh_get = id, sh_put = (\<lambda>v c. v)\<rparr>"

lemmas kv_api_simps = kv_api_def message_api.defs handler_api.defs server_api.defs

lemma kv_api_closure_env: "closure_env kv_api whole_state"
  by (auto simp: closure_env_def whole_state_def terminal_call_def add_header_def kv_api_simps
      split: option.splits terminal.splits)

section \<open>Properties\<close>

text \<open>
  The key-value service is a map kept by its history: after any requests served from the empty store, the
  next one is answered as the last write or delete of its path says (a read gives that write's body or
  not-found, a delete says whether there was something to delete, a write is created), and the loop then
  pushes one notification per write, to its connection, in order.
\<close>

lemma kv_service_keeps_last_write:
  fixes A :: "('c, 'x) server_api_scheme"
  assumes "closure_env A env" and "\<And>d c. d \<in> set (ds @ [d']) \<Longrightarrow> kv_view A (request_of (sv_raw sv) d) c = rq d"
    and "sh_get env (lib w) = kv_empty"
    and "snd (run_state (serve_all \<lparr>hb_id = i, hb_f = kv_handler A env\<rparr> (sv_raw sv) ds) w) = w1"
  shows "run_state (called_back \<lparr>hb_id = i, hb_f = kv_handler A env\<rparr> (sv_raw sv) d') w1 =
      run_state (called_back (plain_handler A i [] (kv_reply (rq d') (last_value (kr_path (rq d')) (map rq ds)))) (sv_raw sv) d')
        (w1\<lparr>lib := snd (kv_decide A env (request_of (sv_raw sv) d') (lib w1))\<rparr>) \<and>
    lib (snd (run_state (kv_push A sv env) w1)) =
      fold (\<lambda>conn c. snd (c_server_notify A (sv_raw sv) conn ''kv.changed'' None (None, 0) c))
        (map kr_conn (filter (\<lambda>q. kr_method q = ''write'') (map rq ds)))
        (sh_put env ((sh_get env (lib w1))\<lparr>ke_notify := []\<rparr>) (lib w1))"
proof -
  obtain conn stream msg buf where d: "d' = (conn, stream, msg, buf)" by (cases d')
  have e: "sh_get env (lib w1) = fold kv_after (map rq ds) kv_empty"
    using kv_serve_all [OF assms(1), of ds "sv_raw sv" rq i w] assms(2,3,4) by simp
  have "kv_decide A env (request_of (sv_raw sv) d') (lib w1) =
      (Some ([], kv_reply (rq d') (last_value (kr_path (rq d')) (map rq ds))),
       snd (kv_decide A env (request_of (sv_raw sv) d') (lib w1)))"
    using assms(2) by (auto simp: kv_decide_def kv_step_def kv_reply_def e kv_history split: option.split)
  then show ?thesis
    using kv.answers_as_decided [of A env msg "sv_raw sv" conn stream w1 _ _ _ i buf]
    by (simp add: d request_of_def called_back_def kv_push_calls e kv_history)
qed

end
