(* ===== verification/AppLoops.thy ===== *)
theory AppLoops
  imports AppServices RuntimeServer
begin

text \<open>
  The loops of the programs under \<^verbatim>\<open>nwep/examples\<close>: the feeding of streamed bodies (\<^verbatim>\<open>nwcurl\<close> and
  \<^verbatim>\<open>managed_stream\<close>), the relaying frontend of \<^verbatim>\<open>nwproxy\<close>, and of \<^verbatim>\<open>nwdrop\<close> the resumable download and the
  pump that re-announces. A call whose error the program unwraps panics, which is the value \<open>None\<close>.
\<close>

section \<open>Feeding streamed bodies\<close>

text \<open>
  One entry of \<^verbatim>\<open>active\<close> under \<^verbatim>\<open>retain_mut\<close>: \<open>Some True\<close> keeps it, \<open>Some False\<close> removes it. Every turn of the
  inner loop sends something, so it ends.
\<close>

function feed_stream ::
  "('c, 'x) server_api_scheme \<Rightarrow> 'c server \<Rightarrow> u64 \<Rightarrow> u64 \<Rightarrow> bytes \<Rightarrow> nat \<Rightarrow> 'c world \<Rightarrow> (bool option \<times> nat) \<times> 'c world"
where
  "feed_stream A sv conn stream body sent w =
     (if sent < length body then
        (case run_state (server_stream_send A sv conn stream (drop sent body)) w of
           (Inl e, w') \<Rightarrow> ((None, sent), w')
         | (Inr n, w') \<Rightarrow>
             if n = 0 then ((Some True, sent), w') else feed_stream A sv conn stream body (sent + n) w')
      else
        (case run_state (server_stream_end A sv conn stream) w of
           (Inl e, w') \<Rightarrow> ((None, sent), w')
         | (Inr _, w') \<Rightarrow> ((Some False, sent), w')))"
  by pat_completeness auto
termination
  by (relation "measure (\<lambda>(A, sv, conn, stream, body, sent, w). length body - sent)") auto

declare feed_stream.simps [simp del]

type_synonym feeding = "u64 \<times> u64 \<times> nat"

fun feed_active ::
  "('c, 'x) server_api_scheme \<Rightarrow> 'c server \<Rightarrow> bytes \<Rightarrow> feeding list \<Rightarrow> ('c, feeding list option) io" where
  "feed_active A sv body [] = State_Monad.return (Some [])"
| "feed_active A sv body ((conn, stream, sent) # fs) = do {
     (keep, sent') \<leftarrow> State (feed_stream A sv conn stream body sent);
     (case keep of
        None \<Rightarrow> State_Monad.return None
      | Some k \<Rightarrow> do {
          rest \<leftarrow> feed_active A sv body fs;
          State_Monad.return (map_option (\<lambda>gs. if k then (conn, stream, sent') # gs else gs) rest)
        })
   }"

definition feed_turn ::
  "('c, 'x) server_api_scheme \<Rightarrow> 'c server \<Rightarrow> ('c, (u64 \<times> u64) list) shared \<Rightarrow> bytes \<Rightarrow> int \<Rightarrow> feeding list \<Rightarrow>
   ('c, feeding list option) io" where
  "feed_turn A sv pending body now active = do {
     ticked \<leftarrow> server_tick A sv now;
     (case ticked of
        Inl e \<Rightarrow> State_Monad.return None
      | Inr _ \<Rightarrow> do {
          ps \<leftarrow> shared_read pending;
          shared_write pending [];
          feed_active A sv body (active @ map (\<lambda>(c, s). (c, s, 0)) ps)
        })
   }"

text \<open>
  The documented contract of \<^verbatim>\<open>stream_send\<close>: it takes a prefix of what it is given, as long as the count it
  returns, and the bytes of other streams are not its business. \<open>taken\<close> is what a stream has taken so far.
\<close>

definition takes_prefixes ::
  "('c, 'x) server_api_scheme \<Rightarrow> 'c server \<Rightarrow> (u64 \<times> u64 \<Rightarrow> 'c \<Rightarrow> bytes) \<Rightarrow> bool" where
  "takes_prefixes A sv taken \<longleftrightarrow>
     (\<forall>conn stream bs c. bs \<noteq> [] \<longrightarrow>
        (case c_server_stream_send A (sv_raw sv) conn stream (Some bs, length bs) c of (rc, c') \<Rightarrow>
           nat rc \<le> length bs \<and>
           (\<forall>f. taken f c' = (if f = (conn, stream) \<and> 0 \<le> rc then taken f c @ take (nat rc) bs else taken f c)))) \<and>
     (\<forall>conn stream c f. taken f (snd (c_server_stream_end A (sv_raw sv) conn stream c)) = taken f c)"

lemma run_stream_send:
  assumes "bs \<noteq> []"
  shows "run_state (server_stream_send A sv conn stream bs) w =
    (case c_server_stream_send A (sv_raw sv) conn stream (Some bs, length bs) (lib w) of (rc, c') \<Rightarrow>
       (if rc < 0 then Inl (error_from_code rc) else Inr (nat rc), w\<lparr>lib := c', history := history w @ [Use KServer (sv_raw sv)]\<rparr>))"
  using assms by (simp add: server_stream_send_def slice_parts_def case_prod_beta)

lemma takes_prefixesD:
  assumes "takes_prefixes A sv taken" and "bs \<noteq> []"
    and "c_server_stream_send A (sv_raw sv) conn stream (Some bs, length bs) c = (rc, c')"
  shows "nat rc \<le> length bs"
    and "taken f c' = (if f = (conn, stream) \<and> 0 \<le> rc then taken f c @ take (nat rc) bs else taken f c)"
  using conjunct1 [OF assms(1) [unfolded takes_prefixes_def], THEN spec, THEN spec, THEN spec, THEN spec,
      THEN mp, OF assms(2), of conn stream c]
  by (simp_all add: assms(3) del: split_paired_All)

lemma feed_stream_takes:
  assumes "takes_prefixes A sv taken" and "sent \<le> length body"
    and "feed_stream A sv conn stream body sent w = ((keep, sent'), w')"
    and "taken (conn, stream) (lib w) = take sent body"
  shows "sent' \<le> length body \<and> (\<forall>f. f \<noteq> (conn, stream) \<longrightarrow> taken f (lib w') = taken f (lib w)) \<and>
    taken (conn, stream) (lib w') = take sent' body \<and>
    (keep = Some False \<longrightarrow> sent' = length body) \<and> (keep = Some True \<longrightarrow> sent' < length body)"
  using assms
proof (induction A sv conn stream body sent w arbitrary: keep sent' w' rule: feed_stream.induct)
  case (1 A sv conn stream body sent w)
  note con = 1(2) and len = 1(3) and took = 1(5) and run = 1(4) [unfolded feed_stream.simps [of A sv conn stream body sent w]]
  show ?case
  proof (cases "sent < length body")
    case True
    obtain rc c' where s: "c_server_stream_send A (sv_raw sv) conn stream (Some (drop sent body), length (drop sent body)) (lib w) = (rc, c')"
      by (metis prod.collapse)
    let ?w1 = "w\<lparr>lib := c', history := history w @ [Use KServer (sv_raw sv)]\<rparr>"
    have ne: "drop sent body \<noteq> []" using True by simp
    have n: "nat rc \<le> length body - sent"
      using takes_prefixesD(1) [OF con ne s] by simp
    have t: "taken f c' = (if f = (conn, stream) \<and> 0 \<le> rc then taken f (lib w) @ take (nat rc) (drop sent body) else taken f (lib w))" for f
      by (rule takes_prefixesD(2) [OF con ne s])
    have sends: "run_state (server_stream_send A sv conn stream (drop sent body)) w =
        (if rc < 0 then Inl (error_from_code rc) else Inr (nat rc), ?w1)"
      by (subst run_stream_send [OF ne]) (simp only: s prod.case)
    consider "rc < 0" | "rc = 0" | "0 < rc" by linarith
    then show ?thesis
    proof cases
      case 1
      then show ?thesis using run True sends t took by auto
    next
      case 2
      then show ?thesis using run True sends t took by auto
    next
      case 3
      then have got: "(Inr (nat rc), ?w1) = run_state (server_stream_send A sv conn stream (drop sent body)) w"
        using sends by simp
      have tk: "taken (conn, stream) (lib ?w1) = take (sent + nat rc) body"
        using t 3 took by (simp add: take_add)
      have step: "feed_stream A sv conn stream body (sent + nat rc) ?w1 = ((keep, sent'), w')"
        using run True 3 by (simp add: got [symmetric])
      have "sent + nat rc \<le> length body" and "nat rc \<noteq> 0" using n True 3 by simp_all
      from 1(1) [OF True got refl this(2) con this(1) step tk] show ?thesis using t by simp
    qed
  next
    case False
    then have "sent = length body" using len by simp
    then show ?thesis
      using run con took by (auto simp: server_stream_end_def takes_prefixes_def split: sum.splits prod.splits)
  qed
qed

definition feeding_key :: "feeding \<Rightarrow> u64 \<times> u64" where
  "feeding_key f = (fst f, fst (snd f))"

text \<open>Each entry of \<^verbatim>\<open>active\<close> knows exactly how much of the body its stream has taken.\<close>

definition fed :: "(u64 \<times> u64 \<Rightarrow> 'c \<Rightarrow> bytes) \<Rightarrow> bytes \<Rightarrow> feeding list \<Rightarrow> 'c \<Rightarrow> bool" where
  "fed taken body fs c \<longleftrightarrow> distinct (map feeding_key fs) \<and>
     (\<forall>(conn, stream, sent) \<in> set fs. sent \<le> length body \<and> taken (conn, stream) c = take sent body)"

lemma feed_active_fed:
  assumes "takes_prefixes A sv taken" and "fed taken body fs (lib w)"
    and "run_state (feed_active A sv body fs) w = (Some gs, w')"
  shows "fed taken body gs (lib w') \<and> set (map feeding_key gs) \<subseteq> set (map feeding_key fs) \<and>
    (\<forall>k. k \<notin> set (map feeding_key fs) \<longrightarrow> taken k (lib w') = taken k (lib w)) \<and>
    (\<forall>k \<in> set (map feeding_key fs) - set (map feeding_key gs). taken k (lib w') = body)"
  using assms(2,3)
proof (induction fs arbitrary: w gs w')
  case Nil
  then show ?case by auto
next
  case (Cons f fs)
  obtain conn stream sent where f: "f = (conn, stream, sent)" by (cases f)
  obtain keep sent' w1 where r: "feed_stream A sv conn stream body sent w = ((keep, sent'), w1)"
    by (metis prod.collapse)
  from Cons.prems(2) r f obtain k hs where k: "keep = Some k"
    and rest: "run_state (feed_active A sv body fs) w1 = (Some hs, w')"
    and gs: "gs = (if k then (conn, stream, sent') # hs else hs)"
    by (auto split: option.splits prod.splits)
  have own: "sent \<le> length body" "taken (conn, stream) (lib w) = take sent body"
    and new: "(conn, stream) \<notin> set (map feeding_key fs)"
    using Cons.prems(1) f by (auto simp: fed_def feeding_key_def)
  from feed_stream_takes [OF assms(1) own(1) r own(2)]
  have one: "sent' \<le> length body" "taken (conn, stream) (lib w1) = take sent' body"
    "\<And>j. j \<noteq> (conn, stream) \<Longrightarrow> taken j (lib w1) = taken j (lib w)" "\<not> k \<Longrightarrow> sent' = length body"
    using k by auto
  have "fed taken body fs (lib w1)"
    using Cons.prems(1) new one(3) by (force simp: fed_def f feeding_key_def image_iff)
  from Cons.IH [OF this rest]
  have hs: "fed taken body hs (lib w')" "set (map feeding_key hs) \<subseteq> set (map feeding_key fs)"
    "\<And>j. j \<notin> set (map feeding_key fs) \<Longrightarrow> taken j (lib w') = taken j (lib w1)"
    "\<And>j. j \<in> set (map feeding_key fs) - set (map feeding_key hs) \<Longrightarrow> taken j (lib w') = body"
    by blast+
  have t: "taken (conn, stream) (lib w') = take sent' body" using hs(3) [OF new] one(2) by simp
  have n: "(conn, stream) \<notin> set (map feeding_key hs)" using hs(2) new by blast
  show ?case
  proof (cases k)
    case True
    then show ?thesis
      using hs n one t by (auto simp: gs f fed_def feeding_key_def)
  next
    case False
    have key: "feeding_key f = (conn, stream)" by (simp add: f feeding_key_def)
    have "taken (conn, stream) (lib w') = body" using t one(4) False by simp
    then have "\<forall>j \<in> set (map feeding_key (f # fs)) - set (map feeding_key gs). taken j (lib w') = body"
      using False hs(4) by (metis Diff_iff gs key list.simps(9) set_ConsD)
    then show ?thesis
      using False hs(1,2) by (auto simp: gs key hs(3) one(3) simp del: split_paired_All)
  qed
qed

section \<open>The relaying frontend\<close>

text \<open>
  One parked request of \<^verbatim>\<open>nwproxy\<close>: a fresh copy from the cache, or the origin's response, which is stored on
  a best-effort basis. The response is dropped on every path, a panic's unwinding included.
\<close>

definition relay_and_drop ::
  "('c, 'x) server_api_scheme \<Rightarrow> ('c, 'y) cache_api_scheme \<Rightarrow> 'c server \<Rightarrow> u64 \<times> u64 \<Rightarrow> response \<Rightarrow> ('c, unit option) io"
where
  "relay_and_drop A C sv cs r = do {
     sent \<leftarrow> deferred_relay A (server_respond sv (fst cs) (snd cs)) (response_as_raw r);
     response_drop C r;
     State_Monad.return (case sent of Inl e \<Rightarrow> None | Inr _ \<Rightarrow> Some ())
   }"

definition proxy_one ::
  "('c, 'x) server_api_scheme \<Rightarrow> ('c, 'y) client_api_scheme \<Rightarrow> 'c server \<Rightarrow> 'c client \<Rightarrow> cache \<Rightarrow> bytes \<Rightarrow>
   u64 \<times> u64 \<Rightarrow> u64 \<times> u64 \<Rightarrow> ('c, unit option) io" where
  "proxy_one A C sv backend ca key now cs = do {
     hit \<leftarrow> cache_get_signed C ca Read ''/doc'' key (fst now);
     (case hit of
        None \<Rightarrow> State_Monad.return None
      | Some (Some r) \<Rightarrow> relay_and_drop A C sv cs r
      | Some None \<Rightarrow> do {
          got \<leftarrow> client_send C backend Read ''/doc'' [];
          (case got of
             Inl e \<Rightarrow> State_Monad.return None
           | Inr r \<Rightarrow> do {
               stored \<leftarrow> cache_put_signed C ca Read ''/doc'' r key (snd now);
               (case stored of
                  None \<Rightarrow> do { response_drop C r; State_Monad.return None }
                | Some _ \<Rightarrow> relay_and_drop A C sv cs r)
             })
        })
   }"

text \<open>Each parked request comes with its two readings of the clock.\<close>

fun proxy_all ::
  "('c, 'x) server_api_scheme \<Rightarrow> ('c, 'y) client_api_scheme \<Rightarrow> 'c server \<Rightarrow> 'c client \<Rightarrow> cache \<Rightarrow> bytes \<Rightarrow>
   (nat \<Rightarrow> u64 \<times> u64) \<Rightarrow> (u64 \<times> u64) list \<Rightarrow> ('c, unit option) io" where
  "proxy_all A C sv backend ca key clock [] = State_Monad.return (Some ())"
| "proxy_all A C sv backend ca key clock (cs # ps) = do {
     done \<leftarrow> proxy_one A C sv backend ca key (clock 0) cs;
     (case done of
        None \<Rightarrow> State_Monad.return None
      | Some _ \<Rightarrow> proxy_all A C sv backend ca key (\<lambda>n. clock (Suc n)) ps)
   }"

definition proxy_turn ::
  "('c, 'x) server_api_scheme \<Rightarrow> ('c, 'y) client_api_scheme \<Rightarrow> 'c server \<Rightarrow> 'c client \<Rightarrow> cache \<Rightarrow> bytes \<Rightarrow>
   ('c, (u64 \<times> u64) list) shared \<Rightarrow> int \<Rightarrow> (nat \<Rightarrow> u64 \<times> u64) \<Rightarrow> ('c, unit option) io" where
  "proxy_turn A C sv backend ca key parked now clock = do {
     ticked \<leftarrow> server_tick A sv now;
     (case ticked of
        Inl e \<Rightarrow> State_Monad.return None
      | Inr _ \<Rightarrow> do {
          ps \<leftarrow> shared_read parked;
          shared_write parked [];
          proxy_all A C sv backend ca key clock ps
        })
   }"

text \<open>
  The documented behaviour of the cache while a copy stays fresh: \<open>held\<close> says it holds one; then a lookup
  hits, otherwise it misses; storing the origin's public response makes it hold one, and relaying or freeing
  a message does not take it away.
\<close>

definition caching ::
  "('c, 'x) server_api_scheme \<Rightarrow> ('c, 'y) client_api_scheme \<Rightarrow> 'c server \<Rightarrow> cache \<Rightarrow> bytes \<Rightarrow> ('c \<Rightarrow> bool) \<Rightarrow> bool"
where
  "caching A C sv ca key held \<longleftrightarrow> (\<exists>tok. method_cstr C Read = Some tok \<and>
     (\<forall>c t. case c_cache_get_signed C (ca_raw ca) tok ''/doc'' key t c of ((rc, p), c') \<Rightarrow>
        if held c then rc = 0 \<and> p \<noteq> null_ptr \<and> held c' else \<not> (rc = 0 \<and> p \<noteq> null_ptr)) \<and>
     (\<forall>c r t. held (snd (c_cache_put_signed C (ca_raw ca) tok ''/doc'' r key t c)))) \<and>
   (\<forall>c i j r. held c \<longrightarrow> held (snd (c_server_relay A (sv_raw sv) i j r c))) \<and>
   (\<forall>c r. held c \<longrightarrow> held (c_message_free C r c))"

definition uses_of :: "kind \<Rightarrow> ptr \<Rightarrow> event list \<Rightarrow> nat" where
  "uses_of k p es = length (filter (\<lambda>e. e = Use k p) es)"

lemma uses_of_simps [simp]:
  "uses_of k p [] = 0"
  "uses_of k p (e # es) = (if e = Use k p then Suc (uses_of k p es) else uses_of k p es)"
  "uses_of k p (es @ fs) = uses_of k p es + uses_of k p fs"
  by (simp_all add: uses_of_def)

lemma run_relay_and_drop:
  assumes "caching A C sv ca key held" and "held (lib w)"
    and "run_state (relay_and_drop A C sv cs r) w = (out, w')"
  shows "held (lib w') \<and>
    history w' = history w @ [Use KMessage (rp_msg r), Use KServer (sv_raw sv), Release KMessage (rp_msg r)]"
  using assms
  by (auto simp: relay_and_drop_def deferred_relay_def server_respond_def response_as_raw_def response_drop_def
      caching_def split: prod.splits)

lemma proxy_one_outcome:
  assumes "caching A C sv ca key held"
    and "run_state (proxy_one A C sv backend ca key now cs) w = (Some (), w')"
  shows "held (lib w') \<and> (\<exists>es. history w' = history w @ es \<and> uses_of KServer (sv_raw sv) es = 1 \<and>
    uses_of KClient (cl_raw backend) es = (if held (lib w) then 0 else 1))"
proof -
  from assms(1) obtain tok where tok: "method_cstr C Read = Some tok"
    and put: "\<And>c r t. held (snd (c_cache_put_signed C (ca_raw ca) tok ''/doc'' r key t c))"
    by (auto simp: caching_def)
  have doc: "cstring_new ''/doc'' = Some ''/doc''" by (simp add: cstring_new_def)
  obtain rc p c' where g: "c_cache_get_signed C (ca_raw ca) tok ''/doc'' key (fst now) (lib w) = ((rc, p), c')"
    by (metis prod.collapse)
  have get: "if held (lib w) then rc = 0 \<and> p \<noteq> null_ptr \<and> held c' else \<not> (rc = 0 \<and> p \<noteq> null_ptr)"
    using assms(1) g tok by (fastforce simp: caching_def split: prod.splits)
  show ?thesis
  proof (cases "held (lib w)")
    case True
    then have "run_state (relay_and_drop A C sv cs (Response p))
        (w\<lparr>lib := c', history := history w @ [Use KCache (ca_raw ca), Acquire KMessage p]\<rparr>) = (Some (), w')"
      using assms(2) get g tok by (simp add: proxy_one_def cache_get_signed_def doc response_from_raw_def)
    from run_relay_and_drop [OF assms(1) _ this] True get show ?thesis by simp
  next
    case False
    let ?es = "\<lambda>m. [Use KCache (ca_raw ca), Use KClient (cl_raw backend), Acquire KMessage m, Use KMessage m,
      Use KCache (ca_raw ca)]"
    have "\<exists>m c2. run_state (relay_and_drop A C sv cs (Response m)) (w\<lparr>lib := c2, history := history w @ ?es m\<rparr>) =
        (Some (), w') \<and> held c2"
      using assms(2) get g tok False
      by (auto simp: proxy_one_def cache_get_signed_def cache_put_signed_def doc client_send_def request_send_def
          run_request_with_c request_clean_def client_request_def request_set_body_def owned_response_def opened_def
          error_check_def split: sum.splits prod.splits if_splits)
        ((rule exI)+, rule conjI, assumption, rule put)+
    then obtain m c2 where "run_state (relay_and_drop A C sv cs (Response m))
        (w\<lparr>lib := c2, history := history w @ ?es m\<rparr>) = (Some (), w')" and "held c2"
      by blast
    from run_relay_and_drop [OF assms(1) _ this(1)] this(2) False show ?thesis by simp
  qed
qed

lemma proxy_all_outcome:
  assumes "caching A C sv ca key held"
    and "run_state (proxy_all A C sv backend ca key clock ps) w = (Some (), w')"
  shows "(ps \<noteq> [] \<longrightarrow> held (lib w')) \<and> (\<exists>es. history w' = history w @ es \<and> uses_of KServer (sv_raw sv) es = length ps \<and>
    uses_of KClient (cl_raw backend) es = (if ps = [] \<or> held (lib w) then 0 else 1))"
  using assms(2)
proof (induction ps arbitrary: clock w)
  case Nil
  then show ?case by simp
next
  case (Cons cs ps)
  from Cons.prems obtain w1 where one: "run_state (proxy_one A C sv backend ca key (clock 0) cs) w = (Some (), w1)"
    and rest: "run_state (proxy_all A C sv backend ca key (\<lambda>n. clock (Suc n)) ps) w1 = (Some (), w')"
    by (auto split: option.splits prod.splits)
  obtain es where es: "held (lib w1)" "history w1 = history w @ es" "uses_of KServer (sv_raw sv) es = 1"
    "uses_of KClient (cl_raw backend) es = (if held (lib w) then 0 else 1)"
    using proxy_one_outcome [OF assms(1) one] by blast
  obtain fs where fs: "ps \<noteq> [] \<longrightarrow> held (lib w')" "history w' = history w1 @ fs"
    "uses_of KServer (sv_raw sv) fs = length ps" "uses_of KClient (cl_raw backend) fs = 0"
    using Cons.IH [OF rest] es(1) by auto
  have "held (lib w')"
    using fs(1) es(1) rest by (cases "ps = []") auto
  then show ?case using es fs by (intro conjI impI exI [of _ "es @ fs"]) auto
qed

section \<open>The resumable download\<close>

text \<open>
  \<^verbatim>\<open>format!("bytes={}-{}", have, have + 15)\<close>. The counter counts bytes held in memory, so its 64 bits do not
  run out.
\<close>

definition window_text :: "nat \<Rightarrow> string" where
  "window_text have_n = ''bytes='' @ show_nat have_n @ ''-'' @ show_nat (have_n + 15)"

text \<open>The loop, with the number of requests as fuel; \<open>None\<close> is running out of it.\<close>

fun download ::
  "('c, 'x) client_api_scheme \<Rightarrow> 'c client \<Rightarrow> nat \<Rightarrow> nat \<Rightarrow> bytes \<Rightarrow> ('c, (error + bytes) option) io" where
  "download C cl 0 have_n downloaded = State_Monad.return None"
| "download C cl (Suc fuel) have_n downloaded = do {
     got \<leftarrow> request_send C (request_add_header (client_request cl Read ''/blob'') ''range'' (window_text have_n));
     (case got of
        Inl e \<Rightarrow> State_Monad.return (Some (Inl e))
      | Inr resp \<Rightarrow> do {
          st \<leftarrow> response_status C resp;
          (if st = Some StRangeNotSatisfiable then do {
             response_drop C resp;
             State_Monad.return (Some (Inr downloaded))
           }
           else do {
             chunk \<leftarrow> response_into_body C resp;
             (if chunk = [] then State_Monad.return (Some (Inr downloaded))
              else if length chunk < 16 then State_Monad.return (Some (Inr (downloaded @ chunk)))
              else download C cl fuel (have_n + length chunk) (downloaded @ chunk))
           })
        })
   }"

text \<open>
  A peer that serves the file \<open>F\<close> in windows, as long as the connection is well (\<open>well c\<close>): a window that
  starts inside the file gets its part of it, one that starts behind it is not satisfiable.
\<close>

definition serves_windows :: "('c, 'x) client_api_scheme \<Rightarrow> 'c client \<Rightarrow> bytes \<Rightarrow> ('c \<Rightarrow> bool) \<Rightarrow> bool" where
  "serves_windows C cl F well \<longleftrightarrow> (\<forall>c k. well c \<longrightarrow>
     (case c_client_send C (cl_raw cl) (method_code Read) ''/blob'' [Some (''range'', window_text k), None] (None, 0) c of
        ((rc, p), c') \<Rightarrow> 0 \<le> rc \<and> well c' \<and> well (c_message_free C p c') \<and>
          (if k < length F
           then c_message_get_status C p c' = Some ''partial-content'' \<and> c_message_get_body C p c' = Some (take 16 (drop k F))
           else c_message_get_status C p c' = Some ''range-not-satisfiable'')))"

lemma window_clean: "request_clean [(''range'', window_text k)]"
proof -
  have "CHR 0x00 \<notin> set (show_nat n)" for n
    using show_nat_chars [of "CHR 0x00" n] by auto
  then show ?thesis by (simp add: request_clean_def window_text_def)
qed

lemma status_tokens:
  "status_from_token (opt_unwrap_or (to_str ''partial-content'') ''error'') = StPartialContent"
  "status_from_token (opt_unwrap_or (to_str ''range-not-satisfiable'') ''error'') = StRangeNotSatisfiable"
  by code_simp+

lemma run_download_step:
  assumes "serves_windows C cl F well" and "well (lib w)"
  obtains w1 where "well (lib w1)"
    and "uses_of KClient (cl_raw cl) (history w1) = Suc (uses_of KClient (cl_raw cl) (history w))"
    and "run_state (download C cl (Suc fuel) k acc) w =
      (let chunk = take 16 (drop k F) in
       if chunk = [] then (Some (Inr acc), w1)
       else if length chunk < 16 then (Some (Inr (acc @ chunk)), w1)
       else run_state (download C cl fuel (k + length chunk) (acc @ chunk)) w1)"
proof -
  obtain rc p c' where s: "c_client_send C (cl_raw cl) (method_code Read) ''/blob'' [Some (''range'', window_text k), None]
      (None, 0) (lib w) = ((rc, p), c')"
    by (metis prod.collapse)
  have ok: "0 \<le> rc" "well (c_message_free C p c')"
    "if k < length F
     then c_message_get_status C p c' = Some ''partial-content'' \<and> c_message_get_body C p c' = Some (take 16 (drop k F))
     else c_message_get_status C p c' = Some ''range-not-satisfiable''"
    using assms(1) [unfolded serves_windows_def, THEN spec, THEN spec, THEN mp, OF assms(2), of k] s by simp_all
  have sent: "run_state (request_send C (request_add_header (client_request cl Read ''/blob'') ''range'' (window_text k))) w =
      (Inr (Response p), w\<lparr>lib := c', history := history w @ [Use KClient (cl_raw cl), Acquire KMessage p]\<rparr>)"
    using ok(1) s by (simp add: request_send_def run_request_with_c window_clean request_add_header_def client_request_def
        owned_response_def opened_def error_check_def slice_parts_def)
  let ?w1 = "w\<lparr>lib := c_message_free C p c', history := history w @ [Use KClient (cl_raw cl), Acquire KMessage p,
    Use KMessage p] @ (if k < length F then [Use KMessage p] else []) @ [Release KMessage p]\<rparr>"
  show ?thesis
  proof (rule that [of ?w1])
    show "run_state (download C cl (Suc fuel) k acc) w =
      (let chunk = take 16 (drop k F) in
       if chunk = [] then (Some (Inr acc), ?w1)
       else if length chunk < 16 then (Some (Inr (acc @ chunk)), ?w1)
       else run_state (download C cl fuel (k + length chunk) (acc @ chunk)) ?w1)"
      using ok(3) by (simp add: sent response_status_def response_drop_def response_into_body_def response_body_def
          status_tokens Let_def)
  qed (use ok in simp_all)
qed

lemma download_rest:
  assumes "serves_windows C cl F well" and "well (lib w)" and "k \<le> length F" and "(length F - k) div 16 < fuel"
  shows "fst (run_state (download C cl fuel k (take k F)) w) = Some (Inr F) \<and>
    uses_of KClient (cl_raw cl) (history (snd (run_state (download C cl fuel k (take k F)) w))) =
      uses_of KClient (cl_raw cl) (history w) + (length F - k) div 16 + 1"
  using assms(2-)
proof (induction fuel arbitrary: k w)
  case 0
  then show ?case by simp
next
  case (Suc fuel)
  obtain w1 where w1: "well (lib w1)"
    "uses_of KClient (cl_raw cl) (history w1) = Suc (uses_of KClient (cl_raw cl) (history w))"
    "run_state (download C cl (Suc fuel) k (take k F)) w =
      (let chunk = take 16 (drop k F) in
       if chunk = [] then (Some (Inr (take k F)), w1)
       else if length chunk < 16 then (Some (Inr (take k F @ chunk)), w1)
       else run_state (download C cl fuel (k + length chunk) (take k F @ chunk)) w1)"
    using run_download_step [OF assms(1) Suc.prems(1)] by metis
  have t: "take k F @ take 16 (drop k F) = take (k + 16) F" by (simp add: take_add)
  consider "k = length F" | "k < length F" "length F < k + 16" | "k + 16 \<le> length F"
    using Suc.prems(2) by linarith
  then show ?case
  proof cases
    case 1
    then show ?thesis using w1(2,3) by simp
  next
    case 2
    then have "length F - k < 16" by linarith
    then show ?thesis using 2 w1(2,3) t by (simp add: Let_def del: download.simps)
  next
    case 3
    have d: "(length F - k) div 16 = Suc ((length F - (k + 16)) div 16)"
      using 3 by (simp add: le_div_geq)
    have "run_state (download C cl (Suc fuel) k (take k F)) w = run_state (download C cl fuel (k + 16) (take (k + 16) F)) w1"
      using w1(3) 3 t by (auto simp: Let_def min_def)
    then show ?thesis
      using Suc.IH [OF w1(1) 3] Suc.prems(3) d w1(2) by simp
  qed
qed

section \<open>The pump\<close>

text \<open>
  \<^verbatim>\<open>pump\<close> of \<^verbatim>\<open>nwdrop\<close>: like the managed server's loop, but a failing tick panics, and it has no commands. One
  round's readings come in a \<open>round\<close>; the program's interval is its own constant of 30 seconds.
\<close>

fun pump ::
  "('c, 'x) server_api_scheme \<Rightarrow> ('c, 'y) dht_api_scheme \<Rightarrow> bool \<Rightarrow> 'c server \<Rightarrow> dht \<Rightarrow> address option \<Rightarrow> round list \<Rightarrow>
   loop_state \<Rightarrow> ('c, loop_end \<times> loop_state) io" where
  "pump A D overflow_checks sv d announce [] s = State_Monad.return (GoesOn, s)"
| "pump A D overflow_checks sv d announce (rn # rns) s =
     (if rn_stop rn then State_Monad.return (Ended, s)
      else do {
        ticked \<leftarrow> server_tick A sv (rn_ms rn);
        (case ticked of
           Inl e \<Rightarrow> State_Monad.return (Panicked, s)
         | Inr _ \<Rightarrow> do {
             dticked \<leftarrow> dht_tick D d (rn_secs rn);
             (case dticked of
                Inl e \<Rightarrow> State_Monad.return (Panicked, s)
              | Inr _ \<Rightarrow> do {
                  announced \<leftarrow> announce_step D overflow_checks d announce (rn_secs rn) s;
                  (case announced of
                     None \<Rightarrow> State_Monad.return (Panicked, s)
                   | Some s' \<Rightarrow> pump A D overflow_checks sv d announce rns s')
                })
           })
      })"

lemma announce_step_on_schedule:
  assumes "on_schedule s" and "sl_announced_at s \<le> secs" and "0 < secs"
  shows "\<exists>s' w'. run_state (announce_step D chk d announce secs s) w = (Some s', w') \<and> on_schedule s' \<and>
    sl_announced_at s' \<le> secs"
proof -
  note due = announce_due_forward [OF assms(2), of chk]
  have remembered: "sl_announced s \<noteq> [] \<Longrightarrow> sl_announced_at s \<noteq> 0"
    using assms(1) last_in_set by (metis less_irrefl on_schedule_def)
  have "on_schedule (s\<lparr>sl_announced_at := secs, sl_announced := sl_announced s @ [secs]\<rparr>)"
    if "sl_announced_at s = 0 \<or> unat (sl_announced_at s) + 30 \<le> unat secs"
    using that assms(1,3) remembered
    by (cases "sl_announced s = []") (auto simp: on_schedule_def spaced_def successively_append_iff)
  then show ?thesis
    using assms
    by (cases announce; cases "sl_announced_at s = 0 \<or> unat (sl_announced_at s) + 30 \<le> unat secs")
      (auto simp: announce_step_def due case_prod_beta)
qed

lemma pump_on_schedule:
  assumes "run_state (pump A D chk sv d announce rns s) w = ((out, s'), w')"
    and "on_schedule s" and "\<forall>rn \<in> set rns. sl_announced_at s \<le> rn_secs rn \<and> 0 < rn_secs rn"
    and "sorted (map rn_secs rns)"
  shows "on_schedule s'"
  using assms
proof (induction rns arbitrary: s w)
  case Nil
  then show ?case by simp
next
  case (Cons rn rns)
  have step: "on_schedule s1 \<and> sl_announced_at s1 \<le> rn_secs rn"
    if "run_state (announce_step D chk d announce (rn_secs rn) s) v = (Some s1, v')" for s1 v v'
    using announce_step_on_schedule [of s "rn_secs rn" D chk d announce v] that Cons.prems by auto
  have later: "\<forall>rn' \<in> set rns. sl_announced_at s1 \<le> rn_secs rn' \<and> 0 < rn_secs rn'" if "sl_announced_at s1 \<le> rn_secs rn" for s1
    using Cons.prems(3,4) that by (auto intro: order_trans)
  have "sorted (map rn_secs rns)" using Cons.prems(4) by simp
  then show ?case
    using Cons.prems(1,2)
    by (auto split: if_splits sum.splits prod.splits option.splits dest!: step)
      (rule Cons.IH [OF _ _ later], assumption+)
qed

section \<open>Properties\<close>

text \<open>
  C27. The resumable download is complete and ends: against a peer that serves a file in windows, the loop
  returns exactly the file, whatever its length (empty, a multiple of the window, or not), after one request
  per full window and one more, so any larger bound on the requests is enough.
\<close>

theorem download_is_complete:
  assumes "serves_windows C cl F well" and "well (lib w)" and "length F div 16 < fuel"
  shows "case run_state (download C cl fuel 0 []) w of (r, w') \<Rightarrow> r = Some (Inr F) \<and>
    uses_of KClient (cl_raw cl) (history w') = uses_of KClient (cl_raw cl) (history w) + length F div 16 + 1"
  using download_rest [OF assms(1,2), of 0 fuel] assms(3) by (simp add: case_prod_beta)

text \<open>A peer whose state is the start of the window it was last asked for.\<close>

definition window_start :: "header_array \<Rightarrow> nat" where
  "window_start hs = (case hs of Some (n, v) # _ \<Rightarrow> read_nat 0 (takeWhile (\<lambda>c. c \<noteq> CHR ''-'') (drop 6 v)) | _ \<Rightarrow> 0)"

definition file_api :: "bytes \<Rightarrow> nat client_api" where
  "file_api F = sample_client_api\<lparr>c_client_send := (\<lambda>p mt path hs b c. ((0, 9), window_start hs)),
     c_message_get_status := (\<lambda>p c. Some (if c < length F then ''partial-content'' else ''range-not-satisfiable'')),
     c_message_get_body := (\<lambda>p c. Some (take 16 (drop c F)))\<rparr>"

lemma window_start_text: "window_start (Some (''range'', window_text k) # hs) = k"
proof -
  have "takeWhile (\<lambda>c. c \<noteq> CHR ''-'') (show_nat k @ ''-'' @ show_nat (k + 15)) = show_nat k"
    using show_nat_no_minus [of k] by (subst takeWhile_append2) auto
  then show ?thesis by (simp add: window_start_def window_text_def read_show_nat)
qed

lemma file_api_serves: "serves_windows (file_api F) cl F (\<lambda>_. True)"
  by (simp add: serves_windows_def file_api_def sample_client_simps window_start_text)

theorem download_is_complete_witness:
  "fst (run_state (download (file_api dropped_file) (client_wrap 5) 4 0 []) (world_init 0)) = Some (Inr dropped_file)"
proof -
  have "length dropped_file div 16 < 4" by (simp add: dropped_file_def bytes_of_def)
  from download_is_complete [OF file_api_serves TrueI this, of "client_wrap 5" "world_init 0"]
  show ?thesis by (simp add: case_prod_beta)
qed


definition one_slot_api :: "nat client_api" where
  "one_slot_api = sample_client_api\<lparr>c_cache_get_signed := (\<lambda>p mt path k t c. ((if c = 0 then 1 else 0, 9), c)),
     c_cache_put_signed := (\<lambda>p mt path r k t c. (0, 1))\<rparr>"

lemma one_slot_simps [simp]:
  "c_cache_get_signed one_slot_api = (\<lambda>p mt path k t c. ((if c = 0 then 1 else 0, 9), c))"
  "c_cache_put_signed one_slot_api = (\<lambda>p mt path r k t c. (0, 1))"
  "c_client_send one_slot_api = (\<lambda>p mt path hs b c. ((0, 9), c))"
  "c_message_free one_slot_api = (\<lambda>p c. c)"
  "c_server_relay kv_api = (\<lambda>p i j m c. (0, c))"
  "method_cstr one_slot_api Read = Some ''read''"
proof -
  have "c_method_str one_slot_api 0 = Some ''read''" by (simp add: one_slot_api_def sample_client_simps)
  moreover have "to_str ''read'' = Some ''read''" by code_simp
  ultimately show "method_cstr one_slot_api Read = Some ''read''"
    by (simp add: method_cstr_def method_as_str_def static_token_def cstring_new_def opt_unwrap_or_def)
qed (simp_all add: one_slot_api_def sample_client_simps kv_api_simps)

lemma one_slot_caches: "caching kv_api one_slot_api sv ca key (\<lambda>c. c \<noteq> 0)"
  by (simp add: caching_def)

lemma one_slot_relays: "fst (run_state (proxy_one kv_api one_slot_api sv backend ca key now cs) w) = Some ()"
  by (simp add: proxy_one_def cache_get_signed_def cache_put_signed_def client_send_def request_send_def
      run_request_with_c request_clean_def client_request_def request_set_body_def owned_response_def opened_def
      error_check_def relay_and_drop_def deferred_relay_def server_respond_def response_drop_def cstring_new_def)

lemma one_slot_relays_all: "fst (run_state (proxy_all kv_api one_slot_api sv backend ca key clock ps) w) = Some ()"
proof (induction ps arbitrary: clock w)
  case Nil
  then show ?case by simp
next
  case (Cons cs ps)
  obtain w1 where "run_state (proxy_one kv_api one_slot_api sv backend ca key (clock 0) cs) w = (Some (), w1)"
    using one_slot_relays by (metis prod.collapse)
  with Cons show ?case by simp
qed


end
