(* ===== verification/AppPrograms.thy ===== *)
theory AppPrograms
  imports AppLoops RuntimeStream
begin

text \<open>
  The smaller programs under \<^verbatim>\<open>nwep/examples\<close>: the handlers of \<^verbatim>\<open>hello_server\<close>, \<^verbatim>\<open>managed\<close>,
  \<^verbatim>\<open>managed_dht\<close> and \<^verbatim>\<open>managed_stream\<close>, the self-check of \<^verbatim>\<open>identity\<close>, and both ends of a streamed body:
  the loop that feeds it and the loops that read it.
\<close>

section \<open>Handlers of one path\<close>

definition fixed_path :: "string \<Rightarrow> bytes \<Rightarrow> ('c, 'x) handler_api_scheme \<Rightarrow> 'c handler" where
  "fixed_path path body A = (\<lambda>q r. do {
     p \<leftarrow> request_path A q;
     (if p = Some path then answer (responder_ok A r body)
      else answer (responder_not_found A r))
   })"

definition hello_handler :: "('c, 'x) handler_api_scheme \<Rightarrow> 'c handler" where
  "hello_handler = fixed_path ''/hello'' (bytes_of (''hi from nwep rust'' @ [CHR 0x0A]))"

definition managed_handler :: "('c, 'x) handler_api_scheme \<Rightarrow> 'c handler" where
  "managed_handler = fixed_path ''/hello'' (bytes_of (''hi from the managed runtime'' @ [CHR 0x0A]))"

definition ping_handler :: "('c, 'x) handler_api_scheme \<Rightarrow> 'c handler" where
  "ping_handler = fixed_path ''/ping'' (bytes_of ''pong'')"

definition big_handler :: "('c, 'x) handler_api_scheme \<Rightarrow> ('c, (u64 \<times> u64) list) shared \<Rightarrow> 'c handler" where
  "big_handler A pending = (\<lambda>q r. do {
     p \<leftarrow> request_path A q;
     (if p = Some ''/big'' then do {
        ps \<leftarrow> shared_read pending;
        shared_write pending (ps @ [(request_conn_id q, request_stream_id q)]);
        answer (responder_stream A r ''/big'' StOk [(''content-type'', ''application/octet-stream'')])
      }
      else answer (responder_not_found A r))
   })"

definition fixed_decide :: "('c, 'x) handler_api_scheme \<Rightarrow> string \<Rightarrow> bytes \<Rightarrow> request \<Rightarrow> 'c \<Rightarrow> 'c decision" where
  "fixed_decide A path body q c =
     (Some ([], if header_of A (rq_msg q) '':path'' c = Some path then TOk body else TNotFound), c)"

definition big_decide ::
  "('c, 'x) handler_api_scheme \<Rightarrow> ('c, (u64 \<times> u64) list) shared \<Rightarrow> request \<Rightarrow> 'c \<Rightarrow> 'c decision" where
  "big_decide A pending q c =
     (if header_of A (rq_msg q) '':path'' c = Some ''/big''
      then (Some ([], TStream ''/big'' StOk [(''content-type'', ''application/octet-stream'')]), park pending q c)
      else (Some ([], TNotFound), c))"

interpretation fixed: deciding_handler A "fixed_path path body A" "fixed_decide A path body" for A path body
  by unfold_locales
    (auto simp: fixed_path_def fixed_decide_def carry_out_def as_terminals run_respond simp del: respond.simps
      split: if_splits)

interpretation big: deciding_handler A "big_handler A pending" "big_decide A pending" for A pending
  by unfold_locales
    (auto simp: big_handler_def big_decide_def park_def carry_out_def request_conn_id_def request_stream_id_def
      as_terminals run_respond simp del: respond.simps split: if_splits)

section \<open>The self-check of an identity\<close>

text \<open>\<^verbatim>\<open>main\<close> of \<^verbatim>\<open>identity\<close>: the printed name of a fresh identity, or the error; \<open>None\<close> is a failed assertion.\<close>

definition identity_main :: "'c identity_api \<Rightarrow> ('c, (error + string) option) io" where
  "identity_main I = do {
     got \<leftarrow> identity_generate I;
     (case got of
        Inl e \<Rightarrow> State_Monad.return (Some (Inl e))
      | Inr ident \<Rightarrow> do {
          let out = (case node_id_to_base58 I (identity_node_id ident) of
             None \<Rightarrow> None
           | Some name \<Rightarrow> (case node_id_from_str I name of
               Inl e \<Rightarrow> Some (Inl e)
             | Inr parsed \<Rightarrow>
                 if parsed \<noteq> identity_node_id ident then None
                 else if \<not> node_id_verify I (identity_node_id ident) (identity_public_key ident) then None
                 else Some (Inr name)));
          identity_drop I ident;
          State_Monad.return out
        })
   }"

text \<open>
  What the program puts to the test: generated ids belong to their keys, and names are read back. With it, the
  check passes whenever the generator does.
\<close>

definition names_keys :: "'c identity_api \<Rightarrow> bool" where
  "names_keys I \<longleftrightarrow>
     (\<forall>c rc nid pub priv c'. c_identity_generate I c = ((rc, nid, pub, priv), c') \<longrightarrow> 0 \<le> rc \<longrightarrow>
        length nid = nodeid_size \<and> c_nodeid_verify I nid pub = 0) \<and>
     (\<forall>nid. length nid = nodeid_size \<longrightarrow> (\<exists>name. node_id_to_base58 I (NodeId nid) = Some name \<and> node_id_from_str I name = Inr (NodeId nid)))"

lemma identity_main_passes:
  assumes "names_keys I" and "c_identity_generate I (lib w) = ((rc, nid, pub, priv), c')"
  shows "fst (run_state (identity_main I) w) =
    Some (if rc < 0 then Inl (error_from_code rc) else Inr (the (node_id_to_base58 I (NodeId nid))))"
proof (cases "rc < 0")
  case True
  then show ?thesis using assms(2) by (simp add: identity_main_def identity_generate_def)
next
  case False
  then have gen: "length nid = nodeid_size" "node_id_verify I (NodeId nid) pub"
    using assms(1) [unfolded names_keys_def, THEN conjunct1, rule_format, OF assms(2)]
    by (simp_all add: node_id_verify_def)
  then obtain name where "node_id_to_base58 I (NodeId nid) = Some name" "node_id_from_str I name = Inr (NodeId nid)"
    using assms(1) unfolding names_keys_def by blast
  with gen False assms(2) show ?thesis
    by (simp add: identity_main_def identity_generate_def identity_node_id_def identity_public_key_def case_prod_beta)
qed

section \<open>Reading a streamed body\<close>

text \<open>
  \<^verbatim>\<open>nwcurl\<close>: receive until the end, then check the trailer against the key of the connected peer. \<open>fuel\<close> is
  the number of reads, of a stream that may never end; \<open>None\<close> is running out of it.
\<close>

fun count_stream ::
  "('c, 'x) client_api_scheme \<Rightarrow> client_stream \<Rightarrow> nat \<Rightarrow> nat \<Rightarrow> ('c, (error + nat) option) io" where
  "count_stream C st 0 got = State_Monad.return None"
| "count_stream C st (Suc fuel) got = do {
     r \<leftarrow> stream_recv C st 65536;
     (case r of
        Inl e \<Rightarrow> State_Monad.return (Some (Inl e))
      | Inr (written, n, ended) \<Rightarrow>
          if ended then State_Monad.return (Some (Inr (got + n))) else count_stream C st fuel (got + n))
   }"

definition verified_size ::
  "('c, 'x) client_api_scheme \<Rightarrow> client_stream \<Rightarrow> bytes \<Rightarrow> nat \<Rightarrow> ('c, (error + nat) option) io" where
  "verified_size C st peer fuel = do {
     got \<leftarrow> count_stream C st fuel 0;
     (case got of
        Some (Inr n) \<Rightarrow> do {
          verdict \<leftarrow> stream_verify C st peer;
          State_Monad.return (Some (map_ok (\<lambda>_. n) verdict))
        }
      | _ \<Rightarrow> State_Monad.return got)
   }"

text \<open>\<^verbatim>\<open>managed_stream\<close>: the bytes and the chunks until the verified end.\<close>

function receive_all :: "async_stream \<Rightarrow> nat \<Rightarrow> nat \<Rightarrow> error + nat \<times> nat" where
  "receive_all s bytes_n chunks_n =
     (case async_stream_recv s of
        (Inl e, s') \<Rightarrow> Inl e
      | (Inr None, s') \<Rightarrow> Inr (bytes_n, chunks_n)
      | (Inr (Some chunk), s') \<Rightarrow> receive_all s' (bytes_n + length chunk) (chunks_n + 1))"
  by pat_completeness auto
termination
  by (relation "measure (\<lambda>(s, _). length (as_chunks s))") (auto simp: async_stream_recv_def split: list.splits)

declare receive_all.simps [simp del]

lemma receive_all_counts:
  "receive_all \<lparr>as_status = st, as_headers = hs, as_chunks = map (\<lambda>c. Inr (Some c)) cs @ closing\<rparr> n k =
     receive_all \<lparr>as_status = st, as_headers = hs, as_chunks = closing\<rparr> (n + sum_list (map length cs)) (k + length cs)"
proof (induction cs arbitrary: n k)
  case Nil
  then show ?case by simp
next
  case (Cons c cs)
  then show ?case
    by (subst receive_all.simps) (simp add: async_stream_recv_def add.assoc)
qed

lemma receive_all_closed:
  "receive_all \<lparr>as_status = st, as_headers = hs, as_chunks = map (\<lambda>c. Inr (Some c)) cs @ [closing]\<rparr> 0 0 =
     (case closing of
        Inl e \<Rightarrow> Inl e
      | Inr None \<Rightarrow> Inr (sum_list (map length cs), length cs)
      | Inr (Some c) \<Rightarrow> Inr (sum_list (map length cs) + length c, length cs + 1))"
  unfolding receive_all_counts
  by (auto simp: async_stream_recv_def receive_all.simps split: sum.split option.split)

section \<open>Feeding streams, turn after turn\<close>

text \<open>The server loop until it sees its stop flag, with the clock readings of its turns.\<close>

fun stream_loop ::
  "('c, 'x) server_api_scheme \<Rightarrow> 'c server \<Rightarrow> ('c, (u64 \<times> u64) list) shared \<Rightarrow> bytes \<Rightarrow> int list \<Rightarrow> feeding list \<Rightarrow>
   ('c, feeding list option) io" where
  "stream_loop A sv pending body [] active = State_Monad.return (Some active)"
| "stream_loop A sv pending body (now # nows) active = do {
     fed_on \<leftarrow> feed_turn A sv pending body now active;
     (case fed_on of
        None \<Rightarrow> State_Monad.return None
      | Some active' \<Rightarrow> stream_loop A sv pending body nows active')
   }"


definition same_streams :: "('c, (u64 \<times> u64) list) shared \<Rightarrow> ('c \<Rightarrow> (u64 \<times> u64) set) \<Rightarrow> 'c \<Rightarrow> 'c \<Rightarrow> bool" where
  "same_streams pending known c c' \<longleftrightarrow> sh_get pending c' = sh_get pending c \<and> known c' = known c"

text \<open>
  What the loop relies on: the library takes prefixes, a tick opens new streams only (the handler parks each
  of them once, and none has taken anything yet) and touches the bytes of no other, and nothing else opens
  one. \<open>known\<close> is the set of the streams opened so far.
\<close>

definition opens_fresh ::
  "('c, 'x) server_api_scheme \<Rightarrow> 'c server \<Rightarrow> ('c, (u64 \<times> u64) list) shared \<Rightarrow> (u64 \<times> u64 \<Rightarrow> 'c \<Rightarrow> bytes) \<Rightarrow>
   ('c \<Rightarrow> (u64 \<times> u64) set) \<Rightarrow> bool" where
  "opens_fresh A sv pending taken known \<longleftrightarrow>
     (\<forall>now w. \<exists>new. let w' = snd (run_state (server_tick A sv now) w) in
        sh_get pending (lib w') = sh_get pending (lib w) @ new \<and> distinct new \<and> set new \<inter> known (lib w) = {} \<and>
        known (lib w') = known (lib w) \<union> set new \<and>
        (\<forall>k. taken k (lib w') = (if k \<in> set new then [] else taken k (lib w)))) \<and>
     (\<forall>v c. sh_get pending (sh_put pending v c) = v \<and> known (sh_put pending v c) = known c \<and>
        (\<forall>k. taken k (sh_put pending v c) = taken k c)) \<and>
     (\<forall>conn stream d c. same_streams pending known c (snd (c_server_stream_send A (sv_raw sv) conn stream d c))) \<and>
     (\<forall>conn stream c. same_streams pending known c (snd (c_server_stream_end A (sv_raw sv) conn stream c)))"

lemma opens_freshD:
  assumes "opens_fresh A sv pending taken known"
  shows "\<exists>new. let w' = snd (run_state (server_tick A sv now) w) in
      sh_get pending (lib w') = sh_get pending (lib w) @ new \<and> distinct new \<and> set new \<inter> known (lib w) = {} \<and>
      known (lib w') = known (lib w) \<union> set new \<and>
      (\<forall>k. taken k (lib w') = (if k \<in> set new then [] else taken k (lib w)))"
    and "sh_get pending (sh_put pending v c) = v" and "known (sh_put pending v c) = known c"
    and "taken k (sh_put pending v c) = taken k c"
    and "same_streams pending known c (snd (c_server_stream_send A (sv_raw sv) conn stream d c))"
    and "same_streams pending known c (snd (c_server_stream_end A (sv_raw sv) conn stream c))"
  using assms unfolding opens_fresh_def by blast+

lemma feed_stream_same:
  assumes "opens_fresh A sv pending taken known" and "feed_stream A sv conn stream body sent w = (r, w')"
  shows "same_streams pending known (lib w) (lib w')"
  using assms
proof (induction A sv conn stream body sent w arbitrary: r w' rule: feed_stream.induct)
  case (1 A sv conn stream body sent w)
  note fresh = 1(2) and run = 1(3) [unfolded feed_stream.simps [of A sv conn stream body sent w]]
  show ?case
  proof (cases "sent < length body")
    case True
    obtain got w1 where s: "run_state (server_stream_send A sv conn stream (drop sent body)) w = (got, w1)"
      by (metis prod.collapse)
    have "drop sent body \<noteq> []" using True by simp
    then have one: "same_streams pending known (lib w) (lib w1)"
      using s opens_freshD(5) [OF fresh, of "lib w" conn stream "(Some (drop sent body), length (drop sent body))"]
      by (auto simp: run_stream_send split: prod.splits)
    show ?thesis
    proof (cases "\<exists>n. got = Inr n \<and> n \<noteq> 0")
      case False
      then show ?thesis using run True s one by (cases got) auto
    next
      case True
      then obtain n where n: "got = Inr n" "n \<noteq> 0" by blast
      with run s \<open>sent < length body\<close> have "feed_stream A sv conn stream body (sent + n) w1 = (r, w')" by simp
      from 1(1) [OF \<open>sent < length body\<close> _ n(1) n(2) fresh this] s one n show ?thesis
        by (simp add: same_streams_def)
    qed
  next
    case False
    then show ?thesis
      using run opens_freshD(6) [OF fresh, of "lib w" conn stream]
      by (auto simp: server_stream_end_def split: sum.splits prod.splits)
  qed
qed

lemma feed_active_same:
  assumes "opens_fresh A sv pending taken known" and "run_state (feed_active A sv body fs) w = (Some gs, w')"
  shows "same_streams pending known (lib w) (lib w')"
  using assms(2)
proof (induction fs arbitrary: w gs w')
  case Nil
  then show ?case by (simp add: same_streams_def)
next
  case (Cons f fs)
  obtain conn stream sent where f: "f = (conn, stream, sent)" by (cases f)
  obtain r w1 where r: "feed_stream A sv conn stream body sent w = (r, w1)" by (metis prod.collapse)
  from Cons.prems r f obtain hs where "run_state (feed_active A sv body fs) w1 = (Some hs, w')"
    by (auto split: option.splits prod.splits)
  from Cons.IH [OF this] feed_stream_same [OF assms(1) r] show ?case by (simp add: same_streams_def)
qed

text \<open>An entry that stays in \<^verbatim>\<open>active\<close> is not done.\<close>

lemma feed_active_short:
  assumes "takes_prefixes A sv taken" and "fed taken body fs (lib w)"
    and "run_state (feed_active A sv body fs) w = (Some gs, w')"
  shows "\<forall>(conn, stream, sent) \<in> set gs. sent < length body"
  using assms(2,3)
proof (induction fs arbitrary: w gs w')
  case Nil
  then show ?case by auto
next
  case (Cons f fs)
  obtain conn stream sent where f: "f = (conn, stream, sent)" by (cases f)
  obtain keep sent' w1 where r: "feed_stream A sv conn stream body sent w = ((keep, sent'), w1)"
    by (metis prod.collapse)
  from Cons.prems(2) r f obtain k hs where k: "keep = Some k"
    and rest: "run_state (feed_active A sv body fs) w1 = (Some hs, w')"
    and gs: "gs = (if k then (conn, stream, sent') # hs else hs)"
    by (auto split: option.splits prod.splits)
  have own: "sent \<le> length body" "taken (conn, stream) (lib w) = take sent body"
    and new: "(conn, stream) \<notin> set (map feeding_key fs)"
    using Cons.prems(1) f by (auto simp: fed_def feeding_key_def)
  note one = feed_stream_takes [OF assms(1) own(1) r own(2)]
  have "fed taken body fs (lib w1)"
    using Cons.prems(1) new one by (force simp: fed_def f feeding_key_def image_iff)
  from Cons.IH [OF this rest] one show ?case by (auto simp: gs k)
qed

section \<open>Properties\<close>

definition fed_exactly ::
  "(u64 \<times> u64 \<Rightarrow> 'c \<Rightarrow> bytes) \<Rightarrow> ('c \<Rightarrow> (u64 \<times> u64) set) \<Rightarrow> bytes \<Rightarrow> feeding list \<Rightarrow> 'c \<Rightarrow> bool" where
  "fed_exactly taken known body active c \<longleftrightarrow>
     fed taken body active c \<and> (\<forall>(conn, stream, sent) \<in> set active. sent < length body) \<and>
     set (map feeding_key active) \<subseteq> known c \<and> (\<forall>k \<in> known c - set (map feeding_key active). taken k c = body)"

lemma feed_turn_exact:
  assumes "takes_prefixes A sv taken" and "opens_fresh A sv pending taken known"
    and "fed_exactly taken known body active (lib w)" and "sh_get pending (lib w) = []"
    and "run_state (feed_turn A sv pending body now active) w = (Some active', w')"
  shows "fed_exactly taken known body active' (lib w') \<and> sh_get pending (lib w') = []"
proof -
  obtain r w1 where t: "run_state (server_tick A sv now) w = (r, w1)" by (metis prod.collapse)
  from opens_freshD(1) [OF assms(2), of now w] t assms(4)
  obtain new where new: "sh_get pending (lib w1) = new" "distinct new" "set new \<inter> known (lib w) = {}"
    "known (lib w1) = known (lib w) \<union> set new"
    "\<And>k. taken k (lib w1) = (if k \<in> set new then [] else taken k (lib w))"
    by (auto simp: Let_def)
  define c2 where "c2 = sh_put pending [] (lib w1)"
  have c2: "sh_get pending c2 = []" "known c2 = known (lib w1)" "\<And>k. taken k c2 = taken k (lib w1)"
    by (simp_all add: opens_freshD [OF assms(2)] c2_def)
  let ?fs = "active @ map (\<lambda>(c, s). (c, s, 0)) new" and ?w2 = "w1\<lparr>lib := c2\<rparr>"
  from assms(5) t new(1) have run: "run_state (feed_active A sv body ?fs) ?w2 = (Some active', w')"
    by (auto simp: feed_turn_def c2_def split: sum.splits)
  have keys: "map feeding_key ?fs = map feeding_key active @ new"
    by (induction new) (auto simp: feeding_key_def)
  have apart: "set (map feeding_key active) \<inter> set new = {}"
    using assms(3) new(3) by (auto simp: fed_exactly_def)
  have "fed taken body ?fs (lib ?w2)"
    unfolding fed_def keys
  proof (intro conjI ballI)
    show "distinct (map feeding_key active @ new)"
      using assms(3) new(2) apart by (simp add: fed_exactly_def fed_def)
    fix f assume f: "f \<in> set ?fs"
    obtain conn stream sent where f3: "f = (conn, stream, sent)" by (cases f)
    show "case f of (conn, stream, sent) \<Rightarrow> sent \<le> length body \<and> taken (conn, stream) (lib ?w2) = take sent body"
    proof (cases "f \<in> set active")
      case True
      then have "(conn, stream) \<notin> set new" using apart by (force simp: f3 feeding_key_def)
      then show ?thesis using True assms(3) by (auto simp: f3 c2 new fed_exactly_def fed_def)
    next
      case False
      then have "(conn, stream) \<in> set new" "sent = 0" using f by (auto simp: f3)
      then show ?thesis by (simp add: f3 c2 new)
    qed
  qed
  note on = feed_active_fed [OF assms(1) this run] feed_active_short [OF assms(1) this run]
  have same: "sh_get pending (lib w') = []" "known (lib w') = known (lib w) \<union> set new"
    using feed_active_same [OF assms(2) run] by (simp_all add: same_streams_def c2 new)
  have "taken k (lib w') = body" if k: "k \<in> known (lib w')" "k \<notin> set (map feeding_key active')" for k
  proof (cases "k \<in> set (map feeding_key ?fs)")
    case True
    then show ?thesis using on(1) k(2) by blast
  next
    case False
    then have "taken k (lib w') = taken k (lib w)" and "k \<in> known (lib w) - set (map feeding_key active)"
      using on(1) k(1) same(2) unfolding keys by (auto simp: c2 new simp del: split_paired_All)
    then show ?thesis using assms(3) by (simp add: fed_exactly_def)
  qed
  moreover have "set (map feeding_key active') \<subseteq> known (lib w')"
    using on(1) assms(3) same(2) unfolding keys fed_exactly_def set_append by blast
  ultimately show ?thesis using on same(1) by (auto simp: fed_exactly_def simp del: split_paired_All)
qed

lemma stream_loop_exact:
  assumes "takes_prefixes A sv taken" and "opens_fresh A sv pending taken known"
    and "fed_exactly taken known body active (lib w)" and "sh_get pending (lib w) = []"
    and "run_state (stream_loop A sv pending body nows active) w = (Some active', w')"
  shows "fed_exactly taken known body active' (lib w')"
  using assms(3-5)
proof (induction nows arbitrary: active w)
  case Nil
  then show ?case by simp
next
  case (Cons now nows)
  from Cons.prems(3) obtain mid w1 where t: "run_state (feed_turn A sv pending body now active) w = (Some mid, w1)"
    and rest: "run_state (stream_loop A sv pending body nows mid) w1 = (Some active', w')"
    by (auto split: option.splits prod.splits)
  note one = feed_turn_exact [OF assms(1,2) Cons.prems(1,2) t]
  show ?case by (rule Cons.IH [OF _ _ rest]) (use one in blast)+
qed


text \<open>
  C28. Streamed bodies are fed whole, once and in order: after any number of turns of the loop that did not panic,
  each stream ever opened has taken a prefix of the body, all of it exactly when the loop no longer feeds it,
  and no stream is fed twice.
\<close>

theorem streams_fed_exactly:
  assumes "takes_prefixes A sv taken" and "opens_fresh A sv pending taken known"
    and "known (lib w) = {}" and "sh_get pending (lib w) = []"
    and "run_state (stream_loop A sv pending body nows []) w = (Some active, w')"
  shows "distinct (map feeding_key active) \<and>
    (\<forall>k \<in> known (lib w'). (\<exists>n. taken k (lib w') = take n body) \<and>
       (taken k (lib w') = body \<longleftrightarrow> k \<notin> set (map feeding_key active)))"
proof -
  have "fed_exactly taken known body active (lib w')"
    by (rule stream_loop_exact [OF assms(1,2) _ assms(4,5)]) (simp add: fed_exactly_def fed_def assms(3))
  then have d: "distinct (map feeding_key active)"
    and done_k: "\<And>k. k \<in> known (lib w') - set (map feeding_key active) \<Longrightarrow> taken k (lib w') = body"
    and entry: "\<And>conn stream n. (conn, stream, n) \<in> set active \<Longrightarrow> n < length body \<and> taken (conn, stream) (lib w') = take n body"
    unfolding fed_exactly_def fed_def by blast+
  have on: "\<exists>n < length body. taken k (lib w') = take n body" if k: "k \<in> set (map feeding_key active)" for k
  proof -
    obtain f where f: "f \<in> set active" "k = feeding_key f" using k by auto
    obtain conn stream n where "f = (conn, stream, n)" by (cases f)
    with f entry show ?thesis by (auto simp: feeding_key_def)
  qed
  have "(\<exists>n. taken k (lib w') = take n body) \<and> (taken k (lib w') = body \<longleftrightarrow> k \<notin> set (map feeding_key active))"
    if "k \<in> known (lib w')" for k
  proof (cases "k \<in> set (map feeding_key active)")
    case True
    obtain n where n: "n < length body" "taken k (lib w') = take n body" using on [OF True] by blast
    then have "length (taken k (lib w')) \<noteq> length body" by simp
    then show ?thesis using True n(2) by auto
  next
    case False
    then have t: "taken k (lib w') = body" using done_k that by simp
    show ?thesis unfolding t by (intro conjI exI [of _ "length body"]) (use False in simp_all)
  qed
  with d show ?thesis by (intro conjI ballI) (assumption, blast+)
qed

lemma take_min: "take (min (length bs) n) bs = take n bs"
  by (cases "n \<le> length bs") (simp_all add: min_def)

text \<open>A library whose first tick opens one stream, and which takes two bytes at a time.\<close>

record stream_state =
  ss_pending :: "(u64 \<times> u64) list"
  ss_known :: "(u64 \<times> u64) set"
  ss_taken :: "u64 \<times> u64 \<Rightarrow> bytes"

definition two_at_a_time :: "stream_state server_api" where
  "two_at_a_time = kv_api\<lparr>
     c_server_tick := (\<lambda>p now c. Finish 0 (if (1, 4) \<in> ss_known c then c else
       c\<lparr>ss_pending := ss_pending c @ [(1, 4)], ss_known := ss_known c \<union> {(1, 4)}, ss_taken := (ss_taken c)((1, 4) := [])\<rparr>)),
     c_server_stream_send := (\<lambda>p i j d c. let bs = take 2 (the (fst d)) in
       (int (length bs), c\<lparr>ss_taken := (ss_taken c)((i, j) := ss_taken c (i, j) @ bs)\<rparr>))\<rparr>"

definition parked_streams :: "(stream_state, (u64 \<times> u64) list) shared" where
  "parked_streams = \<lparr>sh_get = ss_pending, sh_put = (\<lambda>v c. c\<lparr>ss_pending := v\<rparr>)\<rparr>"

theorem streams_fed_exactly_witness:
  "let w = world_init \<lparr>ss_pending = [], ss_known = {}, ss_taken = (\<lambda>k. [])\<rparr> in
   ss_taken (lib (snd (run_state
     (stream_loop two_at_a_time \<lparr>sv_raw = 9, sv_handler = None\<rparr> parked_streams [1, 2, 3] [5] []) w))) (1, 4) = [1, 2, 3]"
proof -
  let ?sv = "\<lparr>sv_raw = 9, sv_handler = None\<rparr> :: stream_state server"
  define w :: "stream_state world" where "w = world_init \<lparr>ss_pending = [], ss_known = {}, ss_taken = (\<lambda>k. [])\<rparr>"
  have p: "takes_prefixes two_at_a_time ?sv (\<lambda>k c. ss_taken c k)"
    by (auto simp: takes_prefixes_def two_at_a_time_def kv_api_simps Let_def take_min)
  have o: "opens_fresh two_at_a_time ?sv parked_streams (\<lambda>k c. ss_taken c k) ss_known"
    unfolding opens_fresh_def
  proof (intro conjI allI)
    fix now and v :: "stream_state world"
    show "\<exists>new. let w' = snd (run_state (server_tick two_at_a_time ?sv now) v) in
        sh_get parked_streams (lib w') = sh_get parked_streams (lib v) @ new \<and> distinct new \<and> set new \<inter> ss_known (lib v) = {} \<and>
        ss_known (lib w') = ss_known (lib v) \<union> set new \<and>
        (\<forall>k. ss_taken (lib w') k = (if k \<in> set new then [] else ss_taken (lib v) k))"
      by (rule exI [of _ "if (1, 4) \<in> ss_known (lib v) then [] else [(1, 4)]"])
        (auto simp: server_tick_def drive_def two_at_a_time_def parked_streams_def Let_def)
  qed (auto simp: two_at_a_time_def parked_streams_def same_streams_def kv_api_simps Let_def)
  have z: "ss_known (lib w) = {}" "sh_get parked_streams (lib w) = []"
    by (simp_all add: w_def world_init_def parked_streams_def)
  obtain w' where r: "run_state (stream_loop two_at_a_time ?sv parked_streams [1, 2, 3] [5] []) w = (Some [], w')"
    and k: "(1, 4) \<in> ss_known (lib w')"
    by (simp add: feed_turn_def server_tick_def drive_def two_at_a_time_def parked_streams_def w_def world_init_def
        feed_stream.simps run_stream_send server_stream_end_def kv_api_simps Let_def)
  show ?thesis
    using streams_fed_exactly [OF p o z r] k r by (simp add: w_def Let_def)
qed

end
