(* ===== verification/AppNodes.thy ===== *)
theory AppNodes
  imports AppPrograms
begin

text \<open>
  The nodes of the programs under \<^verbatim>\<open>nwep/examples\<close> as wholes: each thread from its identity to the drop of
  its server, composed of the builders, handlers and loops of the other theories, with the drops at the
  end of a scope on every path. Printing and sleeping are left out; a channel's receiver that has gone is the
  flag \<open>gone\<close>.
\<close>

section \<open>Scopes\<close>

text \<open>
  \<^verbatim>\<open>let h = open?; body\<close> and \<^verbatim>\<open>let h = open.unwrap(); body\<close>: what the scope comes to when \<open>open_h\<close> fails is
  \<open>failed\<close>, and \<open>h\<close> drops after the body, a panic's unwinding included.
\<close>

definition hold ::
  "(error \<Rightarrow> 'r) \<Rightarrow> ('c, error + 'h) io \<Rightarrow> ('h \<Rightarrow> ('c, unit) io) \<Rightarrow> ('h \<Rightarrow> ('c, 'r) io) \<Rightarrow> ('c, 'r) io" where
  "hold failed open_h dispose body = do {
     made \<leftarrow> open_h;
     (case made of
        Inl e \<Rightarrow> State_Monad.return (failed e)
      | Inr h \<Rightarrow> do { r \<leftarrow> body h; dispose h; State_Monad.return r })
   }"

abbreviation panics :: "error \<Rightarrow> 'r option" where
  "panics \<equiv> \<lambda>_. None"

abbreviation returns :: "error \<Rightarrow> (error + 'r) option" where
  "returns \<equiv> \<lambda>e. Some (Inl e)"

text \<open>\<^verbatim>\<open>Identity::generate().unwrap()\<close>; what is made of the identity owns it.\<close>

definition generated :: "(error \<Rightarrow> 'r) \<Rightarrow> 'c identity_api \<Rightarrow> (identity \<Rightarrow> ('c, 'r) io) \<Rightarrow> ('c, 'r) io" where
  "generated failed I act = do {
     made \<leftarrow> identity_generate I;
     (case made of Inl e \<Rightarrow> State_Monad.return (failed e) | Inr ident \<Rightarrow> act ident)
   }"

text \<open>
  A thread first tells its spawner where it is, then goes on. It comes to \<open>None\<close> when it panics before that,
  else to what it told and to how it ended.
\<close>

definition tell :: "('c, error + 't) io \<Rightarrow> bool \<Rightarrow> ('c, 'a option) io \<Rightarrow> ('c, ('t \<times> 'a option) option) io" where
  "tell info gone act = do {
     i \<leftarrow> info;
     (case i of
        Inl e \<Rightarrow> State_Monad.return None
      | Inr t \<Rightarrow>
          if gone then State_Monad.return None
          else do { r \<leftarrow> act; State_Monad.return (Some (t, r)) })
   }"

definition port_info :: "('c, 'x) server_api_scheme \<Rightarrow> 'c server \<Rightarrow> ('c, u16) io_result" where
  "port_info A sv = do { p \<leftarrow> server_local_port A sv; ret_ok p }"

text \<open>\<^verbatim>\<open>while !stop\<close>: one turn for each element until the stop flag is seen.\<close>

fun run_turns :: "('t \<Rightarrow> ('c, unit option) io) \<Rightarrow> 't list \<Rightarrow> ('c, unit option) io" where
  "run_turns turn [] = State_Monad.return (Some ())"
| "run_turns turn (t # ts) = do {
     r \<leftarrow> turn t;
     (case r of None \<Rightarrow> State_Monad.return None | Some _ \<Rightarrow> run_turns turn ts)
   }"

definition tick_turn :: "('c, 'x) server_api_scheme \<Rightarrow> 'c server \<Rightarrow> int \<Rightarrow> ('c, unit option) io" where
  "tick_turn A sv now = do {
     ticked \<leftarrow> server_tick A sv now;
     State_Monad.return (case ticked of Inl e \<Rightarrow> None | Inr _ \<Rightarrow> Some ())
   }"

definition example_builder :: "address_api \<Rightarrow> identity \<Rightarrow> 'c handler \<Rightarrow> 'c server_builder" where
  "example_builder N ident h =
     builder_on_request h (builder_bind (address_loopback N 0) (builder_identity ident server_builder))"

section \<open>Serving nodes\<close>

definition kv_thread ::
  "'c identity_api \<Rightarrow> ('c, 'x) server_api_scheme \<Rightarrow> address_api \<Rightarrow> ('c, kv_env) shared \<Rightarrow> bool \<Rightarrow> int list \<Rightarrow>
   ('c, ((node_id \<times> u16) \<times> unit option) option) io" where
  "kv_thread I A N env gone nows = do {
     shared_write env kv_empty;
     generated panics I (\<lambda>ident. hold panics (server_build I A (example_builder N ident (kv_handler A env))) (server_drop A)
       (\<lambda>sv. tell (server_info A sv) gone (run_turns (kv_turn A sv env) nows)))
   }"

definition page_thread ::
  "'c identity_api \<Rightarrow> ('c, 'x) server_api_scheme \<Rightarrow> address_api \<Rightarrow> bool \<Rightarrow> int list \<Rightarrow>
   ('c, ((node_id \<times> u16) \<times> unit option) option) io" where
  "page_thread I A N gone nows =
     generated panics I (\<lambda>ident. hold panics (server_build I A (example_builder N ident (page_handler A))) (server_drop A)
       (\<lambda>sv. tell (server_info A sv) gone (run_turns (tick_turn A sv) nows)))"

definition origin_thread ::
  "'c identity_api \<Rightarrow> ('c, 'x) server_api_scheme \<Rightarrow> address_api \<Rightarrow> ('c, u64) shared \<Rightarrow> identity \<Rightarrow> bool \<Rightarrow> int list \<Rightarrow>
   ('c, (u16 \<times> unit option) option) io" where
  "origin_thread I A N hits ident gone nows =
     hold panics (server_build I A (example_builder N ident (origin_handler A hits))) (server_drop A)
       (\<lambda>sv. tell (port_info A sv) gone (run_turns (tick_turn A sv) nows))"

definition curl_thread ::
  "'c identity_api \<Rightarrow> ('c, 'x) server_api_scheme \<Rightarrow> address_api \<Rightarrow> ('c, (u64 \<times> u64) list) shared \<Rightarrow> bytes \<Rightarrow> bool \<Rightarrow>
   int list \<Rightarrow> ('c, ((node_id \<times> u16) \<times> feeding list option) option) io" where
  "curl_thread I A N pending big gone nows = do {
     shared_write pending [];
     generated panics I (\<lambda>ident. hold panics (server_build I A (example_builder N ident (curl_handler A pending))) (server_drop A)
       (\<lambda>sv. tell (server_info A sv) gone (stream_loop A sv pending big nows [])))
   }"

definition stream_node ::
  "'c identity_api \<Rightarrow> ('c, 'x) server_api_scheme \<Rightarrow> address_api \<Rightarrow> ('c, (u64 \<times> u64) list) shared \<Rightarrow> bytes \<Rightarrow>
   identity \<Rightarrow> bool \<Rightarrow> int list \<Rightarrow> ('c, (u16 \<times> feeding list option) option) io" where
  "stream_node I A N pending body ident gone nows = do {
     shared_write pending [];
     hold panics (server_build I A (example_builder N ident (big_handler A pending))) (server_drop A)
       (\<lambda>sv. tell (port_info A sv) gone (stream_loop A sv pending body nows []))
   }"

text \<open>
  \<^verbatim>\<open>nwproxy\<close>'s frontend: its locals are the backend client, the cache and the server, which drop in reverse
  order. A turn comes with its readings of the clocks.
\<close>

definition frontend_thread ::
  "'c identity_api \<Rightarrow> ('c, 'x) server_api_scheme \<Rightarrow> ('c, 'y) client_api_scheme \<Rightarrow> address_api \<Rightarrow>
   ('c, (u64 \<times> u64) list) shared \<Rightarrow> bytes \<Rightarrow> node_id \<Rightarrow> u16 \<Rightarrow> bool \<Rightarrow> (int \<times> (nat \<Rightarrow> u64 \<times> u64)) list \<Rightarrow>
   ('c, ((node_id \<times> u16) \<times> unit option) option) io" where
  "frontend_thread I A C N parked key origin_node origin_port gone turns =
     generated panics I (\<lambda>ident.
       hold panics (client_connect I C (client_builder_identity ident client_builder) origin_node (address_loopback N origin_port))
         (client_drop C) (\<lambda>backend.
       hold panics (cache_new C (2 ^ 20) 64) (cache_drop C) (\<lambda>ca.
         generated panics I (\<lambda>ident'.
           hold panics (server_build I A (example_builder N ident' (park_handler parked))) (server_drop A) (\<lambda>sv.
             tell (server_info A sv) gone
               (run_turns (\<lambda>(now, clock). proxy_turn A C sv backend ca key parked now clock) turns))))))"

text \<open>\<^verbatim>\<open>hello_server\<close> has no stop flag: \<open>None\<close> is that it is still serving, with nothing dropped.\<close>

fun hello_loop :: "('c, 'x) server_api_scheme \<Rightarrow> 'c server \<Rightarrow> int list \<Rightarrow> ('c, error option) io" where
  "hello_loop A sv [] = State_Monad.return None"
| "hello_loop A sv (now # nows) = do {
     ticked \<leftarrow> server_tick A sv now;
     (case ticked of Inl e \<Rightarrow> State_Monad.return (Some e) | Inr _ \<Rightarrow> hello_loop A sv nows)
   }"

definition hello_main ::
  "'c identity_api \<Rightarrow> ('c, 'x) server_api_scheme \<Rightarrow> address_api \<Rightarrow> int list \<Rightarrow> ('c, error option) io" where
  "hello_main I A N nows =
     generated Some I (\<lambda>ident. do {
       made \<leftarrow> server_build I A (example_builder N ident (hello_handler A));
       (case made of
          Inl e \<Rightarrow> State_Monad.return (Some e)
        | Inr sv \<Rightarrow> do {
            _ \<leftarrow> server_local_port A sv;
            node \<leftarrow> server_node_id A sv;
            (case node of
               Inl e \<Rightarrow> do { server_drop A sv; State_Monad.return (Some e) }
             | Inr _ \<Rightarrow> do {
                 r \<leftarrow> hello_loop A sv nows;
                 (if r = None then State_Monad.return () else server_drop A sv);
                 State_Monad.return r
               })
          })
     })"

section \<open>Nodes with a dht\<close>

text \<open>\<^verbatim>\<open>nwdrop\<close>'s loopback addresses.\<close>

definition lo :: "address_api \<Rightarrow> u8 \<Rightarrow> u16 \<Rightarrow> address" where
  "lo N octet port = address_ipv4_mapped N 127 0 0 octet port"

text \<open>The pump until the flag is seen in the round \<open>seen\<close>; a panic of the loop is \<open>None\<close>.\<close>

definition pump_until ::
  "('c, 'x) server_api_scheme \<Rightarrow> ('c, 'y) dht_api_scheme \<Rightarrow> bool \<Rightarrow> 'c server \<Rightarrow> dht \<Rightarrow> address option \<Rightarrow> round list \<Rightarrow>
   round \<Rightarrow> ('c, loop_state option) io" where
  "pump_until A D overflow_checks sv d announce rns seen = do {
     (out, s) \<leftarrow> pump A D overflow_checks sv d announce (rns @ stop_rounds [seen]) loop_start;
     State_Monad.return (if out = Panicked then None else Some s)
   }"

definition joined_dht ::
  "(error \<Rightarrow> 'r) \<Rightarrow> ('c, 'y) dht_api_scheme \<Rightarrow> 'c server \<Rightarrow> bootstrap \<Rightarrow> u64 \<Rightarrow> (dht \<Rightarrow> ('c, 'r) io) \<Rightarrow> ('c, 'r) io" where
  "joined_dht failed D sv contact now body =
     hold failed (dht_attach D (dht_add_bootstrap contact (dht_builder sv))) (dht_drop D) (\<lambda>d. do {
       joined \<leftarrow> dht_join D d now;
       (case joined of Inl e \<Rightarrow> State_Monad.return (failed e) | Inr _ \<Rightarrow> body d)
     })"

definition rendezvous_thread ::
  "'c identity_api \<Rightarrow> ('c, 'x) server_api_scheme \<Rightarrow> ('c, 'y) dht_api_scheme \<Rightarrow> address_api \<Rightarrow> bool \<Rightarrow> identity \<Rightarrow> u64 \<Rightarrow>
   bool \<Rightarrow> round list \<Rightarrow> round \<Rightarrow> ('c, ((node_id \<times> u16) \<times> loop_state option) option) io" where
  "rendezvous_thread I A D N overflow_checks ident now gone rns seen =
     hold panics (server_build I A (builder_bind (lo N 1 0) (builder_identity ident server_builder))) (server_drop A) (\<lambda>sv. do {
       info \<leftarrow> server_info A sv;
       (case info of
          Inl e \<Rightarrow> State_Monad.return None
        | Inr (node, port) \<Rightarrow> joined_dht panics D sv (bootstrap_new node (lo N 1 port)) now (\<lambda>d.
            tell (ret_ok (node, port)) gone (pump_until A D overflow_checks sv d None rns seen)))
     })"

definition sender_thread ::
  "'c identity_api \<Rightarrow> ('c, 'x) server_api_scheme \<Rightarrow> ('c, 'y) dht_api_scheme \<Rightarrow> address_api \<Rightarrow> bool \<Rightarrow> identity \<Rightarrow>
   bootstrap \<Rightarrow> u64 \<Rightarrow> bool \<Rightarrow> round list \<Rightarrow> round \<Rightarrow> ('c, (node_id \<times> loop_state option) option) io" where
  "sender_thread I A D N overflow_checks ident contact now gone rns seen =
     hold panics (server_build I A (builder_on_request (blob_handler A)
         (builder_bind (lo N 2 0) (builder_identity ident server_builder)))) (server_drop A) (\<lambda>sv. do {
       port \<leftarrow> server_local_port A sv;
       got \<leftarrow> server_node_id A sv;
       (case got of
          Inl e \<Rightarrow> State_Monad.return None
        | Inr node \<Rightarrow> joined_dht panics D sv contact now (\<lambda>d.
            tell (ret_ok node) gone (pump_until A D overflow_checks sv d (Some (lo N 2 port)) rns seen)))
     })"

text \<open>
  The getter resolves the sender by its node id alone and downloads; its locals are the server, the dht and
  the client. \<open>None\<close> is running out of the requests of \<open>download\<close>.
\<close>

definition getter_main ::
  "'c identity_api \<Rightarrow> ('c, 'x) server_api_scheme \<Rightarrow> ('c, 'y) client_api_scheme \<Rightarrow> ('c, 'z) dht_api_scheme \<Rightarrow> address_api \<Rightarrow>
   bootstrap \<Rightarrow> node_id \<Rightarrow> u64 \<Rightarrow> nat \<Rightarrow> ('c, (error + bytes) option) io" where
  "getter_main I A C D N contact sender now fuel =
     generated returns I (\<lambda>ident.
       hold returns (server_build I A (builder_bind (lo N 3 0) (builder_identity ident server_builder))) (server_drop A) (\<lambda>sv.
         joined_dht returns D sv contact now (\<lambda>d.
           generated returns I (\<lambda>ident'.
             hold returns (client_connect_by_node_id I C (client_builder_identity ident' client_builder) sender (dht_as_ptr d) 8000)
               (client_drop C) (\<lambda>cl. download C cl fuel 0 [])))))"

section \<open>The log node\<close>

text \<open>
  The hook of \<^verbatim>\<open>nwlog\<close> stores the number of entries, which its main thread prints. The handler owns the log
  server, so it drops with the handler's box: after the server is closed, or with the builder of a failed build.
\<close>

definition count_appended :: "bool \<Rightarrow> ('c, u64) shared \<Rightarrow> 'c append_hook" where
  "count_appended overflow_checks appended = (\<lambda>entry index.
     if overflow_checks \<and> index = - 1 then State_Monad.return None
     else do { shared_write appended (index + 1); State_Monad.return (Some ()) })"

definition nwlog_thread ::
  "'c identity_api \<Rightarrow> ('c, 'y) log_server_api_scheme \<Rightarrow> ('c, 'x) server_api_scheme \<Rightarrow> address_api \<Rightarrow> 'c append_hook \<Rightarrow>
   ('c \<Rightarrow> int) \<Rightarrow> bool \<Rightarrow> int list \<Rightarrow> ('c, ((node_id \<times> u16) \<times> unit option) option) io" where
  "nwlog_thread I L A N hook clock gone nows =
     generated panics I (\<lambda>ident. do {
       kept \<leftarrow> log_new L;
       (case kept of
          Inl e \<Rightarrow> do { identity_drop I ident; State_Monad.return None }
        | Inr l \<Rightarrow> do {
            made \<leftarrow> log_server_new I L ident l;
            (case made of
               Inl e \<Rightarrow> do { identity_drop I ident; State_Monad.return None }
             | Inr ls \<Rightarrow> do {
                 ls' \<leftarrow> log_server_on_append L ls hook;
                 r \<leftarrow> hold panics (server_build I A (example_builder N ident (nwlog_handler L A ls' clock))) (server_drop A)
                   (\<lambda>sv. tell (server_info A sv) gone (run_turns (tick_turn A sv) nows));
                 log_server_drop L ls';
                 State_Monad.return r
               })
          })
     })"


section \<open>Clients\<close>

text \<open>\<^verbatim>\<open>nwproxy\<close>'s client: the same request again and again, each response dropped with its turn.\<close>

fun ask_times ::
  "('c, 'x) client_api_scheme \<Rightarrow> 'c client \<Rightarrow> nat \<Rightarrow> ('c, error + (status option \<times> bytes) list) io" where
  "ask_times C cl 0 = ret_ok []"
| "ask_times C cl (Suc n) =
     try_ok (hold Inl (client_send C cl Read ''/doc'' []) (response_drop C) (\<lambda>r. do {
         st \<leftarrow> response_status C r;
         bs \<leftarrow> response_body C r;
         ret_ok (st, bs)
       }))
       (\<lambda>x. try_ok (ask_times C cl n) (\<lambda>xs. ret_ok (x # xs)))"

definition proxy_client ::
  "'c identity_api \<Rightarrow> ('c, 'x) client_api_scheme \<Rightarrow> address_api \<Rightarrow> node_id \<Rightarrow> u16 \<Rightarrow>
   ('c, error + (status option \<times> bytes) list) io" where
  "proxy_client I C N node port =
     generated Inl I (\<lambda>ident.
       hold Inl (client_connect I C (client_builder_identity ident client_builder) node (address_loopback N port)) (client_drop C)
         (\<lambda>cl. ask_times C cl 3))"

text \<open>
  \<^verbatim>\<open>nwlog\<close>'s submitter: it makes a key binding of its own identity, reads it back (the type, and whether it
  names the signer), and submits it; the identity is a local of \<^verbatim>\<open>main\<close>, wiped at its end.
\<close>

definition checked_binding ::
  "'c identity_api \<Rightarrow> ('c, 'y) log_api_scheme \<Rightarrow> identity \<Rightarrow> u64 \<Rightarrow> ('c, error + bytes \<times> entry_type \<times> bool) io" where
  "checked_binding I L submitter secs =
     try_ok (key_binding I L submitter (replicate 32 17) secs) (\<lambda>entry.
     try_ok (lift_res (key_binding_decode L entry)) (\<lambda>decoded.
     try_ok (lift_res (entry_type_of L entry)) (\<lambda>ty.
     ret_ok (entry, ty, kb_node decoded = identity_node_id submitter))))"

definition submit_main ::
  "'c identity_api \<Rightarrow> ('c, 'y) log_api_scheme \<Rightarrow> ('c, 'x) client_api_scheme \<Rightarrow> address_api \<Rightarrow> u64 \<Rightarrow> node_id \<Rightarrow> u16 \<Rightarrow>
   ('c, error + (entry_type \<times> bool \<times> status option)) io" where
  "submit_main I L C N secs node port =
     hold Inl (identity_generate I) (identity_drop I) (\<lambda>submitter.
       try_ok (checked_binding I L submitter secs) (\<lambda>(entry, ty, own).
       generated Inl I (\<lambda>ident.
         hold Inl (client_connect I C (client_builder_identity ident client_builder) node (address_loopback N port)) (client_drop C)
           (\<lambda>cl. hold Inl (request_send C (request_set_body (client_request cl Write ''/log/entry'') entry)) (response_drop C)
             (\<lambda>r. do { st \<leftarrow> response_status C r; ret_ok (ty, own, st) })))))"

section \<open>What a scope leaves\<close>

text \<open>A computation that gives back every handle, closure and registration it takes.\<close>

definition leaves :: "monitor \<Rightarrow> ('c, 'a) io \<Rightarrow> bool" where
  "leaves m act \<longleftrightarrow> (\<forall>w. coherent w m \<longrightarrow> coherent (snd (run_state act w)) m)"

lemma leavesD: "leaves m act \<Longrightarrow> coherent w m \<Longrightarrow> coherent (snd (run_state act w)) m"
  by (simp add: leaves_def)

lemma leavesI: "(\<And>w. coherent w m \<Longrightarrow> coherent (snd (run_state act w)) m) \<Longrightarrow> leaves m act"
  by (simp add: leaves_def)

lemma preserves_leaves: "preserves m act \<Longrightarrow> leaves m act"
  by (simp add: preserves_def leaves_def)

named_theorems leave_rules

lemma leaves_bind [leave_rules]: "leaves m act \<Longrightarrow> (\<And>x. leaves m (f x)) \<Longrightarrow> leaves m (act \<bind> f)"
  by (auto simp: leaves_def split: prod.split)

lemma leaves_return [leave_rules]: "leaves m (State_Monad.return x)"
  and leaves_shared [leave_rules]: "leaves m (shared_write env v)" "leaves m (shared_read env)"
  by (simp_all add: leaves_def)

lemma leaves_cases [leave_rules]:
  "(\<And>e. leaves m (f e)) \<Longrightarrow> (\<And>v. leaves m (g v)) \<Longrightarrow> leaves m (case r of Inl e \<Rightarrow> f e | Inr v \<Rightarrow> g v)"
  "leaves m x \<Longrightarrow> (\<And>v. leaves m (h v)) \<Longrightarrow> leaves m (case opt of None \<Rightarrow> x | Some v \<Rightarrow> h v)"
  "(\<And>a b. leaves m (k a b)) \<Longrightarrow> leaves m (case p of (a, b) \<Rightarrow> k a b)"
  by (simp_all split: sum.split option.split prod.split)

lemma leaves_if [leave_rules]: "leaves m x \<Longrightarrow> leaves m y \<Longrightarrow> leaves m (if b then x else y)"
  by simp

lemma leaves_tell [leave_rules]: "leaves m info \<Longrightarrow> leaves m act \<Longrightarrow> leaves m (tell info gone act)"
  unfolding tell_def by (intro leave_rules)

lemma leaves_turns [leave_rules]: "(\<And>t. leaves m (turn t)) \<Longrightarrow> leaves m (run_turns turn ts)"
  by (induction ts) (auto intro!: leave_rules)

lemma leaves_generate [leave_rules]: "leaves m (identity_generate I)"
  by (rule leavesI) (erule coherent_same; simp add: run_identity_generate Let_def split: prod.split sum.split)

lemma leaves_generated [leave_rules]:
  "(\<And>ident. leaves m (act ident)) \<Longrightarrow> leaves m (generated failed I act)"
  unfolding generated_def by (intro leave_rules)

text \<open>The contract of an owned handle gives the rule for its scope.\<close>

context owned_handle
begin

lemma hold_leaves:
  assumes "\<And>c. pre c m" and "\<And>h m'. owns h m m' \<Longrightarrow> leaves m' (body h)"
  shows "leaves m (hold failed open_h dispose body)"
proof (rule leavesI)
  fix w :: "'c world"
  assume coh: "coherent w m"
  obtain r w1 where r: "run_state open_h w = (r, w1)" by (metis prod.collapse)
  show "coherent (snd (run_state (hold failed open_h dispose body) w)) m"
  proof (cases r)
    case (Inl e)
    then show ?thesis using make_err [OF coh assms(1)] r by (simp add: hold_def)
  next
    case (Inr h)
    obtain m' where m': "owns h m m'" "coherent w1 m'"
      using make_ok [OF coh assms(1)] r Inr by blast
    from dispose_ok [OF m'(1) leavesD [OF assms(2) [OF m'(1)] m'(2)]] show ?thesis
      using r Inr by (simp add: hold_def case_prod_beta)
  qed
qed

end


subsection \<open>Freshness under other handles\<close>

text \<open>Handles of kind \<open>k\<close> are the same in both monitors.\<close>

definition same_of :: "kind \<Rightarrow> monitor \<Rightarrow> monitor \<Rightarrow> bool" where
  "same_of k m m' \<longleftrightarrow> (\<forall>p. ((k, p) \<in> live m' \<longleftrightarrow> (k, p) \<in> live m) \<and> regs m' (k, p) = regs m (k, p) \<and>
     borrows m' (k, p) = borrows m (k, p))"

lemma fresh_same: "fresh_ptr k f c m \<Longrightarrow> same_of k m m' \<Longrightarrow> fresh_ptr k f c m'"
  by (auto simp: fresh_ptr_def same_of_def split: prod.splits)

lemma owned_same:
  "server_owns sv m m' \<Longrightarrow> k \<noteq> KServer \<Longrightarrow> same_of k m m'"
  "dht_owns s d m m' \<Longrightarrow> k \<noteq> KDht \<Longrightarrow> same_of k m m'"
  "owns_handle k' p m m' \<Longrightarrow> k \<noteq> k' \<Longrightarrow> same_of k m m'"
  by (auto simp: same_of_def server_owns_def dht_owns_def owns_handle_def split: option.splits)

text \<open>What the library promises of the servers, and of the messages it hands over.\<close>

definition servers_fresh :: "('c, 'x) server_api_scheme \<Rightarrow> monitor \<Rightarrow> bool" where
  "servers_fresh A m \<longleftrightarrow> (\<forall>c. server_pre A server_builder c m)"

definition messages_fresh :: "('c, 'y) client_api_scheme \<Rightarrow> monitor \<Rightarrow> bool" where
  "messages_fresh C m \<longleftrightarrow> (\<forall>p mt path hs b c. fresh_ptr KMessage (c_client_send C p mt path hs b) c m) \<and>
     (\<forall>p tok path key now c. fresh_ptr KMessage (c_cache_get_signed C p tok path key now) c m)"

definition clients_fresh :: "('c, 'y) client_api_scheme \<Rightarrow> monitor \<Rightarrow> bool" where
  "clients_fresh C m \<longleftrightarrow> (\<forall>kp n a c. fresh_ptr KClient (c_client_connect C kp n a) c m) \<and>
     (\<forall>kp n d t c. fresh_ptr KClient (c_client_connect_by_nodeid C kp n d t) c m)"

definition caches_fresh :: "('c, 'y) client_api_scheme \<Rightarrow> monitor \<Rightarrow> bool" where
  "caches_fresh C m \<longleftrightarrow> (\<forall>n k c. fresh_ptr KCache (create_status C n k) c m)"

lemmas freshness = servers_fresh_def messages_fresh_def clients_fresh_def caches_fresh_def dht_fresh_def

lemma freshness_same:
  "servers_fresh A m \<Longrightarrow> same_of KServer m m' \<Longrightarrow> servers_fresh A m'"
  "messages_fresh C m \<Longrightarrow> same_of KMessage m m' \<Longrightarrow> messages_fresh C m'"
  "clients_fresh C m \<Longrightarrow> same_of KClient m m' \<Longrightarrow> clients_fresh C m'"
  "caches_fresh C m \<Longrightarrow> same_of KCache m m' \<Longrightarrow> caches_fresh C m'"
  "dht_fresh D m \<Longrightarrow> same_of KDht m m' \<Longrightarrow> dht_fresh D m'"
  unfolding freshness server_pre_def by (blast intro: fresh_same)+

lemma builder_pre:
  assumes "servers_fresh A m" and "\<And>f. sb_handler sb = Some f \<Longrightarrow> polite f"
  shows "server_pre A sb c m"
proof -
  have "server_pre A server_builder c m" using assms(1) by (simp add: servers_fresh_def)
  then show ?thesis unfolding server_pre_def by (elim conjE, intro conjI) (simp add: assms(2), assumption+)
qed

subsection \<open>Servers, clients and dhts in their scopes\<close>

lemma server_scope:
  assumes "servers_fresh A m" and "\<And>f. sb_handler sb = Some f \<Longrightarrow> polite f"
    and "\<And>sv m'. server_owns sv m m' \<Longrightarrow> leaves m' (body sv)"
  shows "leaves m (hold failed (server_build I A sb) (server_drop A) body)"
  by (rule server_life.hold_leaves, rule builder_pre [OF assms(1,2)], assumption, rule assms(3))

lemma example_scope:
  assumes "servers_fresh A m" and "polite h" and "\<And>sv m'. server_owns sv m m' \<Longrightarrow> leaves m' (body sv)"
  shows "leaves m (hold failed (server_build I A (example_builder N ident h)) (server_drop A) body)"
  by (rule server_scope [OF assms(1) _ assms(3)])
    (use assms(2) in \<open>simp_all add: example_builder_def builder_on_request_def\<close>)

lemma dht_scope:
  assumes "dht_fresh D m" and "server_owns sv m m'"
    and "\<And>d m''. frame_owns sv (Some d) m m'' \<Longrightarrow> dht_owns (sv_raw sv) d m' m'' \<Longrightarrow> leaves m'' (body d)"
  shows "leaves m' (joined_dht failed D sv contact now body)"
proof -
  have b: "dh_server (dht_add_bootstrap contact (dht_builder sv)) = sv_raw sv"
    by (simp add: dht_add_bootstrap_def dht_builder_def server_as_ptr_def)
  have f: "dht_fresh D m'"
    by (rule freshness_same(5) [OF assms(1) owned_same(1) [OF assms(2)]]) simp
  show ?thesis
    unfolding joined_dht_def
  proof (rule dht_life.hold_leaves, unfold b)
    show "dht_pre D (dht_add_bootstrap contact (dht_builder sv)) c m'" for c
      using f server_owns_live [OF assms(2)] by (simp add: dht_pre_def b dht_fresh_def)
    fix d m''
    assume d: "dht_owns (sv_raw sv) d m' m''"
    then have "frame_owns sv (Some d) m m''" using assms(2) by (auto simp: frame_owns_def)
    moreover have "preserves m'' (dht_join D d now)"
      using dht_owns_usable [OF d] by (auto simp: dht_join_def intro!: keep_rules)
    ultimately show "leaves m'' (do {
        joined \<leftarrow> dht_join D d now;
        (case joined of Inl e \<Rightarrow> State_Monad.return (failed e) | Inr _ \<Rightarrow> body d) })"
      using d by (intro leave_rules preserves_leaves assms(3))
  qed
qed

lemma info_leaves:
  assumes "usable m (KServer, sv_raw sv)"
  shows "leaves m (server_info A sv)" and "leaves m (port_info A sv)" and "leaves m (server_local_port A sv)"
    and "leaves m (server_node_id A sv)"
  using assms
  by (auto simp: server_info_def port_info_def server_node_id_def server_local_port_def intro!: preserves_leaves keep_rules)


text \<open>A client with neither hook nor shared cache owns just its handle.\<close>

definition lone_client :: "'c client \<Rightarrow> monitor \<Rightarrow> monitor \<Rightarrow> bool" where
  "lone_client cl m m' \<longleftrightarrow> cl_done cl = None \<and> cl_cache cl = None \<and> owns_handle KClient (cl_raw cl) m m'"

definition client_reads :: "('c, 'x) client_api_scheme \<Rightarrow> 'c client \<Rightarrow> ('c, unit) io set" where
  "client_reads C cl = {discard (client_is_alive C cl), discard (client_compression C cl),
     discard (client_peer_pubkey C cl), discard (client_metrics_get C cl), discard (client_fd C cl)} \<union>
     range (\<lambda>now. discard (client_next_timeout C cl now)) \<union> range (\<lambda>now. discard (client_tick C cl now))"

definition dial ::
  "'c identity_api \<Rightarrow> client_builder \<Rightarrow> ('c, unit) io \<Rightarrow> (bytes \<times> bytes \<Rightarrow> 'c \<Rightarrow> (int \<times> ptr) \<times> 'c) \<Rightarrow> ('c, 'c client) io_result" where
  "dial I b pre opn = with_identity I b (\<lambda>ident.
     try_ok (with_keypair I ident (\<lambda>kp. do { pre; checked_out (acquire KClient (opn kp)) }))
       (\<lambda>raw. ret_ok (client_wrap raw)))"

lemma dial_outcome:
  assumes "coherent w m" and "preserves m pre" and "\<And>kp c. fresh_ptr KClient (opn kp) c m"
    and "run_state (dial I b pre opn) w = (r, w')"
  shows "case r of Inl e \<Rightarrow> coherent w' m | Inr cl \<Rightarrow> \<exists>m'. lone_client cl m m' \<and> coherent w' m'"
proof (cases "cb_identity b")
  case None
  then show ?thesis using assms(1,4) by (auto simp: dial_def with_identity_def)
next
  case (Some ident)
  define secret where "secret = cell_at w (id_priv ident)"
  let ?f = "opn (id_pub ident, secret)" and ?w0 = "w\<lparr>cells := cells w @ [secret]\<rparr>"
  obtain v where v: "run_state pre ?w0 = ((), v)" by (metis old.unit.exhaust prod.collapse)
  have "coherent v m" using preservesD [OF assms(2), of ?w0] assms(1) v by simp
  moreover obtain rc p v1 where a: "run_state (acquire KClient ?f) v = ((rc, p), v1)" by (metis prod.collapse)
  ultimately have o: "if rc < 0 then coherent v1 m else \<exists>m'. owns_handle KClient p m m' \<and> coherent v1 m'"
    using owns_acquire [OF _ assms(3)] by blast
  have "\<exists>cs. w' = v1\<lparr>cells := cs\<rparr>" and "r = map_ok (\<lambda>_. client_wrap p) (error_check rc)"
    using assms(4) Some v a
    by (auto simp: dial_def with_identity_def run_with_keypair Let_def secret_def identity_drop_def error_check_def
        split: if_splits simp del: run_acquire)
  then show ?thesis
    using o by (auto simp: error_check_def lone_client_def client_wrap_def)
qed

interpretation dialled: owned_handle "dial I b (if by_dht then emit (Use KDht d) else State_Monad.return ()) opn"
  "client_drop C" "client_reads C" lone_client
  "\<lambda>_ m. (by_dht \<longrightarrow> usable m (KDht, d)) \<and> (\<forall>kp c. fresh_ptr KClient (opn kp) c m)" for I b by_dht d opn C
proof (unfold_locales, goal_cases)
  case (1 w m e w')
  then show ?case using dial_outcome [OF 1(1) _ _ 1(3)] by (auto intro!: keep_rules)
next
  case (2 w m h w')
  then show ?case using dial_outcome [OF 2(1) _ _ 2(3)] by (auto intro!: keep_rules)
next
  case (3 h m m' u)
  then have u: "usable m' (KClient, cl_raw h)" "cl_done h = None" "reg_alive m' (KClient, cl_raw h)"
    using owns_usable owns_reg_alive by (auto simp: lone_client_def)
  then show ?case
    using 3 by (auto simp: client_reads_def client_is_alive_def client_compression_def client_peer_pubkey_def
        client_metrics_get_def client_fd_def client_next_timeout_def client_tick_def client_callback_def intro!: keep_rules)
next
  case (4 h m m' w)
  then show ?case
    using owns_release [of KClient "cl_raw h" m m' w "c_client_close C (cl_raw h)"]
    by (simp add: lone_client_def client_drop_def drop_cache_ref_def case_prod_beta)
qed

lemma connect_dials:
  "client_connect I C b n a = dial I b (if False then emit (Use KDht 0) else State_Monad.return ())
     (\<lambda>kp. c_client_connect C kp (node_id_raw n) (address_as_raw a))"
  "client_connect_by_node_id I C b n d t = dial I b (if True then emit (Use KDht d) else State_Monad.return ())
     (\<lambda>kp. c_client_connect_by_nodeid C kp (node_id_raw n) d (clamp_ms t))"
  by (simp_all add: client_connect_def client_connect_by_node_id_def dial_def Let_def)

lemma client_scope:
  assumes "clients_fresh C m" and "\<And>cl m'. lone_client cl m m' \<Longrightarrow> leaves m' (body cl)"
  shows "leaves m (hold failed (client_connect I C b n a) (client_drop C) body)"
    and "usable m (KDht, d) \<Longrightarrow> leaves m (hold failed (client_connect_by_node_id I C b n d t) (client_drop C) body)"
  unfolding connect_dials
  by (rule dialled.hold_leaves; use assms in \<open>simp add: clients_fresh_def\<close>)+

lemma cache_scope:
  assumes "caches_fresh C m" and "\<And>ca m'. owns_handle KCache (ca_raw ca) m m' \<Longrightarrow> leaves m' (body ca)"
  shows "leaves m (hold failed (cache_new C n k) (cache_drop C) body)"
  unfolding cache_new_opened
  using cache_handle.owned.hold_leaves [of C n k m body failed] assms
  by (simp add: caches_fresh_def cache_drop_def [abs_def])


subsection \<open>Loops\<close>

text \<open>A message taken out of the library is given back by the response's drop.\<close>

lemma message_dropped:
  assumes "owns_handle KMessage (rp_msg r) m m'" and "coherent w m'" and "leaves m' act"
  shows "coherent (snd (run_state (do { x \<leftarrow> act; response_drop C r; State_Monad.return (f x) }) w)) m"
  using owns_release [OF assms(1) leavesD [OF assms(3,2)]]
  by (simp add: response_drop_def case_prod_beta)

lemma request_send_outcome:
  assumes "coherent w m" and "usable m (KClient, rb_client rb)" and "messages_fresh C m"
    and "run_state (request_send C rb) w = (r, w')"
  shows "case r of Inl e \<Rightarrow> coherent w' m | Inr p \<Rightarrow> \<exists>m'. owns_handle KMessage (rp_msg p) m m' \<and> coherent w' m'"
proof (cases "CHR 0x00 \<notin> set (rb_path rb) \<and> request_clean (rb_headers rb)")
  case True
  let ?f = "c_client_send C (rb_client rb) (method_code (rb_method rb)) (rb_path rb)
    (map Some (rb_headers rb) @ [None]) (slice_parts (rb_body rb))"
  let ?w = "w\<lparr>history := history w @ [Use KClient (rb_client rb)]\<rparr>"
  have "coherent ?w m" using assms(1,2) by (simp add: coherent_def)
  moreover have "fresh_ptr KMessage ?f (lib ?w) m" using assms(3) unfolding messages_fresh_def by blast
  moreover have "run_state (opened KMessage ?f Response) ?w = (r, w')"
    using assms(4) True by (simp add: request_send_def run_request_with_c owned_response_def)
  ultimately show ?thesis by (rule response_handle.opened_outcome)
qed (use assms(1,4) in \<open>auto simp: request_send_def run_request_with_c\<close>)

lemma relay_leaves:
  assumes "owns_handle KMessage (rp_msg r) m m'" and "usable m (KServer, sv_raw sv)" and "coherent w m'"
  shows "coherent (snd (run_state (relay_and_drop A C sv cs r) w)) m"
proof -
  have "usable m' (KServer, sv_raw sv)"
    using assms(1,2) usable_insert by (auto simp: owns_handle_def)
  then have "leaves m' (deferred_relay A (server_respond sv (fst cs) (snd cs)) (response_as_raw r))"
    using owns_usable [OF assms(1)]
    by (auto simp: deferred_relay_def server_respond_def response_as_raw_def intro!: preserves_leaves keep_rules)
  from message_dropped [OF assms(1,3) this] show ?thesis
    by (simp add: relay_and_drop_def)
qed

lemma cache_lookup_outcome:
  assumes "coherent w m" and "usable m (KCache, ca_raw ca)" and "messages_fresh C m"
    and "run_state (cache_get_signed C ca mt path key now) w = (hit, w')"
  shows "case hit of
      Some (Some r) \<Rightarrow> \<exists>m'. owns_handle KMessage (rp_msg r) m m' \<and> coherent w' m'
    | _ \<Rightarrow> coherent w' m"
proof (cases "cstring_new path")
  case None
  then show ?thesis using assms(1,4) by (auto simp: cache_get_signed_def)
next
  case path: (Some cpath)
  show ?thesis
  proof (cases "method_cstr C mt")
    case None
    then show ?thesis using assms(1,4) path by (auto simp: cache_get_signed_def)
  next
    case (Some tok)
    obtain rc p c where g: "c_cache_get_signed C (ca_raw ca) tok cpath key now (lib w) = ((rc, p), c)"
      by (metis prod.collapse)
    have "fresh_ptr KMessage (c_cache_get_signed C (ca_raw ca) tok cpath key now) (lib w) m"
      using assms(3) by (simp add: messages_fresh_def)
    then have o: "rc = 0 \<Longrightarrow> owns_handle KMessage p m (m\<lparr>live := insert (KMessage, p) (live m)\<rparr>)"
      using g by (simp add: fresh_ptr_def owns_handle_def)
    show ?thesis
    proof (cases "rc = 0 \<and> p \<noteq> null_ptr")
      case True
      then have h: "hit = Some (Some (Response p))"
        "w' = w\<lparr>lib := c, history := history w @ [Use KCache (ca_raw ca), Acquire KMessage p]\<rparr>"
        using assms(4) path Some g by (auto simp: cache_get_signed_def response_from_raw_def)
      then have "coherent w' (m\<lparr>live := insert (KMessage, p) (live m)\<rparr>)"
        using assms(1,2) by (simp add: coherent_def)
      then show ?thesis using o True h by auto
    next
      case False
      then have "hit = Some None" "w' = w\<lparr>lib := c, history := history w @ [Use KCache (ca_raw ca)]\<rparr>"
        using assms(4) path Some g by (auto simp: cache_get_signed_def split: if_splits)
      then show ?thesis using assms(1,2) by (simp add: coherent_def)
    qed
  qed
qed

lemma put_and_relay_leaves:
  assumes "usable m (KServer, sv_raw sv)" and "usable m (KCache, ca_raw ca)"
    and "owns_handle KMessage (rp_msg p) m m'" and "coherent w m'"
  shows "coherent (snd (run_state (do {
      stored \<leftarrow> cache_put_signed C ca Read ''/doc'' p key now;
      (case stored of
         None \<Rightarrow> do { response_drop C p; State_Monad.return None }
       | Some _ \<Rightarrow> relay_and_drop A C sv cs p) }) w)) m"
proof -
  obtain st v where t: "run_state (cache_put_signed C ca Read ''/doc'' p key now) w = (st, v)"
    by (metis prod.collapse)
  have "usable m' (KCache, ca_raw ca)" using assms(2,3) usable_insert by (auto simp: owns_handle_def)
  then have "preserves m' (cache_put_signed C ca Read ''/doc'' p key now)"
    using owns_usable [OF assms(3)] by (auto simp: cache_put_signed_def response_as_raw_def intro!: keep_rules)
  then have "coherent v m'" using assms(4) t preservesD by fastforce
  then show ?thesis
    using t relay_leaves [OF assms(3,1)] owns_release [OF assms(3)]
    by (cases st) (simp_all add: response_drop_def case_prod_beta)
qed

lemma proxy_one_leaves:
  assumes "usable m (KServer, sv_raw sv)" "usable m (KClient, cl_raw backend)" "usable m (KCache, ca_raw ca)"
    and "messages_fresh C m"
  shows "leaves m (proxy_one A C sv backend ca key now cs)"
proof (rule leavesI)
  fix w :: "'a world"
  assume coh: "coherent w m"
  obtain hit w1 where h: "run_state (cache_get_signed C ca Read ''/doc'' key (fst now)) w = (hit, w1)"
    by (metis prod.collapse)
  note looked = cache_lookup_outcome [OF coh assms(3,4) h]
  consider "hit = None" | r where "hit = Some (Some r)" | "hit = Some None" by (metis option.exhaust)
  then show "coherent (snd (run_state (proxy_one A C sv backend ca key now cs) w)) m"
  proof cases
    case 1
    then show ?thesis using looked h by (simp add: proxy_one_def)
  next
    case 2
    then show ?thesis using looked h relay_leaves [OF _ assms(1), where cs = cs] by (auto simp: proxy_one_def)
  next
    case 3
    then have w1: "coherent w1 m" using looked by simp
    obtain r w2 where s: "run_state (client_send C backend Read ''/doc'' []) w1 = (r, w2)" by (metis prod.collapse)
    have "case r of Inl e \<Rightarrow> coherent w2 m | Inr p \<Rightarrow> \<exists>m'. owns_handle KMessage (rp_msg p) m m' \<and> coherent w2 m'"
      using request_send_outcome [OF w1 _ assms(4) s [unfolded client_send_def]] assms(2)
      by (simp add: client_request_def request_set_body_def)
    then show ?thesis
      using h s 3 put_and_relay_leaves [OF assms(1,3), where cs = cs]
      by (cases r) (auto simp: proxy_one_def)
  qed
qed

lemma server_tick_leaves: "server_owns sv m0 m \<Longrightarrow> leaves m (server_tick A sv now)"
  by (rule preserves_leaves) (rule server_tick_preserves)

lemma proxy_turn_leaves:
  assumes "server_owns sv m0 m" and "usable m (KClient, cl_raw backend)" "usable m (KCache, ca_raw ca)"
    and "messages_fresh C m"
  shows "leaves m (proxy_turn A C sv backend ca key parked now clock)"
proof -
  have "leaves m (proxy_all A C sv backend ca key clk ps)" for clk ps
    by (induction ps arbitrary: clk)
      (auto intro!: leave_rules proxy_one_leaves [OF server_owns_live [OF assms(1)] assms(2-4)])
  then show ?thesis
    unfolding proxy_turn_def
    by (intro leave_rules server_tick_leaves [OF assms(1)])
qed

lemma kv_turn_leaves:
  assumes "server_owns sv m0 m"
  shows "leaves m (kv_turn A sv env now)"
proof -
  have "leaves m (discard (server_notify A sv conn ''kv.changed'' []))" for conn
    using server_owns_live [OF assms] by (auto simp: server_notify_def intro!: preserves_leaves keep_rules)
  then have "leaves m (run_all (map (\<lambda>conn. discard (server_notify A sv conn ''kv.changed'' [])) ns))" for ns
    by (induction ns) (auto intro!: leave_rules)
  then have "leaves m (kv_push A sv env)" unfolding kv_push_def by (intro leave_rules)
  then show ?thesis
    unfolding kv_turn_def by (intro leave_rules server_tick_leaves [OF assms])
qed

lemma tick_turn_leaves:
  assumes "server_owns sv m0 m"
  shows "leaves m (tick_turn A sv now)"
  unfolding tick_turn_def by (intro leave_rules server_tick_leaves [OF assms])

lemma feed_stream_leaves:
  assumes "usable m (KServer, sv_raw sv)" and "coherent w m"
  shows "coherent (snd (feed_stream A sv conn stream body sent w)) m"
  using assms
proof (induction A sv conn stream body sent w rule: feed_stream.induct)
  case (1 A sv conn stream body sent w)
  obtain r v where r: "run_state (server_stream_send A sv conn stream (drop sent body)) w = (r, v)"
    by (metis prod.collapse)
  obtain r' v' where r': "run_state (server_stream_end A sv conn stream) w = (r', v')"
    by (metis prod.collapse)
  have "preserves m (server_stream_send A sv conn stream (drop sent body))"
    "preserves m (server_stream_end A sv conn stream)"
    using 1(2) by (auto simp: server_stream_send_def server_stream_end_def intro!: keep_rules)
  then have k: "coherent v m" "coherent v' m"
    using preservesD [OF _ 1(3)] r r' by (metis snd_conv)+
  show ?case
    using 1(1) [OF _ r [symmetric]] 1(2) k
    by (subst feed_stream.simps) (auto simp: r r' split: sum.split)
qed

lemma stream_loop_leaves:
  assumes "server_owns sv m0 m"
  shows "leaves m (stream_loop A sv pending body nows active)"
proof -
  have s: "leaves m (State (feed_stream A sv conn stream body sent))" for conn stream sent
    by (rule leavesI) (simp add: feed_stream_leaves [OF server_owns_live [OF assms]])
  have f: "leaves m (feed_active A sv body fs)" for fs
    by (induction fs) (auto intro!: leave_rules s)
  show ?thesis
    by (induction nows arbitrary: active)
      (auto simp: feed_turn_def intro!: leave_rules server_tick_leaves [OF assms] f)
qed

lemma leaves_try [leave_rules]: "leaves m act \<Longrightarrow> (\<And>x. leaves m (f x)) \<Longrightarrow> leaves m (try_ok act f)"
  by (auto simp: leaves_def split: prod.split sum.split)

lemma leaves_results [leave_rules]: "leaves m (ret_ok x)" "leaves m (ret_err e)" "leaves m (lift_res r)"
  by (simp_all add: leaves_def)

lemma response_scope:
  assumes "usable m (KClient, rb_client rb)" and "messages_fresh C m"
    and "\<And>r m'. usable m' (KMessage, rp_msg r) \<Longrightarrow> leaves m' (body r)"
  shows "leaves m (hold failed (request_send C rb) (response_drop C) body)"
proof (rule leavesI)
  fix w :: "'a world"
  assume coh: "coherent w m"
  obtain r w1 where r: "run_state (request_send C rb) w = (r, w1)" by (metis prod.collapse)
  note o = request_send_outcome [OF coh assms(1,2) r]
  show "coherent (snd (run_state (hold failed (request_send C rb) (response_drop C) body) w)) m"
  proof (cases r)
    case (Inl e)
    then show ?thesis using o r by (simp add: hold_def)
  next
    case (Inr p)
    then obtain m' where m': "owns_handle KMessage (rp_msg p) m m'" "coherent w1 m'" using o by auto
    from owns_release [OF m'(1) leavesD [OF assms(3) [OF owns_usable [OF m'(1)]] m'(2)]]
    show ?thesis using r Inr by (simp add: hold_def response_drop_def case_prod_beta)
  qed
qed

lemma read_leaves:
  assumes "usable m (KMessage, rp_msg r)"
  shows "leaves m (response_status C r)" and "leaves m (response_body C r)"
  using assms by (auto simp: response_status_def response_body_def intro!: preserves_leaves keep_rules)

lemma ask_times_leaves:
  assumes "usable m (KClient, cl_raw cl)" and "messages_fresh C m"
  shows "leaves m (ask_times C cl n)"
proof (induction n)
  case 0
  then show ?case by (simp add: leaves_results)
next
  case (Suc n)
  have "usable m (KClient, rb_client (request_set_body (client_request cl Read ''/doc'') []))"
    using assms(1) by (simp add: client_request_def request_set_body_def)
  then show ?case
    unfolding ask_times.simps client_send_def
    by (intro leave_rules response_scope assms(2) Suc.IH read_leaves)
qed

lemma pump_until_leaves:
  assumes "frame_owns sv (Some d) m0 m"
  shows "leaves m (pump_until A D chk sv d announce rns seen)"
proof -
  note f = frame_keeps [OF assms]
  have a: "leaves m (announce_step D chk d announce secs s)" for secs s
    using f(3) [OF refl]
    by (auto simp: announce_step_def dht_announce_def intro!: preserves_leaves keep_rules split: bool.split)
  have t: "leaves m (dht_tick D d secs)" for secs
    using f(3) [OF refl] by (auto simp: dht_tick_def intro!: preserves_leaves keep_rules)
  have "leaves m (pump A D chk sv d announce rs s)" for rs s
    by (induction rs arbitrary: s) (auto intro!: leave_rules a t preserves_leaves [OF f(1)])
  then show ?thesis unfolding pump_until_def by (intro leave_rules)
qed

lemma download_leaves:
  assumes "usable m (KClient, cl_raw cl)" and "messages_fresh C m"
  shows "leaves m (download C cl fuel n got)"
proof (induction fuel arbitrary: n got)
  case 0
  then show ?case by (simp add: leaves_return)
next
  case (Suc fuel)
  show ?case
  proof (rule leavesI)
    fix w :: "'a world"
    assume coh: "coherent w m"
    let ?rb = "request_add_header (client_request cl Read ''/blob'') ''range'' (window_text n)"
    obtain r w1 where r: "run_state (request_send C ?rb) w = (r, w1)" by (metis prod.collapse)
    have u: "usable m (KClient, rb_client ?rb)"
      using assms(1) by (simp add: request_add_header_def client_request_def)
    note o = request_send_outcome [OF coh u assms(2) r]
    show "coherent (snd (run_state (download C cl (Suc fuel) n got) w)) m"
    proof (cases r)
      case (Inl e)
      then show ?thesis using o r by simp
    next
      case (Inr p)
      then obtain m' where m': "owns_handle KMessage (rp_msg p) m m'" "coherent w1 m'" using o by auto
      obtain st w2 where st: "run_state (response_status C p) w1 = (st, w2)" by (metis prod.collapse)
      obtain bs w3 where bs: "run_state (response_body C p) w2 = (bs, w3)" by (metis prod.collapse)
      have "preserves m' (response_status C p)" "preserves m' (response_body C p)"
        using owns_usable [OF m'(1)] by (auto simp: response_status_def response_body_def intro!: keep_rules)
      then have w: "coherent w2 m'" "coherent w3 m'" using m'(2) st bs preservesD by (metis snd_conv)+
      have d: "coherent (snd (run_state (response_drop C p) v)) m" if "coherent v m'" for v
        using owns_release [OF m'(1) that] by (simp add: response_drop_def)
      show ?thesis
        using r Inr st bs d [OF w(1)] d [OF w(2)] leavesD [OF Suc.IH d [OF w(2)]]
        by (simp add: response_into_body_def case_prod_beta)
    qed
  qed
qed


subsection \<open>Whole nodes\<close>

lemmas turn_rules = leave_rules info_leaves [OF server_owns_live] tick_turn_leaves kv_turn_leaves stream_loop_leaves

lemma serving_threads_leave:
  assumes "servers_fresh A m"
  shows "leaves m (kv_thread I A N env gone nows)" and "leaves m (page_thread I A N gone nows)"
    and "leaves m (origin_thread I A N hits ident gone nows)"
    and "leaves m (curl_thread I A N pending big gone nows)"
    and "leaves m (stream_node I A N pending big ident gone nows)"
  unfolding kv_thread_def page_thread_def origin_thread_def curl_thread_def stream_node_def
  by (intro leave_rules example_scope [OF assms] kv.polite_handler page.polite_handler origin.polite_handler
      curl.polite_handler big.polite_handler; rule turn_rules; assumption?; intro turn_rules; assumption)+


lemma frontend_leaves:
  assumes "servers_fresh A m" and "clients_fresh C m" and "caches_fresh C m" and "messages_fresh C m"
  shows "leaves m (frontend_thread I A C N parked key n p gone turns)"
  unfolding frontend_thread_def
proof (intro leave_rules client_scope(1) [OF assms(2)] cache_scope)
  fix backend :: "'a client" and m1
  assume "lone_client backend m m1"
  then have b: "owns_handle KClient (cl_raw backend) m m1" by (simp add: lone_client_def)
  show "caches_fresh C m1" by (rule freshness_same(4) [OF assms(3) owned_same(3) [OF b]]) simp
  fix ca m2
  assume ca: "owns_handle KCache (ca_raw ca) m1 m2"
  have s: "servers_fresh A m2" and f: "messages_fresh C m2"
    by (rule freshness_same(1) [OF freshness_same(1) [OF assms(1) owned_same(3) [OF b]] owned_same(3) [OF ca]]
        freshness_same(2) [OF freshness_same(2) [OF assms(4) owned_same(3) [OF b]] owned_same(3) [OF ca]]; simp)+
  have u: "usable m2 (KClient, cl_raw backend)" "usable m2 (KCache, ca_raw ca)"
    using owns_usable [OF ca] usable_insert [OF owns_usable [OF b]] ca by (auto simp: owns_handle_def)
  show "leaves m2 (hold panics (server_build I A (example_builder N ident (park_handler parked))) (server_drop A) (\<lambda>sv.
      tell (server_info A sv) gone
        (run_turns (\<lambda>(now, clock). proxy_turn A C sv backend ca key parked now clock) turns)))" for ident
  proof (rule example_scope [OF s parking.polite_handler])
    fix sv :: "'a server" and m3
    assume sv: "server_owns sv m2 m3"
    have "messages_fresh C m3" by (rule freshness_same(2) [OF f owned_same(1) [OF sv]]) simp
    moreover have "usable m3 (KClient, cl_raw backend)" "usable m3 (KCache, ca_raw ca)"
      using u sv by (auto simp: server_owns_def usable_def split: option.splits)
    ultimately show "leaves m3 (tell (server_info A sv) gone
        (run_turns (\<lambda>(now, clock). proxy_turn A C sv backend ca key parked now clock) turns))"
      by (intro leave_rules info_leaves [OF server_owns_live [OF sv]] proxy_turn_leaves [OF sv])
  qed
qed

lemma dht_nodes_leave:
  assumes "servers_fresh A m" and "dht_fresh D m"
  shows "leaves m (rendezvous_thread I A D N chk ident now gone rns seen)"
    and "leaves m (sender_thread I A D N chk ident contact now gone rns seen)"
  unfolding rendezvous_thread_def sender_thread_def
  by (rule server_scope [OF assms(1)];
      (simp add: builder_on_request_def builder_bind_def builder_identity_def server_builder_def)?;
      (simp add: blob.polite_handler)?;
      intro leave_rules info_leaves [OF server_owns_live] dht_scope [OF assms(2)] pump_until_leaves
        preserves_leaves [OF preserves_ret_ok]; assumption)+

lemma getter_leaves:
  assumes "servers_fresh A m" and "dht_fresh D m" and "clients_fresh C m" and "messages_fresh C m"
  shows "leaves m (getter_main I A C D N contact sender now fuel)"
  unfolding getter_main_def
proof (intro leave_rules server_scope [OF assms(1)] dht_scope [OF assms(2)])
  show "sb_handler (builder_bind (lo N 3 0) (builder_identity ident server_builder)) = Some f \<Longrightarrow> polite f" for ident f
    by (simp add: builder_bind_def builder_identity_def server_builder_def)
  fix sv :: "'a server" and m'
  assume sv: "server_owns sv m m'"
  show "server_owns sv m m'" by (rule sv)
  fix d m'' ident
  assume d: "dht_owns (sv_raw sv) d m' m''"
  have f: "clients_fresh C m''" "messages_fresh C m''"
    by (rule freshness_same(3) [OF freshness_same(3) [OF assms(3) owned_same(1) [OF sv]] owned_same(2) [OF d]]
        freshness_same(2) [OF freshness_same(2) [OF assms(4) owned_same(1) [OF sv]] owned_same(2) [OF d]]; simp)+
  show "leaves m'' (hold returns (client_connect_by_node_id I C (client_builder_identity ident client_builder) sender
      (dht_as_ptr d) 8000) (client_drop C) (\<lambda>cl. download C cl fuel 0 []))"
  proof (rule client_scope(2) [OF f(1)])
    show "usable m'' (KDht, dht_as_ptr d)" using dht_owns_usable [OF d] by (simp add: dht_as_ptr_def)
    fix cl :: "'a client" and m3
    assume "lone_client cl m'' m3"
    then have cl: "owns_handle KClient (cl_raw cl) m'' m3" by (simp add: lone_client_def)
    show "leaves m3 (download C cl fuel 0 [])"
      by (rule download_leaves [OF owns_usable [OF cl] freshness_same(2) [OF f(2) owned_same(3) [OF cl]]]) simp
  qed
qed

lemma clients_leave:
  assumes "clients_fresh C m" and "messages_fresh C m"
  shows "leaves m (proxy_client I C N node port)" and "leaves m (submit_main I L C N secs node port)"
proof -
  have u: "usable m' (KClient, cl_raw cl)" and f: "messages_fresh C m'" if "lone_client cl m m'" for cl :: "'a client" and m'
    using that owns_usable freshness_same(2) [OF assms(2) owned_same(3)] by (auto simp: lone_client_def)
  show "leaves m (proxy_client I C N node port)"
    unfolding proxy_client_def by (intro leave_rules client_scope(1) [OF assms(1)] ask_times_leaves u f)
  have k: "leaves m (key_binding I L ident cm ts)" for ident cm ts
    by (rule leavesI) (erule coherent_same; simp add: key_binding_def run_with_raw_keys Let_def produce_def)
  have d: "leaves m (identity_drop I ident)" for ident
    by (rule leavesI) (simp add: identity_drop_def)
  have b: "usable m' (KClient, rb_client (request_set_body (client_request cl Write p) e))" if "lone_client cl m m'"
    for cl :: "'a client" and m' p e
    using u [OF that] by (simp add: client_request_def request_set_body_def)
  show "leaves m (submit_main I L C N secs node port)"
    unfolding submit_main_def checked_binding_def hold_def [where dispose = "identity_drop I"]
    by (intro leave_rules k d client_scope(1) [OF assms(1)] response_scope read_leaves; (assumption | rule b f; assumption))
qed

lemma hello_outcome:
  assumes "servers_fresh A m" and "coherent w m" and "run_state (hello_main I A N nows) w = (r, w')"
  shows "if r = None then judged w' \<noteq> None else coherent w' m"
proof -
  obtain g w1 where g: "run_state (identity_generate I) w = (g, w1)" by (metis prod.collapse)
  have w1: "coherent w1 m" using leavesD [OF leaves_generate assms(2), of I] g by simp
  show ?thesis
  proof (cases g)
    case (Inl e)
    then show ?thesis using assms(3) g w1 by (auto simp: hello_main_def generated_def)
  next
    case (Inr ident)
    let ?sb = "example_builder N ident (hello_handler A)"
    obtain b w2 where b: "run_state (server_build I A ?sb) w1 = (b, w2)" by (metis prod.collapse)
    have "server_pre A ?sb (lib w1) m"
      by (rule builder_pre [OF assms(1)])
        (auto simp: example_builder_def builder_on_request_def hello_handler_def fixed.polite_handler)
    note o = server_build_outcome [OF w1 this b]
    show ?thesis
    proof (cases b)
      case (Inl e)
      then show ?thesis using o assms(3) g \<open>g = Inr ident\<close> b by (auto simp: hello_main_def generated_def)
    next
      case (Inr sv)
      then obtain m' where sv: "server_owns sv m m'" "coherent w2 m'" using o by auto
      obtain p w3 where p: "run_state (server_local_port A sv) w2 = (p, w3)" by (metis prod.collapse)
      obtain n w4 where n: "run_state (server_node_id A sv) w3 = (n, w4)" by (metis prod.collapse)
      obtain e w5 where e: "run_state (hello_loop A sv nows) w4 = (e, w5)" by (metis prod.collapse)
      have w4: "coherent w4 m'"
        using leavesD [OF info_leaves(4) leavesD [OF info_leaves(3) sv(2)], of sv sv A A] p n
          server_owns_live [OF sv(1)] by simp
      have "leaves m' (hello_loop A sv nows)"
        by (induction nows) (auto intro!: leave_rules server_tick_leaves [OF sv(1)])
      then have "coherent w5 m'" using leavesD [OF _ w4] e by fastforce
      then show ?thesis
        using assms(3) g \<open>g = Inr ident\<close> b Inr p n e w4 server_drop_outcome [OF sv(1)]
        by (auto simp: hello_main_def generated_def coherent_def case_prod_beta split: sum.splits if_splits)
    qed
  qed
qed


section \<open>The log node's shutdown\<close>

lemma log_server_new_fields:
  assumes "run_state (log_server_new I L ident l) w = (Inr ls, w')"
  shows "ls_log ls = l \<and> ls_hook ls = None"
  using assms
  by (auto simp: log_server_new_def case_prod_beta split: if_splits)

lemma hooked_drop_history:
  assumes "ls_hook ls = Some b"
  shows "history (snd (run_state (log_server_drop L ls) w)) = history w @
    [Release KLogServer (ls_raw ls), Use KLogServer (ls_raw ls), Unregister KLogServer (ls_raw ls), BoxDrop (ab_id b),
     Release KLog (log_raw (ls_log ls))]"
  using assms by (simp add: log_server_drop_def log_server_clear_hook_def log_drop_def)

lemma use_after_release: "mon_run (es @ Release k p # Use k p # rest) m = None"
  by (simp add: mon_run_append usable_def split: option.split)


section \<open>Properties\<close>

text \<open>
  C31. \<^verbatim>\<open>nwlog\<close> uses its log server after freeing it, in every run that gets as far as having one: its thread
  registers a hook, so whatever happens then (a failed build, a panic, a clean stop), its last acts are to
  free the log server, to pass the freed pointer to the library to clear the hook, to free the hook, and to
  free the log.
\<close>

theorem nwlog_uses_freed_server:
  assumes "run_state (identity_generate I) w = (Inr ident, w1)" and "run_state (log_new L) w1 = (Inr l, w2)"
    and "run_state (log_server_new I L ident l) w2 = (Inr ls, w3)"
    and "run_state (nwlog_thread I L A N hook clock gone nows) w = (r, w')"
  shows "(\<exists>h b. history w' = h @ [Release KLogServer (ls_raw ls), Use KLogServer (ls_raw ls), Unregister KLogServer (ls_raw ls),
      BoxDrop b, Release KLog (log_raw l)]) \<and> judged w' = None"
proof -
  obtain ls' w4 where h: "run_state (log_server_on_append L ls hook) w3 = (ls', w4)" by (metis prod.collapse)
  obtain b where ls': "ls_raw ls' = ls_raw ls" "ls_log ls' = l" "ls_hook ls' = Some b"
    using h log_server_new_fields [OF assms(3)] by (auto simp: log_server_on_append_def log_server_clear_hook_def)
  define act where "act = hold panics (server_build I A (example_builder N ident (nwlog_handler L A ls' clock)))
      (server_drop A) (\<lambda>sv. tell (server_info A sv) gone (run_turns (tick_turn A sv) nows))"
  obtain x v where v: "run_state act w4 = (x, v)" by (metis prod.collapse)
  have "run_state (nwlog_thread I L A N hook clock gone nows) w = run_state (do {
      r \<leftarrow> act; log_server_drop L ls'; State_Monad.return r }) w4"
    unfolding nwlog_thread_def generated_def act_def by (simp add: assms(1-3) h del: run_acquire)
  then have "w' = snd (run_state (log_server_drop L ls') v)"
    using assms(4) v by (simp add: case_prod_beta)
  then have e: "history w' = history v @ [Release KLogServer (ls_raw ls), Use KLogServer (ls_raw ls),
      Unregister KLogServer (ls_raw ls), BoxDrop (ab_id b), Release KLog (log_raw l)]"
    using hooked_drop_history [OF ls'(3), of L v] ls'(1,2) by simp
  then have "judged w' = None" by (simp only: e use_after_release)
  with e show ?thesis by blast
qed

theorem nwlog_uses_freed_server_witness:
  "judged (snd (run_state (nwlog_thread sample_identity_api sample_log_server_api kv_api plain_address_api
     (count_appended True \<lparr>sh_get = (\<lambda>c. c), sh_put = (\<lambda>v c. v)\<rparr>) (\<lambda>c. 0) False [5]) (world_init 0))) = None"
proof -
  let ?w = "world_init (0 :: u64)"
  obtain ident w1 where i: "run_state (identity_generate sample_identity_api) ?w = (Inr ident, w1)"
    by (simp add: run_identity_generate sample_identity_api_def)
  obtain l w2 where l: "run_state (log_new sample_log_server_api) w1 = (Inr l, w2)"
    by (simp add: log_new_def sample_log_server_simps)
  obtain ls w3 where s: "run_state (log_server_new sample_identity_api sample_log_server_api ident l) w2 = (Inr ls, w3)"
    by (simp add: log_server_new_def run_with_keypair Let_def sample_log_server_simps)
  show ?thesis
    using nwlog_uses_freed_server [OF i l s prod.collapse [symmetric], THEN conjunct2] by blast
qed

end
