(* ===== verification/AppTalk.thy ===== *)
theory AppTalk
  imports AppNodes
begin

text \<open>
  The client side of \<^verbatim>\<open>nwkv\<close> against its service: the script of its main thread, the transport between a
  client and a server's callback as a contract, and what the client then reads.
\<close>

section \<open>The key-value client\<close>

text \<open>
  The script of \<^verbatim>\<open>nwkv\<close>'s main thread: each request is sent, its status and body are read, and what follows it
  is done; the responses are locals of \<^verbatim>\<open>main\<close>, which drop at its end in reverse order, and an error returns.
\<close>

type_synonym asked = "request_method \<times> string \<times> bytes"

fun talk ::
  "('c, 'x) client_api_scheme \<Rightarrow> 'c client \<Rightarrow> (asked \<times> ('c, error + unit) io) list \<Rightarrow>
   ('c, error + (status option \<times> bytes) list) io" where
  "talk C cl [] = ret_ok []"
| "talk C cl (((verb, path, body), follow_up) # rest) =
     hold Inl (client_send C cl verb path body) (response_drop C) (\<lambda>r. do {
       st \<leftarrow> response_status C r;
       bs \<leftarrow> response_body C r;
       try_ok follow_up (\<lambda>_. try_ok (talk C cl rest) (\<lambda>seen. ret_ok ((st, bs) # seen)))
     })"

text \<open>Up to a thousand ticks until a notification arrives; its event is printed and it drops with its branch.\<close>

fun await_notify :: "('c, 'x) client_api_scheme \<Rightarrow> 'c client \<Rightarrow> int list \<Rightarrow> ('c, error + unit) io" where
  "await_notify C cl [] = ret_ok ()"
| "await_notify C cl (now # nows) = try_ok (client_tick C cl now) (\<lambda>_. do {
     pushed \<leftarrow> client_poll_notify C cl;
     (case pushed of
        Some n \<Rightarrow> do { _ \<leftarrow> response_header C n '':event''; response_drop C n; ret_ok () }
      | None \<Rightarrow> await_notify C cl nows)
   })"

definition kv_script :: "('c, 'x) client_api_scheme \<Rightarrow> 'c client \<Rightarrow> int list \<Rightarrow> (asked \<times> ('c, error + unit) io) list" where
  "kv_script C cl nows =
     [((Write, ''/greeting'', bytes_of ''hello kv''), await_notify C cl (take 1000 nows)),
      ((Read, ''/greeting'', []), ret_ok ()),
      ((Delete, ''/greeting'', []), ret_ok ()),
      ((Read, ''/greeting'', []), ret_ok ())]"

definition kv_main ::
  "'c identity_api \<Rightarrow> ('c, 'x) client_api_scheme \<Rightarrow> address_api \<Rightarrow> node_id \<Rightarrow> u16 \<Rightarrow> int list \<Rightarrow>
   ('c, error + (status option \<times> bytes) list) io" where
  "kv_main I C N node port nows =
     generated Inl I (\<lambda>ident.
       hold Inl (client_connect I C (client_builder_identity ident client_builder) node (address_loopback N port)) (client_drop C)
         (\<lambda>cl. talk C cl (kv_script C cl nows)))"

text \<open>The method tokens the handler compares with, and what a reply of the service says.\<close>

fun verb_token :: "request_method \<Rightarrow> string" where
  "verb_token Write = ''write''"
| "verb_token Delete = ''delete''"
| "verb_token Read = ''read''"
| "verb_token Update = ''update''"
| "verb_token Heartbeat = ''heartbeat''"
| "verb_token Head = ''head''"

fun says :: "terminal \<Rightarrow> status \<times> bytes" where
  "says (TOk v) = (StOk, v)"
| "says (TStatus s v) = (s, v)"
| "says t = (StNotFound, [])"

definition as_request :: "(asked \<Rightarrow> dispatch) \<Rightarrow> asked \<Rightarrow> kv_request" where
  "as_request via q = (case q of (verb, path, body) \<Rightarrow>
     \<lparr>kr_conn = fst (via q), kr_path = path, kr_method = verb_token verb, kr_body = body\<rparr>)"

text \<open>
  What the two ends of the library do for each other. \<open>builds\<close>: the answer the handler gives is what stands in the
  buffer. \<open>carries\<close>: a request that is sent is decoded into the dispatch \<open>via q\<close>, whose view is the request,
  the server's callback runs on it, and the message handed to the client says what stands in that buffer
  then; the closure's environment is the callback's.
\<close>

definition builds :: "('c, 'x) server_api_scheme \<Rightarrow> (ptr \<Rightarrow> 'c \<Rightarrow> status \<times> bytes) \<Rightarrow> bool" where
  "builds A built \<longleftrightarrow> (\<forall>r t c. t \<in> {TStatus StCreated [], TStatus StNoContent [], TNotFound} \<union> range TOk \<longrightarrow>
     built (rs_buf r) (snd (terminal_call A r t c)) = says t)"

definition carries ::
  "('c, 'y) client_api_scheme \<Rightarrow> 'c client \<Rightarrow> ('c, 'x) server_api_scheme \<Rightarrow> 'c handler_box \<Rightarrow> ptr \<Rightarrow> ('c, kv_env) shared \<Rightarrow>
   (ptr \<Rightarrow> 'c \<Rightarrow> status \<times> bytes) \<Rightarrow> (asked \<Rightarrow> dispatch) \<Rightarrow> asked set \<Rightarrow> bool" where
  "carries C cl A b server env built via qs \<longleftrightarrow> (\<forall>(verb, path, body) \<in> qs. CHR 0x00 \<notin> set path \<and>
     (\<forall>c. kv_view A (request_of server (via (verb, path, body))) c = as_request via (verb, path, body)) \<and>
     (\<forall>c. let c1 = lib (snd (run_state (called_back b server (via (verb, path, body))) (world_init c))) in
        case c_client_send C (cl_raw cl) (method_code verb) path [None] (slice_parts body) c of ((rc, p), c') \<Rightarrow>
          0 \<le> rc \<and> sh_get env c' = sh_get env c1 \<and>
          (case via (verb, path, body) of (conn, stream, msg, buf) \<Rightarrow> case built buf c1 of (s, bs) \<Rightarrow>
             c_message_get_status C p c' = Some (status_doc_token s) \<and> c_message_get_body C p c' = Some bs)))"


lemma kv_built:
  assumes "builds A built" and "\<And>c. kv_view A (request_of server (conn, stream, msg, buf)) c = rq"
  shows "built buf (lib (snd (run_state (called_back \<lparr>hb_id = i, hb_f = kv_handler A env\<rparr> server (conn, stream, msg, buf)) w))) =
    says (fst (kv_step rq (sh_get env (lib w))))"
proof -
  obtain t e where s: "kv_step rq (sh_get env (lib w)) = (t, e)" by (metis prod.collapse)
  define c where "c = (case e of None \<Rightarrow> lib w | Some e' \<Rightarrow> sh_put env e' (lib w))"
  have k: "kv_decide A env (request_of server (conn, stream, msg, buf)) (lib w) = (Some ([], t), c)"
    by (simp add: kv_decide_def assms(2) s c_def)
  have t: "t \<in> {TStatus StCreated [], TStatus StNoContent [], TNotFound} \<union> range TOk"
    using s by (auto simp: kv_step_def split: if_splits option.splits)
  have b: "built (rs_buf r) (snd (terminal_call A r t c)) = says t" for r
    using assms(1) t unfolding builds_def by blast
  show ?thesis
    using kv.answers_as_decided [of A env msg server conn stream w "[]" t c i buf] k
      b [of "frame_responder w server conn stream buf"]
    by (simp add: request_of_def called_back_def run_plain_handler Let_def s frame_responder_def)
qed

fun replies :: "kv_request list \<Rightarrow> kv_request list \<Rightarrow> (status option \<times> bytes) list" where
  "replies earlier [] = []"
| "replies earlier (rq # rqs) =
     (case says (kv_reply rq (last_value (kr_path rq) earlier)) of (s, v) \<Rightarrow> (Some s, v)) # replies (earlier @ [rq]) rqs"

lemma kv_step_reply:
  "fst (kv_step rq (fold kv_after earlier kv_empty)) = kv_reply rq (last_value (kr_path rq) earlier)"
  using kv_history [of earlier "kr_path rq"] by (auto simp: kv_step_def kv_reply_def split: option.split)


text \<open>One request: its reply is read, and the environment is the one after it.\<close>

lemma asked_once:
  fixes A :: "('c, 'x) server_api_scheme" and w :: "'c world"
  assumes "closure_env A env" and "builds A built"
    and "carries C cl A \<lparr>hb_id = i, hb_f = kv_handler A env\<rparr> server env built via qs"
    and "(verb, path, body) \<in> qs" and "sh_get env (lib w) = fold kv_after earlier kv_empty"
  defines "rq \<equiv> as_request via (verb, path, body)"
  shows "\<exists>r w'. run_state (client_send C cl verb path body) w = (Inr r, w') \<and>
    sh_get env (lib w') = fold kv_after (earlier @ [rq]) kv_empty \<and>
    (case says (kv_reply rq (last_value path earlier)) of (s, v) \<Rightarrow>
       (\<forall>u. lib u = lib w' \<longrightarrow> fst (run_state (response_status C r) u) = Some s \<and>
          fst (run_state (response_body C r) u) = v))"
proof -
  let ?q = "(verb, path, body)" and ?b = "\<lparr>hb_id = i, hb_f = kv_handler A env\<rparr>"
  let ?c1 = "lib (snd (run_state (called_back ?b server (via ?q)) (world_init (lib w))))"
  obtain conn stream msg buf where d: "via ?q = (conn, stream, msg, buf)" by (metis prod.collapse)
  note car = bspec [OF assms(3) [unfolded carries_def] assms(4), unfolded prod.case]
  have v: "kv_view A (request_of server (via ?q)) c = rq" for c using car by (simp add: rq_def)
  obtain s bs where sb: "says (kv_reply rq (last_value path earlier)) = (s, bs)" by (metis prod.collapse)
  have p: "kr_path rq = path" by (simp add: rq_def as_request_def)
  have env: "sh_get env ?c1 = kv_after rq (fold kv_after earlier kv_empty)"
    using kv_called_back [OF assms(1) v, of i "world_init (lib w)"] assms(5) by (simp add: world_init_def)
  have "built buf ?c1 = (s, bs)"
    using kv_built [OF assms(2) v [unfolded d], of i env "world_init (lib w)"] assms(5)
    by (simp add: world_init_def d kv_step_reply p sb)
  moreover obtain rc m c' where snd: "c_client_send C (cl_raw cl) (method_code verb) path [None] (slice_parts body) (lib w) = ((rc, m), c')"
    by (metis prod.collapse)
  ultimately have o: "0 \<le> rc" "sh_get env c' = sh_get env ?c1" "c_message_get_status C m c' = Some (status_doc_token s)"
    "c_message_get_body C m c' = Some bs" "CHR 0x00 \<notin> set path"
    using car [THEN conjunct2, THEN conjunct2, THEN spec, of "lib w"] car by (auto simp: d Let_def)
  then have "run_state (client_send C cl verb path body) w = (Inr (Response m),
      w\<lparr>lib := c', history := history w @ [Use KClient (cl_raw cl), Acquire KMessage m]\<rparr>)"
    using snd by (simp add: client_send_def request_send_def run_request_with_c request_clean_def client_request_def
        request_set_body_def owned_response_def opened_def error_check_def)
  then show ?thesis
    using o env by (simp add: sb response_status_def response_body_def doc_token_utf8 from_doc_token opt_unwrap_or_def)
qed


text \<open>What follows a request neither fails nor touches the closure's environment.\<close>

definition benign :: "('c, kv_env) shared \<Rightarrow> ('c, error + unit) io \<Rightarrow> bool" where
  "benign env f \<longleftrightarrow> (\<forall>w. fst (run_state f w) = Inr () \<and>
     sh_get env (lib (snd (run_state f w))) = sh_get env (lib w))"

lemma talk_replies:
  fixes A :: "('c, 'x) server_api_scheme" and w :: "'c world"
  assumes "closure_env A env" and "builds A built"
    and "carries C cl A \<lparr>hb_id = i, hb_f = kv_handler A env\<rparr> server env built via (fst ` set script)"
    and "\<forall>(q, f) \<in> set script. benign env f" and "sh_get env (lib w) = fold kv_after earlier kv_empty"
  shows "fst (run_state (talk C cl script) w) = Inr (replies earlier (map (as_request via \<circ> fst) script))"
  using assms(3-5)
proof (induction script arbitrary: earlier w)
  case Nil
  then show ?case by simp
next
  case (Cons qf script)
  obtain verb path body f where q: "qf = ((verb, path, body), f)" by (metis prod.collapse)
  let ?rq = "as_request via (verb, path, body)"
  have rest: "carries C cl A \<lparr>hb_id = i, hb_f = kv_handler A env\<rparr> server env built via (fst ` set script)"
    using Cons.prems(1) by (auto simp: carries_def)
  obtain r w1 where s: "run_state (client_send C cl verb path body) w = (Inr r, w1)"
    and e1: "sh_get env (lib w1) = fold kv_after (earlier @ [?rq]) kv_empty"
    and seen: "case says (kv_reply ?rq (last_value path earlier)) of (s, v) \<Rightarrow>
       (\<forall>u. lib u = lib w1 \<longrightarrow> fst (run_state (response_status C r) u) = Some s \<and>
          fst (run_state (response_body C r) u) = v)"
    using asked_once [OF assms(1,2) Cons.prems(1) _ Cons.prems(3), of verb path body] q by auto
  obtain st w2 where st: "run_state (response_status C r) w1 = (st, w2)" by (metis prod.collapse)
  obtain bs w3 where bs: "run_state (response_body C r) w2 = (bs, w3)" by (metis prod.collapse)
  have l: "lib w2 = lib w1" "lib w3 = lib w1"
    using st bs by (auto simp: response_status_def response_body_def)
  obtain u w4 where f: "run_state f w3 = (u, w4)" by (metis prod.collapse)
  have "u = Inr ()" "sh_get env (lib w4) = fold kv_after (earlier @ [?rq]) kv_empty"
    using Cons.prems(2) q f l e1 by (auto simp: benign_def) (metis fst_conv snd_conv)+
  then show ?case
    using Cons.IH [OF rest, of w4 "earlier @ [?rq]"] Cons.prems(2) q s st bs f seen l
    by (auto simp: hold_def case_prod_beta as_request_def)
qed


lemma replies_nth:
  "length (replies earlier rqs) = length rqs \<and>
   (k < length rqs \<longrightarrow> replies earlier rqs ! k =
      (case says (kv_reply (rqs ! k) (last_value (kr_path (rqs ! k)) (earlier @ take k rqs))) of (s, v) \<Rightarrow> (Some s, v)))"
proof (induction rqs arbitrary: earlier k)
  case Nil
  then show ?case by simp
next
  case (Cons rq rqs)
  show ?case
    using Cons.IH [of "earlier @ [rq]"] by (cases k) simp_all
qed

section \<open>Properties\<close>


text \<open>
  Both ends in one state: the environment of the closure and the answer that stands in the buffer. Messages 1,
  2 and 3 are the requests of the script, and sending one runs the server's callback on it.
\<close>

record wire_state =
  wi_env :: kv_env
  wi_built :: "status \<times> bytes"

definition slice_of :: "slice \<Rightarrow> bytes" where
  "slice_of b = opt_unwrap_or (fst b) []"

definition wire_server :: "wire_state server_api" where
  "wire_server = kv_api\<lparr>
     c_message_get_header := (\<lambda>p n c. Some (if n = '':path'' then ''/greeting''
        else if p = 1 then ''write'' else if p = 3 then ''delete'' else ''read'')),
     c_message_get_body := (\<lambda>p c. if p = 1 then Some (bytes_of ''hello kv'') else None),
     c_status_str := (\<lambda>k. if k = 1 then Some ''created'' else if k = 3 then Some ''no-content'' else Some ''not-found''),
     c_response_ok := (\<lambda>p b c. (0, c\<lparr>wi_built := (StOk, slice_of b)\<rparr>)),
     c_response_status := (\<lambda>p t b c. (0, c\<lparr>wi_built := (status_from_token (opt_unwrap_or t []), slice_of b)\<rparr>))\<rparr>"

definition wire_env :: "(wire_state, kv_env) shared" where
  "wire_env = \<lparr>sh_get = wi_env, sh_put = (\<lambda>v c. c\<lparr>wi_env := v\<rparr>)\<rparr>"

definition wire_box :: "wire_state handler_box" where
  "wire_box = \<lparr>hb_id = 0, hb_f = kv_handler wire_server wire_env\<rparr>"

definition wire_client :: "wire_state client_api" where
  "wire_client = cache_api.extend (sample_cache_api\<lparr>
       c_message_get_status := (\<lambda>p c. Some (status_doc_token (fst (wi_built c)))),
       c_message_get_body := (\<lambda>p c. Some (snd (wi_built c)))\<rparr>)
   (client_api.fields
     (\<lambda>kp n a c. ((0, 5), c)) (\<lambda>kp n a c. ((0, 5), c)) (\<lambda>kp n a fd c. ((0, 5), c))
     (\<lambda>kp n a fd c. ((0, 5), c)) (\<lambda>kp n d ms c. ((0, 5), c))
     (\<lambda>p mt path hs c. ((0, 3), c)) (\<lambda>p r path now c. 0) (\<lambda>p c. 1) (\<lambda>p c. 0) (\<lambda>p c. (0, [4]))
     (\<lambda>p m c. (0, m)) (\<lambda>p now c. Finish 0 c) (\<lambda>p c. 6) (\<lambda>p now c. (10, c))
     (\<lambda>p ca c. (0, c)) (\<lambda>p b c. ((), c)) (\<lambda>p c. (8, c))
     (\<lambda>p mt path hs b c. ((0, 9), lib (snd (run_state
        (called_back wire_box 7 (5, 1, if mt = 1 then 1 else if mt = 3 then 3 else 2, 4)) (world_init c)))))
     (\<lambda>p mt path hs b c. ((0, of_nat (length hs)), c))
     (\<lambda>p i c. ((- 803, 9), c)) (\<lambda>p i c. ((), c))
     (\<lambda>p i c. ((0, 9), c)) (\<lambda>p i n c. ((0, [], 0, 1), c)) (\<lambda>p i k c. (0, c)) (\<lambda>p i c. ((), c))
     (\<lambda>p c. (1, c)) (\<lambda>p c. c))"


lemmas wire_simps = wire_server_def wire_client_def sample_cache_api_def kv_api_simps response_api.defs cache_api.defs client_api.defs

lemma wire_closure_env: "closure_env wire_server wire_env"
  by (auto simp: closure_env_def wire_env_def terminal_call_def add_header_def wire_server_def kv_api_simps
      split: option.splits terminal.splits)

lemma wire_builds: "builds wire_server (\<lambda>p. wi_built)"
  using from_doc_token [of StCreated] from_doc_token [of StNoContent] from_doc_token [of StNotFound]
  by (auto simp: builds_def terminal_call_def wire_server_def kv_api_simps slice_of_def slice_parts_def
      opt_unwrap_or_def)

definition wire_via :: "asked \<Rightarrow> dispatch" where
  "wire_via q = (5, 1, if fst q = Write then 1 else if fst q = Delete then 3 else 2, 4)"

abbreviation kv_asked :: "asked list" where
  "kv_asked \<equiv> [(Write, ''/greeting'', bytes_of ''hello kv''), (Read, ''/greeting'', []), (Delete, ''/greeting'', []),
     (Read, ''/greeting'', [])]"

lemma wire_carries:
  "carries wire_client cl wire_server \<lparr>hb_id = 0, hb_f = kv_handler wire_server wire_env\<rparr> 7 wire_env (\<lambda>p. wi_built) wire_via
     (set kv_asked)"
proof -
  have s: "to_str ''/greeting'' = Some ''/greeting''" "to_str ''write'' = Some ''write''" "to_str ''read'' = Some ''read''"
    "to_str ''delete'' = Some ''delete''"
    by code_simp+
  have v: "kv_view wire_server (request_of 7 (wire_via q)) c = as_request wire_via q" if "q \<in> set kv_asked" for q c
    using that by (auto simp: kv_view_def request_of_def header_of_def body_of_def cstring_new_def wire_server_def
        kv_api_simps opt_unwrap_or_def s wire_via_def as_request_def bytes_of_def)
  have c: "c_client_send wire_client p (method_code verb) path hs b c =
      ((0, 9), lib (snd (run_state (called_back \<lparr>hb_id = 0, hb_f = kv_handler wire_server wire_env\<rparr> 7
        (wire_via (verb, path, body))) (world_init c))))" for p verb path hs b c body
    by (cases verb) (simp_all add: wire_client_def sample_cache_api_def message_api.defs response_api.defs cache_api.defs
        client_api.defs wire_box_def wire_via_def)
  have g: "c_message_get_status wire_client p c = Some (status_doc_token (fst (wi_built c)))"
    "c_message_get_body wire_client p c = Some (snd (wi_built c))" for p c
    by (simp_all add: wire_client_def sample_cache_api_def message_api.defs response_api.defs cache_api.defs
        client_api.defs)
  have n: "CHR 0x00 \<notin> set path" if "(verb, path, body) \<in> set kv_asked" for verb path body
    using that by auto
  show ?thesis
    unfolding carries_def
  proof (intro ballI, clarify, intro conjI allI)
    fix verb path body c
    assume q: "(verb, path, body) \<in> set kv_asked"
    let ?c1 = "lib (snd (run_state (called_back \<lparr>hb_id = 0, hb_f = kv_handler wire_server wire_env\<rparr> 7
      (wire_via (verb, path, body))) (world_init c)))"
    show "CHR 0x00 \<notin> set path" by (rule n [OF q])
    show "kv_view wire_server (request_of 7 (wire_via (verb, path, body))) c = as_request wire_via (verb, path, body)"
      by (rule v [OF q])
    show "let c1 = ?c1 in case c_client_send wire_client (cl_raw cl) (method_code verb) path [None] (slice_parts body) c of
        ((rc, p), c') \<Rightarrow> 0 \<le> rc \<and> sh_get wire_env c' = sh_get wire_env c1 \<and>
          (case wire_via (verb, path, body) of (conn, stream, msg, buf) \<Rightarrow> case wi_built c1 of (s, bs) \<Rightarrow>
             c_message_get_status wire_client p c' = Some (status_doc_token s) \<and>
             c_message_get_body wire_client p c' = Some bs)"
      unfolding c [where body = body] g Let_def by (simp add: case_prod_beta)
  qed
qed

lemma wire_benign: "benign wire_env (ret_ok ())" "benign wire_env (await_notify wire_client cl nows)"
proof -
  show "benign wire_env (ret_ok ())" by (simp add: benign_def)
  have a: "c_client_tick wire_client p now c = Finish 0 c" "c_client_poll_notify wire_client p c = (8, c)"
    "c_message_get_header wire_client p n c = None" "c_message_free wire_client p c = c" for p n now c
    by (simp_all add: wire_client_def sample_cache_api_def message_api.defs response_api.defs cache_api.defs
        client_api.defs)
  show "benign wire_env (await_notify wire_client cl nows)"
    by (cases nows) (simp_all add: benign_def client_tick_def a client_poll_notify_def response_header_def
        response_drop_def error_check_def cstring_new_def)
qed


end
