(* ===== verification/AppMains.thy ===== *)
theory AppMains
  imports AppTalk
begin

text \<open>
  The scripted clients of \<^verbatim>\<open>nwserve\<close>, \<^verbatim>\<open>nwcurl\<close> and \<^verbatim>\<open>nwkv\<close>, which hold several responses at once, and what all the
  example programs leave behind. That two messages held at once are not the same is the library's promise,
  stated over the set of messages it has handed out (\<open>tracks\<close>).
\<close>

section \<open>Scripts\<close>

text \<open>
  \<^verbatim>\<open>nwserve\<close>'s client: the whole page with its etag, a range of it, a range past its end, and a conditional
  read; the four responses are locals of \<^verbatim>\<open>main\<close>.
\<close>

definition page_request :: "'c client \<Rightarrow> string \<Rightarrow> string \<Rightarrow> request_builder" where
  "page_request cl name val = request_add_header (client_request cl Read ''/page'') name val"

definition page_reads ::
  "('c, 'x) client_api_scheme \<Rightarrow> 'c client \<Rightarrow> ('c, error + (string option \<times> (status option \<times> bytes) list)) io" where
  "page_reads C cl =
     hold Inl (client_send C cl Read ''/page'' []) (response_drop C) (\<lambda>full. do {
       etag \<leftarrow> response_header C full ''etag'';
       full_status \<leftarrow> response_status C full;
       full_body \<leftarrow> response_body C full;
       hold Inl (request_send C (page_request cl ''range'' ''bytes=4-8'')) (response_drop C) (\<lambda>part. do {
         part_status \<leftarrow> response_status C part;
         part_body \<leftarrow> response_body C part;
         hold Inl (request_send C (page_request cl ''range'' ''bytes=999-1099'')) (response_drop C) (\<lambda>over. do {
           over_status \<leftarrow> response_status C over;
           hold Inl (request_send C (page_request cl ''if-none-match'' page_etag)) (response_drop C) (\<lambda>fresh. do {
             fresh_status \<leftarrow> response_status C fresh;
             fresh_body \<leftarrow> response_body C fresh;
             ret_ok (etag, [(full_status, full_body), (part_status, part_body), (over_status, []),
               (fresh_status, fresh_body)])
           })
         })
       })
     })"

definition page_main ::
  "'c identity_api \<Rightarrow> ('c, 'x) client_api_scheme \<Rightarrow> address_api \<Rightarrow> node_id \<Rightarrow> u16 \<Rightarrow>
   ('c, error + (string option \<times> (status option \<times> bytes) list)) io" where
  "page_main I C N node port =
     generated Inl I (\<lambda>ident.
       hold Inl (client_connect I C (client_builder_identity ident client_builder) node (address_loopback N port)) (client_drop C)
         (page_reads C))"

text \<open>
  \<^verbatim>\<open>nwcurl\<close>'s client: a unary read with its headers, verified against the peer, then a streamed read counted and
  verified; \<open>None\<close> is running out of the reads of \<open>count_stream\<close>.
\<close>

definition streamed_read ::
  "('c, 'x) client_api_scheme \<Rightarrow> 'c client \<Rightarrow> nat \<Rightarrow> ('c, (error + (status option \<times> string option \<times> nat)) option) io" where
  "streamed_read C cl fuel = do {
     peer \<leftarrow> client_peer_pubkey C cl;
     (case peer of
        Inl e \<Rightarrow> State_Monad.return (Some (Inl e))
      | Inr key \<Rightarrow> hold returns (client_open_stream C cl Read ''/big'') (stream_drop C) (\<lambda>st.
          hold returns (stream_response C st) (response_drop C) (\<lambda>meta. do {
            s \<leftarrow> response_status C meta;
            ctype \<leftarrow> response_header C meta ''content-type'';
            got \<leftarrow> verified_size C st key fuel;
            State_Monad.return (map_option (map_ok (\<lambda>n. (s, ctype, n))) got)
          })))
   }"

definition curl_reads ::
  "('c, 'x) client_api_scheme \<Rightarrow> 'c client \<Rightarrow> nat \<Rightarrow> ('c, (error + (status option \<times> string option \<times> nat)) option) io" where
  "curl_reads C cl fuel =
     hold returns (client_send C cl Read ''/hello'' []) (response_drop C) (\<lambda>resp. do {
       _ \<leftarrow> response_status C resp;
       hs \<leftarrow> response_headers C resp;
       _ \<leftarrow> headers_collect C hs;
       _ \<leftarrow> response_body C resp;
       verdict \<leftarrow> client_verify_response C cl resp ''/hello'' 0;
       (case verdict of
          Inl e \<Rightarrow> State_Monad.return (Some (Inl e))
        | Inr _ \<Rightarrow> streamed_read C cl fuel)
     })"

definition curl_main ::
  "'c identity_api \<Rightarrow> ('c, 'x) client_api_scheme \<Rightarrow> address_api \<Rightarrow> node_id \<Rightarrow> u16 \<Rightarrow> nat \<Rightarrow>
   ('c, (error + (status option \<times> string option \<times> nat)) option) io" where
  "curl_main I C N node port fuel =
     generated returns I (\<lambda>ident.
       hold returns (client_connect I C (client_builder_identity ident client_builder) node (address_loopback N port)) (client_drop C)
         (\<lambda>cl. curl_reads C cl fuel))"

section \<open>Messages that are held\<close>

text \<open>
  What the library promises of the messages it has handed out and not taken back (\<open>held\<close>): a new one is not
  among them, freeing one takes it out, and no other call touches them. A tick of a client without a hook
  runs no code of the crate; \<open>session_end\<close> is where it ends.
\<close>

primrec session_end :: "('c, 'q, unit, 'r) session \<Rightarrow> 'c" where
  "session_end (Finish r c) = c"
| "session_end (Callback q c k) = session_end (k () c)"

definition hands_over :: "('c \<Rightarrow> ptr set) \<Rightarrow> ('c \<Rightarrow> (int \<times> ptr) \<times> 'c) \<Rightarrow> bool" where
  "hands_over held f \<longleftrightarrow> (\<forall>c. case f c of ((rc, p), c') \<Rightarrow>
     if 0 \<le> rc then p \<notin> held c \<and> held c' = insert p (held c) else held c' = held c)"

definition tracks :: "'c identity_api \<Rightarrow> ('c, 'x) client_api_scheme \<Rightarrow> ('c \<Rightarrow> ptr set) \<Rightarrow> bool" where
  "tracks I C held \<longleftrightarrow>
     (\<forall>p mt path hs b. hands_over held (c_client_send C p mt path hs b)) \<and>
     (\<forall>p i. hands_over held (c_client_stream_response C p i)) \<and>
     (\<forall>p c. case c_client_poll_notify C p c of (q, c') \<Rightarrow>
        if q = null_ptr then held c' = held c else q \<notin> held c \<and> held c' = insert q (held c)) \<and>
     (\<forall>p c. held (c_message_free C p c) = held c - {p}) \<and>
     (\<forall>c. held (snd (c_identity_generate I c)) = held c) \<and>
     (\<forall>kp n a c. held (snd (c_client_connect C kp n a c)) = held c) \<and>
     (\<forall>p c. held (c_client_close C p c) = held c) \<and>
     (\<forall>p now c. held (session_end (c_client_tick C p now c)) = held c) \<and>
     (\<forall>p mt path hs c. held (snd (c_client_open_stream C p mt path hs c)) = held c) \<and>
     (\<forall>p i n c. held (snd (c_client_stream_recv C p i n c)) = held c) \<and>
     (\<forall>p i k c. held (snd (c_client_stream_verify C p i k c)) = held c) \<and>
     (\<forall>p i c. held (snd (c_client_stream_close C p i c)) = held c)"

text \<open>The live messages of the crate are held, and a computation that keeps it so and gives back what it takes.\<close>

definition mailed :: "('c \<Rightarrow> ptr set) \<Rightarrow> monitor \<Rightarrow> 'c world \<Rightarrow> bool" where
  "mailed held m w \<longleftrightarrow> coherent w m \<and> (\<forall>p. ((KMessage, p) \<in> live m \<longrightarrow> p \<in> held (lib w)) \<and>
     regs m (KMessage, p) = None \<and> borrows m (KMessage, p) = None)"

definition settles :: "('c \<Rightarrow> ptr set) \<Rightarrow> monitor \<Rightarrow> ('c, 'a) io \<Rightarrow> bool" where
  "settles held m act \<longleftrightarrow> (\<forall>w. mailed held m w \<longrightarrow> mailed held m (snd (run_state act w)))"

lemma settlesD: "settles held m act \<Longrightarrow> mailed held m w \<Longrightarrow> mailed held m (snd (run_state act w))"
  by (simp add: settles_def)

lemma settlesI: "(\<And>w. mailed held m w \<Longrightarrow> mailed held m (snd (run_state act w))) \<Longrightarrow> settles held m act"
  by (simp add: settles_def)

lemma leaves_settles:
  assumes "leaves m act" and "\<And>w. held (lib (snd (run_state act w))) = held (lib w)"
  shows "settles held m act"
  using assms by (simp add: settles_def mailed_def leaves_def)

named_theorems settle_rules

lemma settles_bind [settle_rules]: "settles held m act \<Longrightarrow> (\<And>x. settles held m (f x)) \<Longrightarrow> settles held m (act \<bind> f)"
  by (auto simp: settles_def split: prod.split)

lemma settles_try [settle_rules]: "settles held m act \<Longrightarrow> (\<And>x. settles held m (f x)) \<Longrightarrow> settles held m (try_ok act f)"
  by (auto simp: settles_def split: prod.split sum.split)

lemma settles_return [settle_rules]:
  "settles held m (State_Monad.return x)" "settles held m (ret_ok y)" "settles held m (ret_err e)" "settles held m (lift_res r)"
  by (simp_all add: settles_def)

lemma settles_cases [settle_rules]:
  "(\<And>e. settles held m (f e)) \<Longrightarrow> (\<And>v. settles held m (g v)) \<Longrightarrow> settles held m (case r of Inl e \<Rightarrow> f e | Inr v \<Rightarrow> g v)"
  "settles held m x \<Longrightarrow> (\<And>v. settles held m (h v)) \<Longrightarrow> settles held m (case opt of None \<Rightarrow> x | Some v \<Rightarrow> h v)"
  "(\<And>a b. settles held m (k a b)) \<Longrightarrow> settles held m (case p of (a, b) \<Rightarrow> k a b)"
  "settles held m x \<Longrightarrow> settles held m y \<Longrightarrow> settles held m (if b then x else y)"
  by (simp_all split: sum.split option.split prod.split)

lemma lib_reads [simp]:
  "lib (snd (run_state (response_status C r) w)) = lib w"
  "lib (snd (run_state (response_header C r n) w)) = lib w"
  "lib (snd (run_state (response_body C r) w)) = lib w"
  "lib (snd (run_state (response_headers C r) w)) = lib w"
  "lib (snd (run_state (client_verify_response C cl r p now) w)) = lib w"
  "lib (snd (run_state (client_peer_pubkey C cl) w)) = lib w"
  by (auto simp: response_status_def response_header_def response_body_def response_headers_def headers_new_def
      client_verify_response_def client_peer_pubkey_def split: option.split sum.split prod.split)

lemma lib_collect [simp]: "lib (snd (run_state (headers_collect C h) w)) = lib w"
proof -
  have "lib (snd (run_state (headers_drain fuel C h) w)) = lib w" for fuel h w
    by (induction fuel arbitrary: h w)
      (auto simp: headers_next_def Let_def case_prod_beta split: option.split prod.split)
  then show ?thesis by (simp add: headers_collect_def case_prod_beta del: headers_drain.simps)
qed

lemma reads_settle [settle_rules]:
  assumes "usable m (KMessage, rp_msg r)"
  shows "settles held m (response_status C r)" and "settles held m (response_header C r n)"
    and "settles held m (response_body C r)" and "settles held m (response_headers C r)"
  using assms
  by (auto simp: response_status_def response_header_def response_body_def response_headers_def headers_new_def
      intro!: leaves_settles preserves_leaves keep_rules split: option.split)

lemma collect_settles [settle_rules]: "settles held m (headers_collect C h)"
proof (rule leaves_settles [OF preserves_leaves])
  show "preserves m (headers_collect C h)"
    by (simp add: headers_collect_def keep_rules headers_drain_preserves del: headers_drain.simps)
qed simp

lemma verify_settles [settle_rules]:
  assumes "usable m (KMessage, rp_msg r)" and "usable m (KClient, cl_raw cl)"
  shows "settles held m (client_verify_response C cl r p now)"
proof (rule leaves_settles [OF preserves_leaves])
  show "preserves m (client_verify_response C cl r p now)"
    using assms by (auto simp: client_verify_response_def intro!: keep_rules)
qed simp

text \<open>A message that is handed over is a new one.\<close>

lemma opened_mailed:
  assumes "hands_over held f" and "mailed held m w" and "run_state (opened KMessage f Response) w = (r, w')"
  shows "case r of Inl e \<Rightarrow> mailed held m w' | Inr p \<Rightarrow> \<exists>m'. owns_handle KMessage (rp_msg p) m m' \<and> mailed held m' w'"
proof -
  obtain rc p c where f: "f (lib w) = ((rc, p), c)" by (metis prod.collapse)
  have h: "if 0 \<le> rc then p \<notin> held (lib w) \<and> held c = insert p (held (lib w)) else held c = held (lib w)"
    using assms(1) f by (auto simp: hands_over_def split: prod.splits)
  have l: "lib w' = c" and r: "r = map_ok (\<lambda>_. Response p) (error_check rc)"
    using assms(3) f by (auto simp: opened_def)
  have "fresh_ptr KMessage f (lib w) m" using h f assms(2) by (auto simp: fresh_ptr_def mailed_def)
  then have o: "case r of Inl e \<Rightarrow> coherent w' m | Inr q \<Rightarrow> \<exists>m'. owns_handle KMessage (rp_msg q) m m' \<and> coherent w' m'"
    using response_handle.opened_outcome [OF _ _ assms(3)] assms(2) by (simp add: mailed_def)
  show ?thesis
  proof (cases "rc < 0")
    case True
    then show ?thesis using o r l h assms(2) by (auto simp: error_check_def mailed_def)
  next
    case False
    then obtain m' where m': "owns_handle KMessage p m m'" "coherent w' m'" using o r by (auto simp: error_check_def)
    then have "mailed held m' w'"
      using l h False assms(2) by (auto simp: mailed_def owns_handle_def)
    then show ?thesis using m' r False by (auto simp: error_check_def)
  qed
qed

lemma message_back:
  assumes "\<And>p c. held (c_message_free C p c) = held c - {p}"
    and "owns_handle KMessage (rp_msg r) m m'" and "mailed held m' w"
  shows "mailed held m (snd (run_state (response_drop C r) w))"
proof -
  have "coherent (snd (run_state (response_drop C r) w)) m"
    using owns_release [OF assms(2), of w "c_message_free C (rp_msg r)"] assms(3)
    by (simp add: mailed_def response_drop_def)
  moreover have "lib (snd (run_state (response_drop C r) w)) = c_message_free C (rp_msg r) (lib w)"
    by (simp add: response_drop_def)
  moreover have "regs m (KMessage, p) = None" "borrows m (KMessage, p) = None" for p
    using assms(2,3) by (auto simp: mailed_def owns_handle_def)
  ultimately show ?thesis
    using assms by (auto simp: mailed_def owns_handle_def)
qed

lemma mail_scope:
  assumes "\<And>p c. held (c_message_free C p c) = held c - {p}"
    and "\<And>w. run_state open_h w = run_state (opened KMessage f Response) (w\<lparr>history := history w @ [Use k q]\<rparr>) \<or>
      (\<exists>e. run_state open_h w = (Inl e, w))"
    and "hands_over held f" and "usable m (k, q)"
    and "\<And>r m'. owns_handle KMessage (rp_msg r) m m' \<Longrightarrow> settles held m' (body r)"
  shows "settles held m (hold failed open_h (response_drop C) body)"
proof (rule settlesI)
  fix w
  assume m: "mailed held m w"
  let ?w = "w\<lparr>history := history w @ [Use k q]\<rparr>"
  have m1: "mailed held m ?w" using m assms(4) by (auto simp: mailed_def coherent_def)
  show "mailed held m (snd (run_state (hold failed open_h (response_drop C) body) w))"
  proof (cases "run_state open_h w = run_state (opened KMessage f Response) ?w")
    case True
    obtain r w1 where r: "run_state (opened KMessage f Response) ?w = (r, w1)" by (metis prod.collapse)
    note o = opened_mailed [OF assms(3) m1 r]
    show ?thesis
    proof (cases r)
      case (Inl e)
      then show ?thesis using o True r by (simp add: hold_def)
    next
      case (Inr p)
      then obtain m' where m': "owns_handle KMessage (rp_msg p) m m'" "mailed held m' w1" using o by auto
      show ?thesis
        using message_back [OF assms(1) m'(1) settlesD [OF assms(5) [OF m'(1)] m'(2)]] True r Inr
        by (simp add: hold_def case_prod_beta)
    qed
  next
    case False
    then show ?thesis using assms(2) [of w] m by (auto simp: hold_def)
  qed
qed



text \<open>A handle of another kind keeps the messages as they are, so its scope only has to keep \<open>held\<close>.\<close>

lemma mailed_same:
  assumes "same_of KMessage m m'" and "mailed held m w" and "coherent w' m'" and "held (lib w') = held (lib w)"
  shows "mailed held m' w'"
  using assms by (simp add: mailed_def same_of_def)

lemma same_of_sym: "same_of k m m' \<Longrightarrow> same_of k m' m"
  by (simp add: same_of_def)

context owned_handle
begin

lemma hold_settles:
  assumes "\<And>c. pre c m" and "\<And>w. held (lib (snd (run_state open_h w))) = held (lib w)"
    and "\<And>h m'. owns h m m' \<Longrightarrow> same_of KMessage m m'"
    and "\<And>h m' w. owns h m m' \<Longrightarrow> held (lib (snd (run_state (dispose h) w))) = held (lib w)"
    and "\<And>h m'. owns h m m' \<Longrightarrow> settles held m' (body h)"
  shows "settles held m (hold failed open_h dispose body)"
proof (rule settlesI)
  fix w :: "'c world"
  assume m: "mailed held m w"
  then have coh: "coherent w m" by (simp add: mailed_def)
  obtain r w1 where r: "run_state open_h w = (r, w1)" by (metis prod.collapse)
  have l: "held (lib w1) = held (lib w)" using assms(2) [of w] r by simp
  show "mailed held m (snd (run_state (hold failed open_h dispose body) w))"
  proof (cases r)
    case (Inl e)
    then have "coherent w1 m" using make_err [OF coh assms(1)] r by blast
    then show ?thesis using l m r Inl by (simp add: hold_def mailed_def)
  next
    case (Inr h)
    obtain m' where m': "owns h m m'" "coherent w1 m'" using make_ok [OF coh assms(1)] r Inr by blast
    note s = assms(3) [OF m'(1)]
    obtain x w2 where b: "run_state (body h) w1 = (x, w2)" by (metis prod.collapse)
    have w2: "mailed held m' w2"
      using settlesD [OF assms(5) [OF m'(1)] mailed_same [of m m' held w w1, OF s m m'(2) l]] b by simp
    then have "coherent (snd (run_state (dispose h) w2)) m" using dispose_ok [OF m'(1)] by (simp add: mailed_def)
    then have "mailed held m (snd (run_state (dispose h) w2))"
      by (rule mailed_same [OF same_of_sym [OF s] w2]) (rule assms(4) [OF m'(1)])
    then show ?thesis using r Inr b by (simp add: hold_def case_prod_beta)
  qed
qed

end

lemma tracksD:
  assumes "tracks I C held"
  shows "hands_over held (c_client_send C p mt path hs b)" and "hands_over held (c_client_stream_response C p i)"
    and "case c_client_poll_notify C p c of (q, c') \<Rightarrow>
      if q = null_ptr then held c' = held c else q \<notin> held c \<and> held c' = insert q (held c)"
    and "held (c_message_free C p c) = held c - {p}"
    and "held (snd (c_identity_generate I c)) = held c" and "held (snd (c_client_connect C kp n a c)) = held c"
    and "held (c_client_close C p c) = held c" and "held (session_end (c_client_tick C p now c)) = held c"
    and "held (snd (c_client_open_stream C p mt path hs' c)) = held c"
    and "held (snd (c_client_stream_recv C p i k c)) = held c"
    and "held (snd (c_client_stream_verify C p i key c)) = held c"
    and "held (snd (c_client_stream_close C p i c)) = held c"
  using assms unfolding tracks_def by (simp_all only:)

lemma dial_held:
  assumes "\<And>kp c. held (snd (opn kp c)) = held c" and "\<And>w. lib (snd (run_state pre w)) = lib w"
  shows "held (lib (snd (run_state (dial I b pre opn) w))) = held (lib w)"
  using assms
  by (auto simp: dial_def with_identity_def run_with_keypair Let_def identity_drop_def case_prod_beta
      split: option.split sum.split)

lemma client_scope_settles:
  assumes "tracks I C held" and "clients_fresh C m" and "\<And>cl m'. lone_client cl m m' \<Longrightarrow> settles held m' (body cl)"
  shows "settles held m (hold failed (client_connect I C b n a) (client_drop C) body)"
  unfolding connect_dials
proof (rule dialled.hold_settles)
  fix w :: "'a world" and cl :: "'a client" and m'
  show "held (lib (snd (run_state (dial I b (if False then emit (Use KDht 0) else State_Monad.return ())
      (\<lambda>kp. c_client_connect C kp (node_id_raw n) (address_as_raw a))) w))) = held (lib w)"
    by (rule dial_held) (simp_all add: tracksD(6) [OF assms(1)])
  assume o: "lone_client cl m m'"
  then show "same_of KMessage m m'" by (auto simp: lone_client_def intro: owned_same(3))
  show "held (lib (snd (run_state (client_drop C cl) w))) = held (lib w)"
    using o tracksD(7) [OF assms(1)] by (simp add: lone_client_def client_drop_def drop_cache_ref_def)
qed (use assms(2,3) in \<open>simp_all add: clients_fresh_def\<close>)

lemma generated_settles:
  assumes "tracks I C held" and "\<And>ident. settles held m (act ident)"
  shows "settles held m (generated failed I act)"
proof -
  have "settles held m (identity_generate I)"
  proof (rule leaves_settles [OF leaves_generate])
    fix w :: "'a world"
    show "held (lib (snd (run_state (identity_generate I) w))) = held (lib w)"
      using tracksD(5) [OF assms(1), of "lib w"]
      by (cases "c_identity_generate I (lib w)") (simp add: run_identity_generate split: prod.split sum.split)
  qed
  then show ?thesis unfolding generated_def by (intro settle_rules assms(2))
qed


subsection \<open>What a client does in its scope\<close>

text \<open>A client without a hook that can be used; a message in hand does not change that.\<close>

definition at_hand :: "'c client \<Rightarrow> monitor \<Rightarrow> bool" where
  "at_hand cl m \<longleftrightarrow> cl_done cl = None \<and> usable m (KClient, cl_raw cl) \<and> reg_alive m (KClient, cl_raw cl)"

lemma at_hand_lone: "lone_client cl m m' \<Longrightarrow> at_hand cl m'"
  using owns_usable owns_reg_alive by (auto simp: lone_client_def at_hand_def)

lemma at_hand_message:
  assumes "at_hand cl m" and "owns_handle KMessage p m m'"
  shows "at_hand cl m'"
  using assms usable_insert by (auto simp: at_hand_def owns_handle_def reg_alive_def split: option.splits)

lemma usable_message:
  assumes "usable m h" and "owns_handle KMessage p m m'"
  shows "usable m' h"
  using assms usable_insert by (auto simp: owns_handle_def)

lemma lib_lone_session: "lib (snd (run_state (run_session (\<lambda>_. State_Monad.return ()) s) w)) = session_end s"
proof (induction s arbitrary: w)
  case (Callback q c k)
  then show ?case by (simp add: Callback.IH [OF rangeI rangeI])
qed simp

lemma tick_settles:
  assumes "tracks I C held" and "at_hand cl m"
  shows "settles held m (client_tick C cl now)"
proof (rule leaves_settles [OF preserves_leaves])
  have cb: "client_callback cl = (\<lambda>_. State_Monad.return ())"
    using assms(2) by (auto simp: client_callback_def at_hand_def)
  show "preserves m (client_tick C cl now)"
    using assms(2) by (auto simp: client_tick_def cb at_hand_def intro!: keep_rules)
  show "held (lib (snd (run_state (client_tick C cl now) w))) = held (lib w)" for w :: "'a world"
    by (simp add: client_tick_def cb lib_lone_session tracksD(8) [OF assms(1)] case_prod_beta)
qed

lemma peer_settles:
  assumes "at_hand cl m"
  shows "settles held m (client_peer_pubkey C cl)"
proof (rule leaves_settles [OF preserves_leaves])
  show "preserves m (client_peer_pubkey C cl)"
    using assms by (auto simp: client_peer_pubkey_def at_hand_def intro!: keep_rules)
qed simp

lemma asked_scope:
  assumes "tracks I C held" and "usable m (KClient, rb_client rb)"
    and "\<And>r m'. owns_handle KMessage (rp_msg r) m m' \<Longrightarrow> settles held m' (body r)"
  shows "settles held m (hold failed (request_send C rb) (response_drop C) body)"
proof -
  define f where "f = c_client_send C (rb_client rb) (method_code (rb_method rb)) (rb_path rb) (map Some (rb_headers rb) @ [None])
    (slice_parts (rb_body rb))"
  have o: "run_state (request_send C rb) w = run_state (opened KMessage f Response)
      (w\<lparr>history := history w @ [Use KClient (rb_client rb)]\<rparr>) \<or> (\<exists>e. run_state (request_send C rb) w = (Inl e, w))" for w
  proof (cases "CHR 0x00 \<notin> set (rb_path rb) \<and> request_clean (rb_headers rb)")
    case True
    then show ?thesis by (simp add: request_send_def run_request_with_c owned_response_def f_def)
  next
    case False
    then have "run_state (request_send C rb) w = (Inl ProtoInvalidHeader, w)"
      by (auto simp: request_send_def run_request_with_c)
    then show ?thesis by simp
  qed
  have h: "hands_over held f" unfolding f_def by (rule tracksD(1) [OF assms(1)])
  show ?thesis by (rule mail_scope [where f = f, OF _ _ h assms(2)]) (rule tracksD(4) [OF assms(1)], rule o, rule assms(3))
qed

lemma open_stream_settles:
  assumes "tracks I C held" and "at_hand cl m"
  shows "settles held m (client_open_stream C cl mt path)"
proof (rule leaves_settles [OF preserves_leaves])
  show "preserves m (client_open_stream C cl mt path)"
    using assms(2) by (auto simp: client_open_stream_def at_hand_def intro!: keep_rules)
  show "held (lib (snd (run_state (client_open_stream C cl mt path) w))) = held (lib w)" for w :: "'a world"
  proof (cases "cstring_new path")
    case None
    then show ?thesis by (simp add: client_open_stream_def)
  next
    case (Some cpath)
    obtain rc ident c where "c_client_open_stream C (cl_raw cl) (method_code mt) cpath None (lib w) = ((rc, ident), c)"
      by (metis prod.collapse)
    with Some show ?thesis
      using tracksD(9) [OF assms(1), of "cl_raw cl" "method_code mt" cpath None "lib w"]
      by (cases "error_check rc") (simp_all add: client_open_stream_def)
  qed
qed

lemma opened_stream_client:
  assumes "run_state (client_open_stream C cl mt path) w = (Inr st, w')"
  shows "st_client st = cl_raw cl"
proof (cases "cstring_new path")
  case None
  then show ?thesis using assms by (simp add: client_open_stream_def)
next
  case (Some cpath)
  obtain rc ident c where "c_client_open_stream C (cl_raw cl) (method_code mt) cpath None (lib w) = ((rc, ident), c)"
    by (metis prod.collapse)
  with Some show ?thesis using assms by (cases "error_check rc") (auto simp: client_open_stream_def)
qed

lemma stream_drop_settles:
  assumes "tracks I C held" and "usable m (KClient, st_client st)"
  shows "settles held m (stream_drop C st)"
proof (rule leaves_settles [OF preserves_leaves])
  show "preserves m (stream_drop C st)" using assms(2) by (simp add: stream_drop_def keep_rules)
  show "held (lib (snd (run_state (stream_drop C st) w))) = held (lib w)" for w :: "'a world"
    using tracksD(12) [OF assms(1)] by (simp add: stream_drop_def case_prod_beta)
qed

lemma stream_scope:
  assumes "tracks I C held" and "at_hand cl m" and "\<And>st. st_client st = cl_raw cl \<Longrightarrow> settles held m (body st)"
  shows "settles held m (hold failed (client_open_stream C cl mt path) (stream_drop C) body)"
proof (rule settlesI)
  fix w :: "'a world"
  assume m: "mailed held m w"
  obtain r w1 where r: "run_state (client_open_stream C cl mt path) w = (r, w1)" by (metis prod.collapse)
  have m1: "mailed held m w1" using settlesD [OF open_stream_settles [OF assms(1,2)] m, of mt path] r by simp
  show "mailed held m (snd (run_state (hold failed (client_open_stream C cl mt path) (stream_drop C) body) w))"
  proof (cases r)
    case (Inl e)
    then show ?thesis using r m1 by (simp add: hold_def)
  next
    case (Inr st)
    then have st: "st_client st = cl_raw cl" using opened_stream_client r by blast
    then have "usable m (KClient, st_client st)" using assms(2) by (simp add: at_hand_def)
    from settlesD [OF stream_drop_settles [OF assms(1) this] settlesD [OF assms(3) [OF st] m1]] show ?thesis
      using r Inr by (simp add: hold_def case_prod_beta)
  qed
qed

lemma meta_scope:
  assumes "tracks I C held" and "usable m (KClient, st_client st)"
    and "\<And>r m'. owns_handle KMessage (rp_msg r) m m' \<Longrightarrow> settles held m' (body r)"
  shows "settles held m (hold failed (stream_response C st) (response_drop C) body)"
proof -
  have o: "run_state (stream_response C st) w = run_state (opened KMessage (c_client_stream_response C (st_client st) (st_id st)) Response)
      (w\<lparr>history := history w @ [Use KClient (st_client st)]\<rparr>) \<or> (\<exists>e. run_state (stream_response C st) w = (Inl e, w))" for w
    by (intro disjI1) (simp add: stream_response_def owned_response_def)
  show ?thesis
    by (rule mail_scope [where f = "c_client_stream_response C (st_client st) (st_id st)", OF _ _ tracksD(2) [OF assms(1)] assms(2)])
      (rule tracksD(4) [OF assms(1)], rule o, rule assms(3))
qed

lemma recv_settles:
  assumes "tracks I C held" and "usable m (KClient, st_client st)"
  shows "settles held m (stream_recv C st n)"
proof (rule leaves_settles [OF preserves_leaves])
  show "preserves m (stream_recv C st n)"
    using assms(2) by (auto simp: stream_recv_def intro!: keep_rules)
  fix w :: "'a world"
  obtain rc out c where r: "c_client_stream_recv C (st_client st) (st_id st) n (lib w) = ((rc, out), c)" by (metis prod.collapse)
  then show "held (lib (snd (run_state (stream_recv C st n) w))) = held (lib w)"
    using tracksD(10) [OF assms(1), of "st_client st" "st_id st" n "lib w"]
    by (cases "error_check rc") (simp_all add: stream_recv_def case_prod_beta)
qed

lemma stream_verify_settles:
  assumes "tracks I C held" and "usable m (KClient, st_client st)"
  shows "settles held m (stream_verify C st key)"
proof (rule leaves_settles [OF preserves_leaves])
  show "preserves m (stream_verify C st key)"
    using assms(2) by (auto simp: stream_verify_def intro!: keep_rules)
  show "held (lib (snd (run_state (stream_verify C st key) w))) = held (lib w)" for w :: "'a world"
    using tracksD(11) [OF assms(1)] by (simp add: stream_verify_def case_prod_beta)
qed

lemma verified_size_settles:
  assumes "tracks I C held" and "usable m (KClient, st_client st)"
  shows "settles held m (verified_size C st key fuel)"
proof -
  have "settles held m (count_stream C st fuel got)" for got
    by (induction fuel arbitrary: got) (auto intro!: settle_rules recv_settles [OF assms])
  then show ?thesis
    unfolding verified_size_def by (intro settle_rules stream_verify_settles [OF assms])
qed

lemma streamed_read_settles:
  assumes "tracks I C held" and "at_hand cl m"
  shows "settles held m (streamed_read C cl fuel)"
  unfolding streamed_read_def
proof (intro settle_rules peer_settles [OF assms(2)] stream_scope [OF assms])
  fix key and st :: client_stream
  assume "st_client st = cl_raw cl"
  then have u: "usable m (KClient, st_client st)" using assms(2) by (simp add: at_hand_def)
  show "settles held m (hold returns (stream_response C st) (response_drop C) (\<lambda>meta. do {
      s \<leftarrow> response_status C meta;
      ctype \<leftarrow> response_header C meta ''content-type'';
      got \<leftarrow> verified_size C st key fuel;
      State_Monad.return (map_option (map_ok (\<lambda>n. (s, ctype, n))) got)
    }))"
  proof (rule meta_scope [OF assms(1) u])
    fix r m'
    assume o: "owns_handle KMessage (rp_msg r) m m'"
    show "settles held m' (do {
        s \<leftarrow> response_status C r;
        ctype \<leftarrow> response_header C r ''content-type'';
        got \<leftarrow> verified_size C st key fuel;
        State_Monad.return (map_option (map_ok (\<lambda>n. (s, ctype, n))) got) })"
      by (intro settle_rules owns_usable [OF o] verified_size_settles [OF assms(1) usable_message [OF u o]])
  qed
qed

text \<open>A notification is handed over like a response.\<close>

lemma await_settles:
  assumes "tracks I C held" and "at_hand cl m"
  shows "settles held m (await_notify C cl nows)"
proof (induction nows)
  case Nil
  then show ?case by (simp add: settles_return)
next
  case (Cons now nows)
  have "settles held m (do {
      pushed \<leftarrow> client_poll_notify C cl;
      (case pushed of
         Some n \<Rightarrow> do { _ \<leftarrow> response_header C n '':event''; response_drop C n; ret_ok () }
       | None \<Rightarrow> await_notify C cl nows) })" (is "settles held m ?act")
  proof (rule settlesI)
    fix w :: "'a world"
    assume m: "mailed held m w"
    let ?u = "Use KClient (cl_raw cl)"
    obtain q c where q: "c_client_poll_notify C (cl_raw cl) (lib w) = (q, c)" by (metis prod.collapse)
    have h: "if q = null_ptr then held c = held (lib w) else q \<notin> held (lib w) \<and> held c = insert q (held (lib w))"
      using tracksD(3) [OF assms(1), of "lib w" "cl_raw cl"] q by simp
    have u: "usable m (KClient, cl_raw cl)" using assms(2) by (simp add: at_hand_def)
    show "mailed held m (snd (run_state ?act w))"
    proof (cases "q = null_ptr")
      case True
      then have "mailed held m (w\<lparr>lib := c, history := history w @ [?u]\<rparr>)"
        using m u h by (simp add: mailed_def coherent_def)
      then show ?thesis using settlesD [OF Cons.IH] q True by (simp add: client_poll_notify_def)
    next
      case False
      let ?m' = "m\<lparr>live := insert (KMessage, q) (live m)\<rparr>" and ?w = "w\<lparr>lib := c, history := history w @ [?u, Acquire KMessage q]\<rparr>"
      have o: "owns_handle KMessage (rp_msg (Response q)) m ?m'"
        using h m False by (auto simp: owns_handle_def mailed_def)
      have "mailed held ?m' ?w" using m u h False by (auto simp: mailed_def coherent_def)
      from message_back [OF tracksD(4) [OF assms(1)] o settlesD [OF reads_settle(2) [OF owns_usable [OF o]] this]]
      show ?thesis using q False by (simp add: client_poll_notify_def case_prod_beta)
    qed
  qed
  then show ?case
    unfolding await_notify.simps by (rule settles_try [OF tick_settles [OF assms]])
qed


subsection \<open>Whole clients\<close>

lemma talk_settles:
  assumes "tracks I C held" and "at_hand cl m" and "\<And>q f m. (q, f) \<in> set script \<Longrightarrow> at_hand cl m \<Longrightarrow> settles held m f"
  shows "settles held m (talk C cl script)"
  using assms(2,3)
proof (induction script arbitrary: m)
  case Nil
  then show ?case by (simp add: settles_return)
next
  case (Cons x script)
  obtain verb path body f where x: "x = ((verb, path, body), f)" by (metis prod.collapse)
  have u: "usable m (KClient, rb_client (request_set_body (client_request cl verb path) body))"
    using Cons.prems(1) by (simp add: at_hand_def client_request_def request_set_body_def)
  have b: "settles held m' (do {
      st \<leftarrow> response_status C r;
      bs \<leftarrow> response_body C r;
      try_ok f (\<lambda>_. try_ok (talk C cl script) (\<lambda>seen. ret_ok ((st, bs) # seen))) })"
    if o: "owns_handle KMessage (rp_msg r) m m'" for r m'
  proof -
    note h = at_hand_message [OF Cons.prems(1) o]
    have "settles held m' f" using Cons.prems(2) [OF _ h] x by auto
    moreover have "settles held m' (talk C cl script)" using Cons.IH [OF h] Cons.prems(2) by (meson list.set_intros(2))
    ultimately show ?thesis by (intro settle_rules owns_usable [OF o])
  qed
  show ?case unfolding x talk.simps client_send_def by (rule asked_scope [OF assms(1) u b])
qed

lemma asked_client [simp]:
  "rb_client (page_request cl name val) = cl_raw cl"
  "rb_client (request_set_body (client_request cl verb path) b) = cl_raw cl"
  by (simp_all add: page_request_def request_add_header_def client_request_def request_set_body_def)

lemma page_reads_settle:
  assumes "tracks I C held" and "at_hand cl m"
  shows "settles held m (page_reads C cl)"
proof -
  have u: "usable m (KClient, cl_raw cl)" using assms(2) by (simp add: at_hand_def)
  show ?thesis
    unfolding page_reads_def client_send_def
  proof (intro settle_rules asked_scope [OF assms(1)]; (unfold asked_client)?)
  qed (use u usable_message owns_usable in blast)+
qed

lemma curl_reads_settle:
  assumes "tracks I C held" and "at_hand cl m"
  shows "settles held m (curl_reads C cl fuel)"
  unfolding curl_reads_def client_send_def
proof (rule asked_scope [OF assms(1)], unfold asked_client)
  show "usable m (KClient, cl_raw cl)" using assms(2) by (simp add: at_hand_def)
  fix r m'
  assume o: "owns_handle KMessage (rp_msg r) m m'"
  note h = at_hand_message [OF assms(2) o]
  then have "usable m' (KClient, cl_raw cl)" by (simp add: at_hand_def)
  then show "settles held m' (do {
      _ \<leftarrow> response_status C r;
      hs \<leftarrow> response_headers C r;
      _ \<leftarrow> headers_collect C hs;
      _ \<leftarrow> response_body C r;
      verdict \<leftarrow> client_verify_response C cl r ''/hello'' 0;
      (case verdict of
         Inl e \<Rightarrow> State_Monad.return (Some (Inl e))
       | Inr _ \<Rightarrow> streamed_read C cl fuel) })"
    by (intro settle_rules owns_usable [OF o] streamed_read_settles [OF assms(1) h])
qed

lemma mains_settle:
  assumes "tracks I C held" and "clients_fresh C m"
  shows "settles held m (kv_main I C N node port nows)" and "settles held m (page_main I C N node port)"
    and "settles held m (curl_main I C N node port fuel)"
proof -
  have kv: "settles held m' (talk C cl (kv_script C cl nows))" if h: "at_hand cl m'" for cl :: "'a client" and m'
    by (rule talk_settles [OF assms(1) h])
      (auto simp: kv_script_def simp del: await_notify.simps intro: settles_return await_settles [OF assms(1)])
  show "settles held m (kv_main I C N node port nows)"
    unfolding kv_main_def by (intro generated_settles [OF assms(1)] client_scope_settles [OF assms] kv at_hand_lone)
  show "settles held m (page_main I C N node port)"
    unfolding page_main_def
    by (intro generated_settles [OF assms(1)] client_scope_settles [OF assms] page_reads_settle [OF assms(1)] at_hand_lone)
  show "settles held m (curl_main I C N node port fuel)"
    unfolding curl_main_def
    by (intro generated_settles [OF assms(1)] client_scope_settles [OF assms] curl_reads_settle [OF assms(1)] at_hand_lone)
qed

text \<open>Started with no message in hand, they leave what there was.\<close>

definition no_message :: "monitor \<Rightarrow> bool" where
  "no_message m \<longleftrightarrow> (\<forall>p. (KMessage, p) \<notin> live m \<and> regs m (KMessage, p) = None \<and> borrows m (KMessage, p) = None)"

lemma no_message_fresh: "no_message m \<Longrightarrow> messages_fresh C m"
  by (auto simp: no_message_def messages_fresh_def fresh_ptr_def split: prod.split)

lemma settles_leaves: "settles held m act \<Longrightarrow> no_message m \<Longrightarrow> leaves m act"
  by (simp add: settles_def leaves_def mailed_def no_message_def)


section \<open>Properties\<close>


text \<open>A library whose state is the list of the messages it has handed out.\<close>

definition next_message :: "ptr list \<Rightarrow> (int \<times> ptr) \<times> ptr list" where
  "next_message c = ((0, Suc (sum_list c)), Suc (sum_list c) # c)"

definition mail_client :: "ptr list client_api" where
  "mail_client = cache_api.extend (sample_cache_api\<lparr>c_message_free := removeAll\<rparr>)
   (client_api.fields
     (\<lambda>kp n a c. ((0, 5), c)) (\<lambda>kp n a c. ((0, 5), c)) (\<lambda>kp n a fd c. ((0, 5), c))
     (\<lambda>kp n a fd c. ((0, 5), c)) (\<lambda>kp n d ms c. ((0, 5), c))
     (\<lambda>p mt path hs c. ((0, 3), c)) (\<lambda>p r path now c. 0) (\<lambda>p c. 1) (\<lambda>p c. 0) (\<lambda>p c. (0, [4]))
     (\<lambda>p m c. (0, m)) (\<lambda>p now c. Finish 0 c) (\<lambda>p c. 6) (\<lambda>p now c. (10, c))
     (\<lambda>p ca c. (0, c)) (\<lambda>p b c. ((), c)) (\<lambda>p c. (snd (fst (next_message c)), snd (next_message c)))
     (\<lambda>p mt path hs b. next_message)
     (\<lambda>p mt path hs b c. ((0, of_nat (length hs)), c))
     (\<lambda>p i c. ((- 803, 9), c)) (\<lambda>p i c. ((), c))
     (\<lambda>p i. next_message) (\<lambda>p i n c. ((0, [], 0, 1), c)) (\<lambda>p i k c. (0, c)) (\<lambda>p i c. ((), c))
     (\<lambda>p c. (1, c)) (\<lambda>p c. c))"

lemmas mail_simps =
  mail_client_def sample_cache_api_def message_api.defs response_api.defs cache_api.defs client_api.defs

lemma next_message_new: "Suc (sum_list c) \<notin> set (c :: nat list)"
  using member_le_sum_list by fastforce

lemma mail_tracks: "tracks sample_identity_api mail_client set"
  by (auto simp: tracks_def hands_over_def mail_simps sample_identity_api_def next_message_def next_message_new)


end
