(* ===== verification/BuildScript.thy ===== *)
theory BuildScript
  imports Prelude
begin

text \<open>
  \<^verbatim>\<open>nwep-sys/build.rs\<close> and \<^verbatim>\<open>nwep/build.rs\<close>: finding the static archive of the C library and telling cargo to link
  it. The environment variables, the file system, \<^verbatim>\<open>zig\<close>, \<^verbatim>\<open>pkg-config\<close> and the home directories are the
  parameter \<open>build_env\<close>; only \<^verbatim>\<open>zig build\<close> changes the file system, whose state is \<open>'o\<close>. Paths are strings with
  the separator of unix, the build host of the crate's own targets.
\<close>

section \<open>Environment\<close>

record 'o build_env =
  be_lib_dir :: "string option"
  be_canonicalize :: "string \<Rightarrow> 'o \<Rightarrow> string option"
  be_exists :: "string \<Rightarrow> 'o \<Rightarrow> bool"
  be_zig_build :: "string \<Rightarrow> 'o \<Rightarrow> bool \<times> 'o"
  be_pkg_config :: "string \<Rightarrow> 'o \<Rightarrow> string list option"
  be_home_dir :: "string option"
  be_data_local_dir :: "string option"
  be_program_files :: "string option"

text \<open>\<^verbatim>\<open>Path::join\<close> with a relative path.\<close>

definition path_join :: "string \<Rightarrow> string \<Rightarrow> string" where
  "path_join p s = (if p = [] \<or> last p = CHR ''/'' then p @ s else p @ ''/'' @ s)"

definition holds_archive :: "'o build_env \<Rightarrow> string \<Rightarrow> 'o \<Rightarrow> string \<Rightarrow> bool" where
  "holds_archive E archive os d = be_exists E (path_join d archive) os"

section \<open>The search\<close>

definition installer_default_lib_dirs :: "'o build_env \<Rightarrow> string \<Rightarrow> string list" where
  "installer_default_lib_dirs E target =
     (if target = ''linux'' then
        (case be_home_dir E of None \<Rightarrow> [] | Some home \<Rightarrow> [path_join home ''.local/lib'']) @ [''/usr/local/lib'']
      else if target = ''windows'' then
        (case be_data_local_dir E of None \<Rightarrow> [] | Some d \<Rightarrow> [path_join d ''Programs/nwep/lib'']) @
        [path_join (opt_unwrap_or (be_program_files E) (''C:'' @ [CHR 0x5C] @ ''Program Files'')) ''nwep/lib'']
      else [])"

text \<open>Each step of the search returns what it found and what it adds to the trail of places looked at.\<close>

definition try_override :: "'o build_env \<Rightarrow> string \<Rightarrow> 'o \<Rightarrow> string option \<times> string list" where
  "try_override E archive os =
     (case be_lib_dir E of
        None \<Rightarrow> (None, [])
      | Some d \<Rightarrow> (if holds_archive E archive os d then Some d else None, [d @ '' (NWEP_LIB_DIR)'']))"

definition try_zig_out :: "'o build_env \<Rightarrow> string \<Rightarrow> string \<Rightarrow> 'o \<Rightarrow> (string option \<times> string list) \<times> 'o" where
  "try_zig_out E repo_root archive os =
     (case be_canonicalize E repo_root os of
        None \<Rightarrow> ((None, []), os)
      | Some root \<Rightarrow>
          let d = path_join root ''zig-out/lib''; trail = [d @ '' (zig-out)''] in
          if holds_archive E archive os d then ((Some d, trail), os)
          else if be_exists E (path_join root ''build.zig'') os then
            (case be_zig_build E root os of (built, os') \<Rightarrow>
               ((if built \<and> holds_archive E archive os' d then Some d else None, trail), os'))
          else ((None, trail), os))"

definition try_pkg_config :: "'o build_env \<Rightarrow> string \<Rightarrow> string \<Rightarrow> string \<Rightarrow> 'o \<Rightarrow> string option \<times> string list" where
  "try_pkg_config E base archive target os =
     (if target \<noteq> ''linux'' then (None, [])
      else
        let pc_name = (if base = ''nwep'' then ''nwep'' else ''nwep_core'');
            missed = ''pkg-config '' @ pc_name @ '' (not found or archive missing)'' in
        case be_pkg_config E pc_name os of
          Some (d # _) \<Rightarrow>
            if holds_archive E archive os d then (Some d, [d @ '' (pkg-config)''])
            else (None, [d @ '' (pkg-config)'', missed])
        | _ \<Rightarrow> (None, [missed]))"

fun try_dirs :: "'o build_env \<Rightarrow> string \<Rightarrow> 'o \<Rightarrow> string list \<Rightarrow> string option \<times> string list" where
  "try_dirs E archive os [] = (None, [])"
| "try_dirs E archive os (d # ds) =
     (if holds_archive E archive os d then (Some d, [d @ '' (installer default)''])
      else (case try_dirs E archive os ds of (found, trail) \<Rightarrow> (found, (d @ '' (installer default)'') # trail)))"

definition resolve_lib_dir ::
  "'o build_env \<Rightarrow> string \<Rightarrow> string \<Rightarrow> string \<Rightarrow> string \<Rightarrow> 'o \<Rightarrow> (string option \<times> string list) \<times> 'o" where
  "resolve_lib_dir E repo_root base archive target os =
     (case try_override E archive os of
        (Some d, t1) \<Rightarrow> ((Some d, t1), os)
      | (None, t1) \<Rightarrow>
          (case try_zig_out E repo_root archive os of
             ((Some d, t2), os') \<Rightarrow> ((Some d, t1 @ t2), os')
           | ((None, t2), os') \<Rightarrow>
               (case try_pkg_config E base archive target os' of
                  (Some d, t3) \<Rightarrow> ((Some d, t1 @ t2 @ t3), os')
                | (None, t3) \<Rightarrow>
                    (case try_dirs E archive os' (installer_default_lib_dirs E target) of
                       (found, t4) \<Rightarrow> ((found, t1 @ t2 @ t3 @ t4), os')))))"

section \<open>What cargo is told\<close>

definition system_libs :: "string \<Rightarrow> string list" where
  "system_libs target =
     (if target = ''linux'' then [''m'', ''dl'', ''pthread'']
      else if target = ''android'' then [''m'', ''dl'', ''log'']
      else if target = ''windows'' then
        [''ws2_32'', ''bcrypt'', ''crypt32'', ''secur32'', ''advapi32'', ''userenv'', ''ntdll'']
      else if target \<in> {''macos'', ''ios''} then [''framework=Security'', ''framework=CoreFoundation'']
      else [])"

text \<open>The base name and the archive of the two flavours.\<close>

definition archive_base :: "bool \<Rightarrow> string" where
  "archive_base trust = (if trust then ''nwep'' else ''nwep_core'')"

definition archive_name :: "string \<Rightarrow> string" where
  "archive_name base = ''lib'' @ base @ ''-full.a''"

text \<open>The text of the panic: the archive, the trail and how to install it.\<close>

fun join_with :: "string \<Rightarrow> string list \<Rightarrow> string" where
  "join_with sep [] = []"
| "join_with sep [x] = x"
| "join_with sep (x # y # ys) = x @ sep @ join_with sep (y # ys)"

definition nl :: string where
  "nl = [CHR 0x0A]"

definition install_hint :: "string \<Rightarrow> string" where
  "install_hint target =
     (if target = ''windows'' then join_with nl
        [''Install nwep with the GUI installer (http://pkg.rebuildtheinter.net/tools/latest/)'',
         ''- it sets NWEP_LIB_DIR automatically.'',
         ''Or set NWEP_LIB_DIR manually to the directory containing the .a files.'']
      else join_with nl
        [''Install nwep with the GUI installer (http://pkg.rebuildtheinter.net/tools/latest/),'',
         ''or set PKG_CONFIG_PATH to ~/.local/lib/pkgconfig if you used a user-scope install.'',
         ''You can also set NWEP_LIB_DIR or run `zig build` in the repo root.''])"

definition panic_text :: "string \<Rightarrow> string \<Rightarrow> string list \<Rightarrow> string" where
  "panic_text archive target checked =
     ''nwep-sys: could not find '' @ archive @ ''. Checked:'' @ nl @ ''  - '' @ join_with (nl @ ''  - '') checked @
     nl @ nl @ install_hint target"

text \<open>\<^verbatim>\<open>main\<close>: the directives in order, or the panic with its text.\<close>

definition directives :: "string \<Rightarrow> string \<Rightarrow> string \<Rightarrow> string \<Rightarrow> string list" where
  "directives base archive target d =
     [''cargo:lib_dir='' @ d, ''cargo:rustc-link-search=native='' @ d, ''cargo:rustc-link-lib=static='' @ base @ ''-full''] @
     map (\<lambda>l. ''cargo:rustc-link-lib='' @ l) (system_libs target) @
     [''cargo:rerun-if-changed=build.rs'', ''cargo:rerun-if-env-changed=NWEP_LIB_DIR'',
      ''cargo:rerun-if-changed='' @ path_join d archive]"

definition build_main ::
  "'o build_env \<Rightarrow> string \<Rightarrow> bool \<Rightarrow> string \<Rightarrow> 'o \<Rightarrow> (string + string list) \<times> 'o" where
  "build_main E manifest_dir trust target os =
     (let base = archive_base trust; archive = archive_name base in
      case resolve_lib_dir E (path_join manifest_dir ''../../..'') base archive target os of
        ((None, checked), os') \<Rightarrow> (Inl (panic_text archive target checked), os')
      | ((Some d, checked), os') \<Rightarrow> (Inr (directives base archive target d), os'))"

text \<open>\<^verbatim>\<open>nwep/build.rs\<close>: the run path of the directory that \<^verbatim>\<open>nwep-sys\<close> passes on.\<close>

definition nwep_build_main :: "string option \<Rightarrow> string list" where
  "nwep_build_main lib_dir =
     (case lib_dir of None \<Rightarrow> [] | Some d \<Rightarrow> [''cargo:rustc-link-arg=-Wl,-rpath,'' @ d]) @ [''cargo:rerun-if-changed=build.rs'']"

section \<open>Resolution order\<close>

text \<open>The search path of the documentation: the directories in the order in which they are to be tried.\<close>

definition search_path :: "'o build_env \<Rightarrow> string \<Rightarrow> string \<Rightarrow> string \<Rightarrow> 'o \<Rightarrow> string list" where
  "search_path E repo_root base target os =
     (case be_lib_dir E of None \<Rightarrow> [] | Some d \<Rightarrow> [d]) @
     (case be_canonicalize E repo_root os of None \<Rightarrow> [] | Some root \<Rightarrow> [path_join root ''zig-out/lib'']) @
     (if target = ''linux'' then
        (case be_pkg_config E base os of Some (d # _) \<Rightarrow> [d] | _ \<Rightarrow> []) else []) @
     installer_default_lib_dirs E target"

text \<open>
  What the search relies on of \<^verbatim>\<open>zig build\<close>: the checkout stays where it is, a build that fails makes no
  archive, and none makes one in the override directory, unless that is \<^verbatim>\<open>zig-out\<close> itself.
\<close>

definition builds_in_place :: "'o build_env \<Rightarrow> string \<Rightarrow> string \<Rightarrow> bool" where
  "builds_in_place E repo_root archive \<longleftrightarrow> (\<forall>root os built os'.
     be_canonicalize E repo_root os = Some root \<longrightarrow> be_zig_build E root os = (built, os') \<longrightarrow>
       be_canonicalize E repo_root os' = Some root \<and>
       (\<not> built \<longrightarrow> holds_archive E archive os' (path_join root ''zig-out/lib'') =
          holds_archive E archive os (path_join root ''zig-out/lib'')) \<and>
       (\<forall>d. be_lib_dir E = Some d \<longrightarrow> d \<noteq> path_join root ''zig-out/lib'' \<longrightarrow>
          holds_archive E archive os' d = holds_archive E archive os d))"

lemma try_dirs_find:
  "try_dirs E archive os ds =
     (find (holds_archive E archive os) ds,
      map (\<lambda>d. d @ '' (installer default)'')
        (case find (holds_archive E archive os) ds of None \<Rightarrow> ds | Some d \<Rightarrow> takeWhile (\<lambda>d. \<not> holds_archive E archive os d) ds @ [d]))"
  by (induction ds) (auto split: option.split)

text \<open>Both flavours ask pkg-config for the package of their own name.\<close>

lemma pc_name: "(if archive_base trust = ''nwep'' then ''nwep'' else ''nwep_core'') = archive_base trust"
  by (simp add: archive_base_def)

lemma try_zig_out_ends:
  assumes "builds_in_place E repo_root archive" and "try_zig_out E repo_root archive os = ((found, trail), os')"
  shows "be_canonicalize E repo_root os' = be_canonicalize E repo_root os \<and>
    (case be_canonicalize E repo_root os of
       None \<Rightarrow> found = None \<and> trail = [] \<and> os' = os
     | Some root \<Rightarrow> let z = path_join root ''zig-out/lib'' in
         found = (if holds_archive E archive os' z then Some z else None) \<and> trail = [z @ '' (zig-out)''] \<and>
         (\<forall>d. be_lib_dir E = Some d \<longrightarrow> d \<noteq> z \<longrightarrow> holds_archive E archive os' d = holds_archive E archive os d) \<and>
         (holds_archive E archive os z \<longrightarrow> os' = os))"
proof (cases "be_canonicalize E repo_root os")
  case None
  then show ?thesis using assms(2) by (simp add: try_zig_out_def)
next
  case (Some root)
  obtain built v where z: "be_zig_build E root os = (built, v)" by (metis prod.collapse)
  note b = assms(1) [unfolded builds_in_place_def, rule_format, OF Some z]
  show ?thesis
    using assms(2) b Some by (cases built) (auto simp: try_zig_out_def z Let_def split: if_splits)
qed

text \<open>
  A stretch \<open>ds\<close> of the search path is tried: the first directory that holds the archive is what was found, and
  every directory before it is on the trail.
\<close>

definition tried :: "(string \<Rightarrow> bool) \<Rightarrow> string list \<Rightarrow> string option \<times> string list \<Rightarrow> bool" where
  "tried h ds r \<longleftrightarrow> fst r = find h ds \<and> (\<forall>d \<in> set (takeWhile (\<lambda>d. \<not> h d) ds). \<exists>note. d @ note \<in> set (snd r))"

lemma find_append: "find h (xs @ ys) = (case find h xs of None \<Rightarrow> find h ys | Some x \<Rightarrow> Some x)"
  by (induction xs) auto

lemma tried_found: "tried h ds (Some d, t) \<Longrightarrow> tried h (ds @ es) (Some d, t)"
proof -
  assume t: "tried h ds (Some d, t)"
  then have "\<exists>x \<in> set ds. h x" by (metis find_None_iff fst_conv option.distinct(1) tried_def)
  then have "takeWhile (\<lambda>d. \<not> h d) (ds @ es) = takeWhile (\<lambda>d. \<not> h d) ds" by (induction ds) auto
  with t show ?thesis by (auto simp: tried_def find_append split: option.splits)
qed

lemma tried_append: "tried h ds (None, t) \<Longrightarrow> tried h es (found, u) \<Longrightarrow> tried h (ds @ es) (found, t @ u)"
proof -
  assume t: "tried h ds (None, t)" and u: "tried h es (found, u)"
  then have n: "\<forall>x \<in> set ds. \<not> h x" by (metis find_None_iff fst_conv tried_def)
  then have "takeWhile (\<lambda>d. \<not> h d) (ds @ es) = ds @ takeWhile (\<lambda>d. \<not> h d) es" and "takeWhile (\<lambda>d. \<not> h d) ds = ds"
    by (simp_all add: takeWhile_append2 takeWhile_eq_all_conv)
  with t u show ?thesis by (auto simp: tried_def find_append split: option.splits)
qed

lemma tried_dirs: "tried (holds_archive E archive os) ds (try_dirs E archive os ds)"
  unfolding tried_def
proof (induction ds)
  case Nil
  then show ?case by simp
next
  case (Cons d ds)
  then show ?case by (fastforce split: prod.splits)
qed

lemma tried_pkg_config:
  "tried (holds_archive E archive os)
     (if target = ''linux'' then (case be_pkg_config E (archive_base trust) os of Some (d # _) \<Rightarrow> [d] | _ \<Rightarrow> []) else [])
     (try_pkg_config E (archive_base trust) archive target os)"
  by (auto simp: try_pkg_config_def tried_def pc_name Let_def split: option.splits list.splits)

text \<open>The first two steps, judged after the build that the second may have run.\<close>

definition own_dirs :: "'o build_env \<Rightarrow> string \<Rightarrow> 'o \<Rightarrow> string list" where
  "own_dirs E repo_root os =
     (case be_lib_dir E of None \<Rightarrow> [] | Some d \<Rightarrow> [d]) @
     (case be_canonicalize E repo_root os of None \<Rightarrow> [] | Some root \<Rightarrow> [path_join root ''zig-out/lib''])"

lemma tried_own_dirs:
  assumes "builds_in_place E repo_root archive" and "try_override E archive os = (None, t1)"
    and "try_zig_out E repo_root archive os = ((found, t2), os')"
  shows "tried (holds_archive E archive os') (own_dirs E repo_root os') (found, t1 @ t2)"
proof -
  note z = try_zig_out_ends [OF assms(1,3)]
  have o: "\<not> holds_archive E archive os d \<and> d @ '' (NWEP_LIB_DIR)'' \<in> set t1" if "be_lib_dir E = Some d" for d
    using assms(2) that by (auto simp: try_override_def split: if_splits)
  have same: "path_join root ''zig-out/lib'' = d"
    if "be_lib_dir E = Some d" "be_canonicalize E repo_root os = Some root" "holds_archive E archive os' d" for d root
  proof (rule ccontr)
    assume "path_join root ''zig-out/lib'' \<noteq> d"
    then show False using z o [OF that(1)] that by (auto simp: Let_def)
  qed
  show ?thesis
    using z o
    by (cases "be_lib_dir E"; cases "be_canonicalize E repo_root os")
      (auto simp: tried_def own_dirs_def Let_def dest: same split: if_splits)
qed

lemma resolve_in_order:
  assumes "builds_in_place E repo_root archive"
    and "resolve_lib_dir E repo_root (archive_base trust) archive target os = (r, os')"
  shows "tried (holds_archive E archive os') (search_path E repo_root (archive_base trust) target os') r"
proof -
  define ps where "ps = (if target = ''linux'' then (case be_pkg_config E (archive_base trust) os' of Some (d # _) \<Rightarrow> [d] | _ \<Rightarrow> []) else [])"
  have path: "search_path E repo_root (archive_base trust) target os' =
      own_dirs E repo_root os' @ ps @ installer_default_lib_dirs E target"
    by (simp add: search_path_def own_dirs_def ps_def)
  show ?thesis
  proof (cases "\<exists>d. be_lib_dir E = Some d \<and> holds_archive E archive os d")
    case True
    then have "os' = os" and "tried (holds_archive E archive os) (own_dirs E repo_root os) r"
      using assms(2) by (auto simp: resolve_lib_dir_def try_override_def tried_def own_dirs_def)
    then show ?thesis using True assms(2) unfolding path
      by (cases r) (auto simp: resolve_lib_dir_def try_override_def intro!: tried_found)
  next
    case False
    then obtain t1 where t1: "try_override E archive os = (None, t1)"
      by (cases "be_lib_dir E") (auto simp: try_override_def)
    obtain f2 t2 v where z: "try_zig_out E repo_root archive os = ((f2, t2), v)" by (metis prod.collapse)
    obtain f3 t3 where p: "try_pkg_config E (archive_base trust) archive target v = (f3, t3)" by (metis prod.collapse)
    obtain f4 t4 where d: "try_dirs E archive v (installer_default_lib_dirs E target) = (f4, t4)" by (metis prod.collapse)
    have v: "os' = v" using assms(2) t1 z p d by (auto simp: resolve_lib_dir_def split: option.splits)
    note own = tried_own_dirs [OF assms(1) t1 z]
    note pkg = tried_pkg_config [of E archive v target trust, unfolded p, folded v, folded ps_def]
    note dirs = tried_dirs [of E archive v "installer_default_lib_dirs E target", unfolded d]
    show ?thesis
    proof (cases f2)
      case (Some a)
      then have "r = (Some a, t1 @ t2)" using assms(2) t1 z by (simp add: resolve_lib_dir_def)
      then show ?thesis using own unfolding path unfolding v Some by (auto intro: tried_found)
    next
      case None
      have rest: "tried (holds_archive E archive v)
          (ps @ installer_default_lib_dirs E target)
          (case f3 of Some a \<Rightarrow> (Some a, t3) | None \<Rightarrow> (f4, t3 @ t4))"
        using pkg dirs unfolding v by (cases f3) (auto intro: tried_found tried_append)
      have "r = (case f3 of Some a \<Rightarrow> (Some a, t1 @ t2 @ t3) | None \<Rightarrow> (f4, t1 @ t2 @ t3 @ t4))"
        using assms(2) t1 z p d None by (auto simp: resolve_lib_dir_def split: option.splits)
      then show ?thesis
        using own rest unfolding path unfolding v None
        by (cases f3) (auto dest: tried_append)
    qed
  qed
qed

section \<open>Properties\<close>

text \<open>
  C33. The build links the first archive of the search path: whatever is set, installed or built on the way, the
  directives name the first directory, in the documented order, that holds the archive of the flavour being
  built; when none does the build stops, and its message lists every directory of the search path.
\<close>

theorem build_links_first_archive:
  assumes "builds_in_place E (path_join manifest_dir ''../../..'') (archive_name (archive_base trust))"
    and "build_main E manifest_dir trust target os = (out, os')"
  shows "case find (holds_archive E (archive_name (archive_base trust)) os')
        (search_path E (path_join manifest_dir ''../../..'') (archive_base trust) target os') of
      Some d \<Rightarrow> out = Inr (directives (archive_base trust) (archive_name (archive_base trust)) target d)
    | None \<Rightarrow> (\<exists>checked. out = Inl (panic_text (archive_name (archive_base trust)) target checked) \<and>
        (\<forall>d \<in> set (search_path E (path_join manifest_dir ''../../..'') (archive_base trust) target os').
           \<exists>note. d @ note \<in> set checked))"
proof -
  define archive where "archive = archive_name (archive_base trust)"
  define root where "root = path_join manifest_dir ''../../..''"
  define path where "path = search_path E root (archive_base trust) target os'"
  obtain r v where r: "resolve_lib_dir E root (archive_base trust) archive target os = (r, v)" by (rule prod.exhaust)
  have main: "build_main E manifest_dir trust target os =
      (case r of (None, checked) \<Rightarrow> (Inl (panic_text archive target checked), v) | (Some d, checked) \<Rightarrow> (Inr (directives (archive_base trust) archive target d), v))"
    unfolding build_main_def Let_def archive_def [symmetric] root_def [symmetric] r by (simp split: option.split prod.split)
  have v: "os' = v" using assms(2) unfolding main by (auto split: option.splits prod.splits)
  have t: "tried (holds_archive E archive v) path r"
    using resolve_in_order [OF assms(1) [folded root_def archive_def] r] unfolding path_def v .
  have out: "case find (holds_archive E archive os') path of
      Some d \<Rightarrow> out = Inr (directives (archive_base trust) archive target d)
    | None \<Rightarrow> (\<exists>checked. out = Inl (panic_text archive target checked) \<and> (\<forall>d \<in> set path. \<exists>note. d @ note \<in> set checked))"
  proof (cases "fst r")
    case None
    then have "find (holds_archive E archive v) path = None" using t by (simp add: tried_def)
    moreover from this have w: "takeWhile (\<lambda>d. \<not> holds_archive E archive v d) path = path"
      by (simp add: takeWhile_eq_all_conv find_None_iff)
    moreover have "\<forall>d \<in> set path. \<exists>note. d @ note \<in> set (snd r)" using t by (simp add: tried_def w)
    ultimately show ?thesis using assms(2) None v unfolding main by (cases r) auto
  next
    case (Some d)
    moreover from this have "find (holds_archive E archive v) path = Some d" using t by (simp add: tried_def)
    ultimately show ?thesis using assms(2) v unfolding main by (cases r) auto
  qed
  then show ?thesis unfolding path_def root_def archive_def .
qed

text \<open>A checkout of the whole repository on linux, whose first build makes the archive.\<close>

definition fresh_checkout :: "bool build_env" where
  "fresh_checkout = \<lparr>be_lib_dir = Some ''/opt/nwep'', be_canonicalize = (\<lambda>p built. Some ''/src''),
     be_exists = (\<lambda>p built. p = ''/src/build.zig'' \<or> built \<and> p = ''/src/zig-out/lib/libnwep-full.a''),
     be_zig_build = (\<lambda>root built. (True, True)), be_pkg_config = (\<lambda>n built. None),
     be_home_dir = None, be_data_local_dir = None, be_program_files = None\<rparr>"

theorem build_links_first_archive_witness:
  "fst (build_main fresh_checkout ''/src/rs/nwep-sys'' True ''linux'' False) =
     Inr (directives (archive_base True) (archive_name (archive_base True)) ''linux'' ''/src/zig-out/lib'')"
proof -
  obtain out os' where r: "build_main fresh_checkout ''/src/rs/nwep-sys'' True ''linux'' False = (out, os')"
    by (metis prod.collapse)
  have b: "builds_in_place fresh_checkout p (archive_name (archive_base True))" for p
    by (simp add: builds_in_place_def fresh_checkout_def holds_archive_def path_join_def archive_name_def archive_base_def)
  have "find (holds_archive fresh_checkout (archive_name (archive_base True)) True)
      (search_path fresh_checkout p (archive_base True) ''linux'' True) = Some ''/src/zig-out/lib''" for p
    by (simp add: search_path_def fresh_checkout_def holds_archive_def path_join_def archive_name_def archive_base_def)
  moreover have "os' = True"
    using r by (auto simp: build_main_def resolve_lib_dir_def try_override_def try_zig_out_def fresh_checkout_def
        holds_archive_def path_join_def archive_name_def archive_base_def Let_def)
  ultimately show ?thesis
    using build_links_first_archive [OF b r] r by simp
qed

end
