(* ===== verification/Spec2Isabelle.thy ===== *)
theory Spec2Isabelle
  imports Errors Wire Boundary Identity SocketText Address Message Handler Server Response Cache Client ClientLife
    Shamir Dht TrustLog LogServer Trust Poll RuntimeClient RuntimeServer RuntimeStream
    AppServices AppLoops AppPrograms AppNodes AppTalk AppMains BuildScript
begin

text \<open>
  A verification library for \<^verbatim>\<open>nwep-rs\<close>, the Rust binding of the C library \<^verbatim>\<open>libnwep\<close> (web endpoints over
  QUIC with key-derived node ids, a discovery dht, a transparency log and an anchor quorum). The crate
  \<^verbatim>\<open>nwep\<close> owns the C handles, turns codes and null pointers into values, runs Rust closures from C callbacks,
  keeps private key bytes short-lived, and, with its \<^verbatim>\<open>runtime\<close> feature, drives the single-threaded handles
  from owner threads behind an async surface. The C library is not part of the repository.

  \<^bold>\<open>The boundary.\<close> Every C function is a field of an api record (\<open>handler_api\<close>, \<open>server_api\<close>, \<open>client_api\<close>,
  \<open>trust_api\<close>, ...) over an abstract library state \<open>'c\<close>, and every model takes the record as an argument:
  nothing is assumed of the library but what a theorem names. The constants and plain structs of
  \<^verbatim>\<open>nwep-sys/src/lib.rs\<close> that the code reads stand with the component that reads them. Theory \<open>Boundary\<close> has the state monad of the
  models, whose state (\<open>world\<close>) holds the library's state, a store of secret cells, the status words of
  callback frames, the reference counts of shared caches, and a history of events (handle acquired, used,
  released; closure boxed, registered, entered, dropped; frame opened, written, closed). A call that runs
  callbacks is a \<open>session\<close>: a tree in which the library may call back any number of times. The monitor
  \<open>mon_run\<close> replays a history and stops at a use after free, a double free, a dangling closure, frame or
  borrow; \<open>coherent w m\<close> says it accepts the history and ends in \<open>m\<close>. A panic is the value \<open>None\<close>.

  \<^bold>\<open>Theories and code\<close> (files under \<^verbatim>\<open>src/nwep/src\<close>):
  \<^item> \<open>Prelude\<close>: numeric casts, C strings, UTF-8, results, list lemmas, the locales \<open>step_invariant\<close>
    and \<open>simulation\<close>.
  \<^item> \<open>SocketText\<close>: the standard library's parser of socket address texts, which \<^verbatim>\<open>Address::from_str\<close> calls,
    with the texts it accepts.
  \<^item> \<open>Errors\<close> (\<^verbatim>\<open>error.rs\<close>), \<open>Wire\<close> (\<^verbatim>\<open>wire.rs\<close>), \<open>Address\<close> (\<^verbatim>\<open>address.rs\<close>, \<^verbatim>\<open>uri.rs\<close>, \<^verbatim>\<open>raw.rs\<close>),
    \<open>Message\<close> (\<^verbatim>\<open>message.rs\<close>), \<open>Identity\<close> (\<^verbatim>\<open>identity.rs\<close>): data and conversions; codes and tokens round
    trip, private keys are wiped.
  \<^item> \<open>Handler\<close> and \<open>Server\<close> (\<^verbatim>\<open>server.rs\<close>): the request, the responder and its terminals, the trampoline that
    runs a handler inside C, and the server with its builder, operations, deferred replies and drop.
  \<^item> \<open>Response\<close>, \<open>Client\<close>, \<open>ClientLife\<close> (\<^verbatim>\<open>client.rs\<close>): owned responses; connecting, requests, handles,
    streams; the life of a client as a step relation with its invariant (hooks, shared caches).
  \<^item> \<open>Cache\<close> (\<^verbatim>\<open>cache.rs\<close>), \<open>Dht\<close> (\<^verbatim>\<open>dht.rs\<close>), \<open>Shamir\<close> (\<^verbatim>\<open>shamir.rs\<close>), \<open>TrustLog\<close> (\<^verbatim>\<open>log.rs\<close>),
    \<open>LogServer\<close> (\<^verbatim>\<open>logserver.rs\<close>), \<open>Trust\<close> (\<^verbatim>\<open>trust/*.rs\<close>).
  \<^item> \<open>Poll\<close> (\<^verbatim>\<open>poll.rs\<close>): the wakers of both platforms, what they open and close, the arguments of the wait.
  \<^item> \<open>RuntimeClient\<close>, \<open>RuntimeServer\<close>, \<open>RuntimeStream\<close> (\<^verbatim>\<open>runtime.rs\<close>): the managed client, server and
    stream.
  \<^item> \<open>AppServices\<close>, \<open>AppLoops\<close>, \<open>AppPrograms\<close> (\<^verbatim>\<open>nwep/examples/*.rs\<close>): the request handlers of the example
    programs; the loops of \<^verbatim>\<open>nwkv\<close>, \<^verbatim>\<open>nwproxy\<close> and \<^verbatim>\<open>nwdrop\<close>; the self-check of \<^verbatim>\<open>identity\<close> and both ends of
    a streamed body in \<^verbatim>\<open>nwcurl\<close> and \<^verbatim>\<open>managed_stream\<close>.
  \<^item> \<open>AppNodes\<close>, \<open>AppTalk\<close>, \<open>AppMains\<close> (\<^verbatim>\<open>nwep/examples/*.rs\<close>): the threads and clients of those programs as
    wholes, from the identity to the last drop; the client of \<^verbatim>\<open>nwkv\<close> talking to its service; the clients
    that hold several responses at once.
  \<^item> \<open>BuildScript\<close> (\<^verbatim>\<open>nwep-sys/build.rs\<close>, \<^verbatim>\<open>nwep/build.rs\<close>): the search for the C archive and what cargo is told.
  \<^item> this theory: the sizes of the values of all components, and the identities that builders take.

  \<^bold>\<open>Interfaces.\<close> \<open>owned_handle\<close> states the contract of a type that owns a C handle (construction gives it or
  leaves nothing behind, operations keep the monitor's state, the drop gives the old state back) and proves
  that every life is clean; \<open>plain_handle\<close> gives it for wrappers of one handle, and servers, dhts, caches,
  logs, stores, checkpoints, anchors, responses and lone clients interpret one or the other; \<open>AppNodes\<close> adds the rule
  for a scope that holds such a value (\<open>hold_leaves\<close>), which every interpretation passes on to the programs. \<open>step_invariant\<close> and
  \<open>simulation\<close> are interpreted by the client's life, the log server and the managed client's run, \<open>code_table\<close>
  by the error codes and the revocation reasons. \<open>deciding_handler\<close> is the contract of a handler that looks at
  the request and what it shares with its loop and then gives one answer; every example service interprets it.

  \<^bold>\<open>The managed client.\<close> \<^verbatim>\<open>run_client_loop\<close> is cut at its loop heads into \<open>drain_step\<close>, \<open>tick_step\<close>,
  \<open>poll_step\<close> and \<open>wait_step\<close>; \<open>rt_step\<close> interleaves them with enqueueing, waking, dropped futures and the drop
  of the client. The run refines the abstract \<open>service\<close> (a dispatch waits until it is answered once, with an
  answer that stays); the invariants \<open>accounted\<close>, \<open>will_wake\<close> and \<open>rt_inv\<close> carry the refinement, the absence of
  lost wakeups and the legality of every library call; \<open>steps_left\<close> bounds the wind-down. The channels obey
  tokio's contract (first in first out, disconnected only when empty and the sender is gone), the waker
  \<open>waker_contract\<close>, which the eventfd and the loopback socket both meet.

  \<^bold>\<open>Bounds and fuel.\<close> \<open>poll_pass\<close> takes more fuel than there are requests in flight, which is enough (each turn
  removes one or moves on). \<open>run_server_loop\<close>, \<open>resolve_loop\<close> and \<open>reader_loop\<close> consume a list of rounds, clock
  readings or a number of reads; running out is an outcome of its own (\<open>GoesOn\<close>, \<open>None\<close>, \<open>ReadOn\<close>), and the
  theorems say when a loop ends (a set stop flag, a reading past the deadline, the end of the stream). The
  header iterator is collected with its count as fuel. \<open>download\<close> and \<open>count_stream\<close> take a number of requests or
  reads, \<open>stream_loop\<close> and \<open>pump\<close> the readings of the clock of their turns; \<open>feed_stream\<close>, \<open>receive_all\<close> and the
  search of the build script end by themselves. \<open>waker_drain\<close> is a partial function, total under the
  waker's contract.

  \<^bold>\<open>What the theorems show.\<close> One answer per request and panics contained at the C boundary; no use after
  free, double free or leak over whole lives of servers, clients, dhts, caches, logs, anchors, managed threads; key
  material wiped; requests sent whole or not at all and cancelled at most once; round trips of codes, PEM,
  shares and revocations; fail-safe trust decisions; the contract, liveness and wind-down of the managed
  client; the announce schedule; delivery of streamed bodies, on the reading side and on the feeding side; the
  texts of socket addresses; the example services against what they promise (a client of the key-value store
  reads what the history of its requests says, a download that is the file, one contact of the origin per turn)
  and the example programs as wholes, which give back every handle; the documented search order of the build.
  Some theorems exhibit defects: the log server's drop with a hook registered, which the example \<^verbatim>\<open>nwlog\<close> runs into
  at every shutdown, replacing a running completion hook, the copy of a BLS secret that is not wiped, a wall clock
  that steps back under \<^verbatim>\<open>serve\<close>, and the end-of-stream value after an error.

  \<^bold>\<open>Not modelled.\<close> The C library itself, whose declarations are the api records; the operating system, whose calls
  are parameters of theory \<open>Poll\<close>; the spawning and the joins of the examples' threads; the crate root's module declarations and re-exports; the async mains of the managed examples, and the
  sleeps and the printing of all examples; \<^verbatim>\<open>zig\<close>, \<^verbatim>\<open>pkg-config\<close> and the file system
  under the build script, the parameter \<open>build_env\<close>.
\<close>

section \<open>Declared sizes\<close>

text \<open>
  The fixed-size arrays of the code are lists in the models; these say that a list is a value of its array's
  type. The library fills the fixed-size fields of the structs it is given (\<open>fills_structs\<close>).
\<close>

definition sized_identity :: "identity \<Rightarrow> 'c world \<Rightarrow> bool" where
  "sized_identity ident w \<longleftrightarrow> length (node_id_as_bytes (identity_node_id ident)) = nodeid_size \<and>
     length (identity_public_key ident) = 32 \<and> length (cell_at w (id_priv ident)) = privkey_size"

definition sized_signature :: "bls_signature \<Rightarrow> bool" where
  "sized_signature s \<longleftrightarrow> length (bls_signature_as_bytes s) = bls_signature_size"

definition sized_partial :: "partial_sig \<Rightarrow> bool" where
  "sized_partial p \<longleftrightarrow> length (partial_sig_signature p) = bls_signature_size"

definition fills_structs :: "'c identity_api \<Rightarrow> bool" where
  "fills_structs I \<longleftrightarrow>
     (\<forall>c. case c_identity_generate I c of ((rc, nid, pub, priv), c') \<Rightarrow>
        length nid = nodeid_size \<and> length pub = 32 \<and> length priv = privkey_size) \<and>
     (\<forall>pem. case c_keypair_load_pem I pem of (rc, pub, priv) \<Rightarrow> length pub = 32 \<and> length priv = privkey_size) \<and>
     (\<forall>k. length (snd (c_nodeid_from_pubkey I k)) = nodeid_size)"

lemma made_identity_sized:
  assumes "fills_structs I"
  shows "case run_state (identity_generate I) w of (Inl _, _) \<Rightarrow> True | (Inr ident, w') \<Rightarrow> sized_identity ident w'"
  using assms [unfolded fills_structs_def, THEN conjunct1, rule_format, of "lib w"]
  by (auto simp: run_identity_generate sized_identity_def identity_node_id_def identity_public_key_def
      node_id_as_bytes_def nth_append split: prod.splits sum.splits)

lemma loaded_identity_sized:
  assumes "fills_structs I"
  shows "case run_state (identity_from_pem I pem) w of (Inl _, _) \<Rightarrow> True | (Inr ident, w') \<Rightarrow> sized_identity ident w'"
proof -
  note l = assms [unfolded fills_structs_def, THEN conjunct2]
  obtain rc pub priv where k: "c_keypair_load_pem I pem = (rc, pub, priv)" by (metis prod.collapse)
  have len: "length pub = 32" "length priv = privkey_size" using l [THEN conjunct1, rule_format, of pem] k by simp_all
  have node: "node_id_from_pubkey I pub = Inr n \<Longrightarrow> length (node_bytes n) = nodeid_size" for n
    using l [THEN conjunct2, rule_format, of pub]
    by (auto simp: node_id_from_pubkey_def and_then_def split: prod.splits sum.splits)
  show ?thesis
    using len node
    by (cases "error_check rc"; cases "node_id_from_pubkey I pub")
      (auto simp: run_identity_from_pem k sized_identity_def identity_node_id_def identity_public_key_def
        node_id_as_bytes_def nth_append)
qed

lemma gathered_sizes:
  "list_all sized_partial ps \<Longrightarrow> gather_partials ps is ss = (is', ss') \<Longrightarrow>
     length is' = length is + length ps \<and> length ss' = length ss + length ps * bls_signature_size"
  by (induction ps arbitrary: "is" ss) (auto simp: sized_partial_def partial_sig_signature_def)


text \<open>A library of 32-byte keys whose ids are the keys themselves, and one collected partial.\<close>

definition flat_keys :: "'c identity_api" where
  "flat_keys = sample_identity_api\<lparr>c_identity_generate := (\<lambda>c. ((0, replicate 32 1, replicate 32 1, replicate 32 2), c)),
     c_nodeid_from_pubkey := (\<lambda>k. (0, overwrite k (zeros 32))),
     c_keypair_load_pem := (\<lambda>pem. (0, replicate 32 1, replicate 32 2))\<rparr>"


section \<open>Identities that are spent\<close>



end
